(* ===== verification/Prelude.thy ===== *)
theory Prelude
  imports Main
begin

text \<open>
  The vocabulary every other theory shares: Python exceptions as values, the result
  type \<open>exn + 'a\<close> with its sequencing operator, Python's list slices, and a few
  generic list lemmas.  A computation that raises is \<open>Inl e\<close>; one that returns
  \<open>x\<close> is \<open>Inr x\<close>.
\<close>

named_theorems res_simps "inversion rules of the result type"

section \<open>Exceptions as values\<close>

text \<open>
  The exception classes the program raises, catches or lets escape.  \<open>JSONDecodeError\<close> is
  a subclass of \<open>ValueError\<close> and listed beside it where that is caught.  The last
  constructor is no exception of Python: it is the answer of the model on a text outside
  the range of characters it covers.
\<close>

datatype exn =
    KeyError
  | TypeError
  | ValueError
  | OverflowError
  | ZeroDivisionError
  | IndexError
  | AttributeError
  | RuntimeError
  | UnsupportedAlgorithm
  | ChainStoreError
  | TlsConfigError
  | MessageDecodeError
  | JSONDecodeError
  | OSError
  | StopIteration
  | UnmodelledText

type_synonym 'a res = "exn + 'a"

text \<open>Sequencing: the exception of the first computation skips the second.\<close>

definition bindE :: "'e + 'a \<Rightarrow> ('a \<Rightarrow> 'e + 'b) \<Rightarrow> 'e + 'b" where
  "bindE m f = (case m of Inl e \<Rightarrow> Inl e | Inr x \<Rightarrow> f x)"

text \<open>\<open>try: m except es: h\<close>, with the handled classes given as a list.\<close>

definition catchE :: "'a res \<Rightarrow> exn list \<Rightarrow> 'a res \<Rightarrow> 'a res" where
  "catchE m es h = (case m of Inl e \<Rightarrow> (if e \<in> set es then h else Inl e) | Inr x \<Rightarrow> Inr x)"

lemma bindE_simps [simp]:
  "bindE (Inl e) f = Inl e"
  "bindE (Inr x) f = f x"
  by (simp_all add: bindE_def)

lemma bindE_eq_Inr [res_simps]:
  "bindE m f = Inr y \<longleftrightarrow> (\<exists>x. m = Inr x \<and> f x = Inr y)"
  by (cases m) simp_all

lemma bindE_eq_Inl [res_simps]:
  "bindE m f = Inl e \<longleftrightarrow> m = Inl e \<or> (\<exists>x. m = Inr x \<and> f x = Inl e)"
  by (cases m) simp_all

lemma bindE_assoc: "bindE (bindE m f) g = bindE m (\<lambda>x. bindE (f x) g)"
  by (cases m) simp_all

lemma bindE_cong [fundef_cong]:
  assumes "m = m'" and "\<And>x. m' = Inr x \<Longrightarrow> f x = f' x"
  shows "bindE m f = bindE m' f'"
  using assms by (cases m') simp_all

lemma catchE_simps [simp]:
  "catchE (Inr x) es h = Inr x"
  "e \<in> set es \<Longrightarrow> catchE (Inl e) es h = h"
  "e \<notin> set es \<Longrightarrow> catchE (Inl e) es h = Inl e"
  by (simp_all add: catchE_def)

lemma catchE_eq_Inr [res_simps]:
  "catchE m es h = Inr y \<longleftrightarrow> m = Inr y \<or> (\<exists>e. m = Inl e \<and> e \<in> set es \<and> h = Inr y)"
  by (cases m) (auto simp: catchE_def)

lemma sum_case_eq_Inr [res_simps]:
  "(case m of Inl e \<Rightarrow> f e | Inr x \<Rightarrow> g x) = Inr y \<longleftrightarrow>
   (\<exists>e. m = Inl e \<and> f e = Inr y) \<or> (\<exists>x. m = Inr x \<and> g x = Inr y)"
  by (cases m) simp_all

lemma option_case_eq_Inr [res_simps]:
  "(case m of None \<Rightarrow> a | Some x \<Rightarrow> g x) = Inr y \<longleftrightarrow>
   (m = None \<and> a = Inr y) \<or> (\<exists>x. m = Some x \<and> g x = Inr y)"
  by (cases m) simp_all

lemma if_eq_Inr [res_simps]:
  "(if c then a else b) = Inr y \<longleftrightarrow> (c \<and> a = Inr y) \<or> (\<not> c \<and> b = Inr y)"
  by simp

text \<open>A \<open>for\<close> loop whose body may raise.\<close>

primrec mapE :: "('a \<Rightarrow> 'e + 'b) \<Rightarrow> 'a list \<Rightarrow> 'e + 'b list" where
  "mapE f [] = Inr []"
| "mapE f (x # xs) = bindE (f x) (\<lambda>y. bindE (mapE f xs) (\<lambda>ys. Inr (y # ys)))"

lemma mapE_length: "mapE f xs = Inr ys \<Longrightarrow> length ys = length xs"
  by (induction xs arbitrary: ys) (auto simp: res_simps)

lemma mapE_nth: "mapE f xs = Inr ys \<Longrightarrow> i < length xs \<Longrightarrow> f (xs ! i) = Inr (ys ! i)"
  by (induction xs arbitrary: ys i) (auto simp: res_simps nth_Cons split: nat.splits)

text \<open>A loop that threads an accumulator.\<close>

primrec foldE :: "('b \<Rightarrow> 'a \<Rightarrow> 'e + 'b) \<Rightarrow> 'b \<Rightarrow> 'a list \<Rightarrow> 'e + 'b" where
  "foldE f b [] = Inr b"
| "foldE f b (x # xs) = bindE (f b x) (\<lambda>b'. foldE f b' xs)"

lemma foldE_append: "foldE f b (xs @ ys) = bindE (foldE f b xs) (\<lambda>b'. foldE f b' ys)"
  by (induction xs arbitrary: b) (simp_all add: bindE_assoc)

section \<open>Python slices\<close>

text \<open>\<open>xs[i:]\<close> and \<open>xs[:i]\<close> with Python's treatment of negative indices.\<close>

definition slice_from :: "'a list \<Rightarrow> int \<Rightarrow> 'a list" where
  "slice_from xs i =
     (if i < 0 then drop (nat (int (length xs) + i)) xs else drop (nat i) xs)"

definition slice_upto :: "'a list \<Rightarrow> int \<Rightarrow> 'a list" where
  "slice_upto xs i =
     (if i < 0 then take (nat (int (length xs) + i)) xs else take (nat i) xs)"

text \<open>\<open>xs[0]\<close> and \<open>xs[-1]\<close>, which raise on an empty list.\<close>

definition py_first :: "'a list \<Rightarrow> 'a res" where
  "py_first xs = (case xs of [] \<Rightarrow> Inl IndexError | x # _ \<Rightarrow> Inr x)"

definition py_last :: "'a list \<Rightarrow> 'a res" where
  "py_last xs = (if xs = [] then Inl IndexError else Inr (last xs))"

lemma slice_upto_length: "0 \<le> n \<Longrightarrow> int (length (slice_upto xs n)) \<le> n"
  by (simp add: slice_upto_def)

lemma slice_from_set: "set (slice_from xs i) \<subseteq> set xs"
  by (auto simp: slice_from_def dest: in_set_dropD)

lemma slice_upto_set: "set (slice_upto xs i) \<subseteq> set xs"
  by (auto simp: slice_upto_def dest: in_set_takeD)

section \<open>Generic list lemmas\<close>

lemma takeWhile_all_append:
  "list_all P xs \<Longrightarrow> takeWhile P (xs @ ys) = xs @ takeWhile P ys"
  by (induction xs) simp_all

lemma dropWhile_all_append:
  "list_all P xs \<Longrightarrow> dropWhile P (xs @ ys) = dropWhile P ys"
  by (induction xs) simp_all

lemma list_all_takeWhile: "list_all P (takeWhile P xs)"
  by (induction xs) simp_all

lemma sum_list_map_update:
  fixes f :: "'a \<Rightarrow> int"
  assumes "i < length xs"
  shows "sum_list (map f (xs[i := y])) = sum_list (map f xs) - f (xs ! i) + f y"
  using assms by (induction xs arbitrary: i) (auto simp: nth_Cons split: nat.splits)

end
