(* ===== verification/Py_Float.thy ===== *)
theory Py_Float
  imports Complex_Main Prelude
begin

text \<open>
  Python's \<open>float\<close> (IEEE 754 binary64).  A finite float is its exact rational value;
  minus zero, the infinities and NaN are constructors of their own.  An arithmetic
  operation is the exact rational operation followed by rounding to the nearest double
  (ties to even), which is what CPython computes.  Conversions from and to \<open>int\<close>
  raise exactly where Python does.
\<close>

datatype pyfloat = Fin rat | NegZero | PosInf | NegInf | NaN

section \<open>Rounding a rational to the nearest double\<close>

text \<open>The binary logarithm of a positive natural number, rounded down.\<close>

fun nat_log2 :: "nat \<Rightarrow> nat" where
  "nat_log2 n = (if n < 2 then 0 else Suc (nat_log2 (n div 2)))"

declare nat_log2.simps [simp del]

text \<open>The largest \<open>e\<close> with \<open>2 ^ e \<le> x\<close>, for \<open>x > 0\<close>.\<close>

definition rat_log2 :: "rat \<Rightarrow> int" where
  "rat_log2 x =
     (if 1 \<le> x then int (nat_log2 (nat \<lfloor>x\<rfloor>))
      else - int (Suc (nat_log2 (nat (\<lceil>1 / x\<rceil> - 1)))))"

definition pow2 :: "int \<Rightarrow> rat" where
  "pow2 e = (if 0 \<le> e then 2 ^ nat e else 1 / 2 ^ nat (- e))"

definition round_half_even :: "rat \<Rightarrow> int" where
  "round_half_even x =
     (let q = \<lfloor>x\<rfloor>; r = x - of_int q in
      if r < 1 / 2 then q
      else if 1 / 2 < r then q + 1
      else if even q then q else q + 1)"

text \<open>The exponent of the last mantissa bit; \<open>-1074\<close> is the subnormal range.\<close>

definition ulp_exp :: "rat \<Rightarrow> int" where
  "ulp_exp x = max (rat_log2 x - 52) (- 1074)"

definition round_pos :: "rat \<Rightarrow> rat" where
  "round_pos x = of_int (round_half_even (x / pow2 (ulp_exp x))) * pow2 (ulp_exp x)"

definition round_rat :: "rat \<Rightarrow> rat" where
  "round_rat x = (if x = 0 then 0 else if 0 < x then round_pos x else - round_pos (- x))"

text \<open>A rounded value of magnitude \<open>2 ^ 1024\<close> or more is not a finite double.\<close>

definition float_limit :: rat where
  "float_limit = 2 ^ 1024"

lemma float_limit_code [code]:
  "float_limit = 179769313486231590772930519078902473361797697894230657273430081157732675805500963132708477322407536021120113879871393357658789768814416622492847430639474124377767893424865485276302219601246094119453082952085005768838150682342462881473913110540827237163350510684586298239947245938479716304835356329624224137216"
  by (simp add: float_limit_def)

text \<open>The float nearest to an exact result: overflow gives an infinity.\<close>

definition float_of_exact :: "rat \<Rightarrow> pyfloat" where
  "float_of_exact x =
     (let r = round_rat x in
      if float_limit \<le> r then PosInf
      else if r \<le> - float_limit then NegInf
      else if r = 0 \<and> x < 0 then NegZero
      else Fin r)"

section \<open>Conversions\<close>

text \<open>\<open>float(n)\<close> for an int, and the implicit conversion in mixed arithmetic.\<close>

definition float_of_int :: "int \<Rightarrow> pyfloat res" where
  "float_of_int n =
     (let r = round_rat (of_int n) in
      if float_limit \<le> \<bar>r\<bar> then Inl OverflowError else Inr (Fin r))"

text \<open>\<open>int(f)\<close> truncates towards zero.\<close>

definition trunc_rat :: "rat \<Rightarrow> int" where
  "trunc_rat x = (if 0 \<le> x then \<lfloor>x\<rfloor> else \<lceil>x\<rceil>)"

fun int_of_float :: "pyfloat \<Rightarrow> int res" where
  "int_of_float (Fin x) = Inr (trunc_rat x)"
| "int_of_float NegZero = Inr 0"
| "int_of_float NaN = Inl ValueError"
| "int_of_float _ = Inl OverflowError"

text \<open>\<open>math.ceil(f)\<close>.\<close>

fun ceil_float :: "pyfloat \<Rightarrow> int res" where
  "ceil_float (Fin x) = Inr \<lceil>x\<rceil>"
| "ceil_float NegZero = Inr 0"
| "ceil_float NaN = Inl ValueError"
| "ceil_float _ = Inl OverflowError"

fun float_isfinite :: "pyfloat \<Rightarrow> bool" where
  "float_isfinite (Fin x) = True"
| "float_isfinite NegZero = True"
| "float_isfinite _ = False"

section \<open>Comparison\<close>

text \<open>\<open>a < b\<close> and \<open>a == b\<close>; every comparison with NaN is false.\<close>

fun float_exact :: "pyfloat \<Rightarrow> rat" where
  "float_exact (Fin x) = x"
| "float_exact _ = 0"

definition float_lt :: "pyfloat \<Rightarrow> pyfloat \<Rightarrow> bool" where
  "float_lt a b =
     (case (a, b) of
        (NaN, _) \<Rightarrow> False
      | (_, NaN) \<Rightarrow> False
      | (PosInf, _) \<Rightarrow> False
      | (_, PosInf) \<Rightarrow> True
      | (_, NegInf) \<Rightarrow> False
      | (NegInf, _) \<Rightarrow> True
      | _ \<Rightarrow> float_exact a < float_exact b)"

definition float_eq :: "pyfloat \<Rightarrow> pyfloat \<Rightarrow> bool" where
  "float_eq a b =
     (case (a, b) of
        (NaN, _) \<Rightarrow> False
      | (_, NaN) \<Rightarrow> False
      | (PosInf, _) \<Rightarrow> b = PosInf
      | (_, PosInf) \<Rightarrow> False
      | (NegInf, _) \<Rightarrow> b = NegInf
      | (_, NegInf) \<Rightarrow> False
      | _ \<Rightarrow> float_exact a = float_exact b)"

definition float_le :: "pyfloat \<Rightarrow> pyfloat \<Rightarrow> bool" where
  "float_le a b = (float_lt a b \<or> float_eq a b)"

text \<open>\<open>n == f\<close> for an int \<open>n\<close>: exact, without converting the int.\<close>

definition int_float_eq :: "int \<Rightarrow> pyfloat \<Rightarrow> bool" where
  "int_float_eq n f =
     (case f of Fin x \<Rightarrow> x = of_int n | NegZero \<Rightarrow> n = 0 | _ \<Rightarrow> False)"

text \<open>Python's \<open>min(a, b)\<close> and \<open>max(a, b)\<close> keep the first unless the second is strictly better.\<close>

definition float_min :: "pyfloat \<Rightarrow> pyfloat \<Rightarrow> pyfloat" where
  "float_min a b = (if float_lt b a then b else a)"

definition float_max :: "pyfloat \<Rightarrow> pyfloat \<Rightarrow> pyfloat" where
  "float_max a b = (if float_lt a b then b else a)"

section \<open>Arithmetic\<close>

fun float_neg_sign :: "pyfloat \<Rightarrow> bool" where
  "float_neg_sign (Fin x) = (x < 0)"
| "float_neg_sign NegZero = True"
| "float_neg_sign NegInf = True"
| "float_neg_sign _ = False"

fun float_is_zero :: "pyfloat \<Rightarrow> bool" where
  "float_is_zero (Fin x) = (x = 0)"
| "float_is_zero NegZero = True"
| "float_is_zero _ = False"

fun float_is_inf :: "pyfloat \<Rightarrow> bool" where
  "float_is_inf PosInf = True"
| "float_is_inf NegInf = True"
| "float_is_inf _ = False"

definition signed_zero :: "bool \<Rightarrow> pyfloat" where
  "signed_zero neg = (if neg then NegZero else Fin 0)"

definition signed_inf :: "bool \<Rightarrow> pyfloat" where
  "signed_inf neg = (if neg then NegInf else PosInf)"

text \<open>\<open>a / b\<close> on floats.\<close>

definition float_div :: "pyfloat \<Rightarrow> pyfloat \<Rightarrow> pyfloat res" where
  "float_div a b =
     (let neg = (float_neg_sign a \<noteq> float_neg_sign b) in
      if float_is_zero b then Inl ZeroDivisionError
      else if a = NaN \<or> b = NaN \<or> (float_is_inf a \<and> float_is_inf b) then Inr NaN
      else if float_is_inf a then Inr (signed_inf neg)
      else if float_is_inf b \<or> float_is_zero a then Inr (signed_zero neg)
      else Inr (float_of_exact (float_exact a / float_exact b)))"

text \<open>\<open>a * b\<close> on floats.\<close>

definition float_mul :: "pyfloat \<Rightarrow> pyfloat \<Rightarrow> pyfloat" where
  "float_mul a b =
     (let neg = (float_neg_sign a \<noteq> float_neg_sign b) in
      if a = NaN \<or> b = NaN \<or> (float_is_inf a \<and> float_is_zero b) \<or> (float_is_zero a \<and> float_is_inf b)
      then NaN
      else if float_is_inf a \<or> float_is_inf b then signed_inf neg
      else if float_is_zero a \<or> float_is_zero b then signed_zero neg
      else float_of_exact (float_exact a * float_exact b))"

text \<open>\<open>a + b\<close> on floats; the sum of two equal and opposite finite values is plus zero.\<close>

definition float_add :: "pyfloat \<Rightarrow> pyfloat \<Rightarrow> pyfloat" where
  "float_add a b =
     (if a = NaN \<or> b = NaN then NaN
      else if float_is_inf a then (if float_is_inf b \<and> a \<noteq> b then NaN else a)
      else if float_is_inf b then b
      else if a = NegZero \<and> b = NegZero then NegZero
      else float_of_exact (float_exact a + float_exact b))"

definition float_neg :: "pyfloat \<Rightarrow> pyfloat" where
  "float_neg a =
     (case a of
        Fin x \<Rightarrow> if x = 0 then NegZero else Fin (- x)
      | NegZero \<Rightarrow> Fin 0
      | PosInf \<Rightarrow> NegInf
      | NegInf \<Rightarrow> PosInf
      | NaN \<Rightarrow> NaN)"

definition float_sub :: "pyfloat \<Rightarrow> pyfloat \<Rightarrow> pyfloat" where
  "float_sub a b = float_add a (float_neg b)"

text \<open>True division of two ints: the exact quotient, rounded once.\<close>

definition int_truediv :: "int \<Rightarrow> int \<Rightarrow> pyfloat res" where
  "int_truediv a b =
     (if b = 0 then Inl ZeroDivisionError
      else let r = round_rat (of_int a / of_int b) in
           if float_limit \<le> \<bar>r\<bar> then Inl OverflowError
           else if r = 0 \<and> (a < 0) \<noteq> (b < 0) then Inr NegZero
           else Inr (Fin r))"

text \<open>\<open>n / f\<close> with an int on the left: the int is converted first.\<close>

definition int_div_float :: "int \<Rightarrow> pyfloat \<Rightarrow> pyfloat res" where
  "int_div_float n f = bindE (float_of_int n) (\<lambda>a. float_div a f)"

section \<open>Facts about rounding\<close>

lemma nat_log2_bounds:
  assumes "0 < n"
  shows "2 ^ nat_log2 n \<le> n" and "n < 2 ^ Suc (nat_log2 n)"
  using assms
proof (induction n rule: nat_log2.induct)
  case (1 n)
  {
    case 1
    show ?case
    proof (cases "n < 2")
      case True
      with 1 show ?thesis by (simp add: nat_log2.simps [of n])
    next
      case False
      then have "0 < n div 2" by simp
      with "1.IH"(1) False have "2 ^ nat_log2 (n div 2) \<le> n div 2" by simp
      with False show ?thesis by (simp add: nat_log2.simps [of n])
    qed
  next
    case 2
    show ?case
    proof (cases "n < 2")
      case True
      then show ?thesis by (simp add: nat_log2.simps [of n])
    next
      case False
      then have "0 < n div 2" by simp
      with "1.IH"(2) False have "n div 2 < 2 ^ Suc (nat_log2 (n div 2))" by simp
      then have "n < 2 * 2 ^ Suc (nat_log2 (n div 2))" by arith
      with False show ?thesis by (simp add: nat_log2.simps [of n])
    qed
  }
qed

lemma pow2_pos [simp]: "0 < pow2 e"
  by (simp add: pow2_def)

lemma pow2_nonneg [simp]: "0 \<le> pow2 e" "pow2 e \<noteq> 0"
  using pow2_pos [of e] by linarith+

lemma rat_log2_bounds:
  assumes "0 < x"
  shows "pow2 (rat_log2 x) \<le> x" and "x < pow2 (rat_log2 x + 1)"
proof -
  have "pow2 (rat_log2 x) \<le> x \<and> x < pow2 (rat_log2 x + 1)"
  proof (cases "1 \<le> x")
    case True
    let ?n = "nat \<lfloor>x\<rfloor>"
    let ?k = "nat_log2 ?n"
    have n: "0 < ?n" using True by simp
    have fl: "of_nat ?n = (of_int \<lfloor>x\<rfloor> :: rat)" using True by simp
    have "(2 :: rat) ^ ?k \<le> of_nat ?n"
      using nat_log2_bounds(1) [OF n] by (metis of_nat_le_iff of_nat_numeral of_nat_power)
    then have lo: "(2 :: rat) ^ ?k \<le> x" using fl by linarith
    have "Suc ?n \<le> 2 ^ Suc ?k" using nat_log2_bounds(2) [OF n] by simp
    then have "of_nat (Suc ?n) \<le> (2 :: rat) ^ Suc ?k"
      by (metis of_nat_le_iff of_nat_numeral of_nat_power)
    then have hi: "x < 2 ^ Suc ?k" using fl by (simp) linarith
    have e: "rat_log2 x = int ?k" using True by (simp add: rat_log2_def)
    show ?thesis using lo hi
      by (simp add: e pow2_def nat_add_distrib)
  next
    case False
    with assms have y: "1 < 1 / x" by simp
    let ?m = "nat (\<lceil>1 / x\<rceil> - 1)"
    let ?k = "nat_log2 ?m"
    have "1 < \<lceil>1 / x\<rceil>" using y by linarith
    then have m: "0 < ?m" by simp
    have m_eq: "of_nat ?m = (of_int \<lceil>1 / x\<rceil> - 1 :: rat)"
    proof -
      have "int ?m = \<lceil>1 / x\<rceil> - 1" using \<open>1 < \<lceil>1 / x\<rceil>\<close> by linarith
      then show ?thesis by (metis of_int_1 of_int_diff of_int_of_nat_eq)
    qed
    have "(2 :: rat) ^ ?k \<le> of_nat ?m"
      using nat_log2_bounds(1) [OF m] by (metis of_nat_le_iff of_nat_numeral of_nat_power)
    then have "2 ^ ?k < 1 / x" using m_eq by linarith
    then have hi: "x < 1 / 2 ^ ?k"
      using assms by (simp add: field_simps)
    have "Suc ?m \<le> 2 ^ Suc ?k" using nat_log2_bounds(2) [OF m] by simp
    then have "of_nat (Suc ?m) \<le> (2 :: rat) ^ Suc ?k"
      by (metis of_nat_le_iff of_nat_numeral of_nat_power)
    then have "1 / x \<le> 2 ^ Suc ?k" using m_eq by (simp) linarith
    then have lo: "1 / 2 ^ Suc ?k \<le> x"
      using assms by (simp add: field_simps)
    have e: "rat_log2 x = - int (Suc ?k)" using False by (simp add: rat_log2_def)
    show ?thesis
    proof
      show "pow2 (rat_log2 x) \<le> x"
        using lo unfolding e pow2_def by (simp del: of_nat_Suc)
      show "x < pow2 (rat_log2 x + 1)"
        using hi unfolding e pow2_def by (cases "?k = 0") simp_all
    qed
  qed
  then show "pow2 (rat_log2 x) \<le> x" and "x < pow2 (rat_log2 x + 1)" by simp_all
qed

lemma round_half_even_ge: "of_int n \<le> x \<Longrightarrow> n \<le> round_half_even x"
proof -
  assume "of_int n \<le> x"
  then have "n \<le> \<lfloor>x\<rfloor>" by (simp add: le_floor_iff)
  then show ?thesis by (auto simp: round_half_even_def Let_def)
qed

lemma round_half_even_le:
  assumes "x \<le> of_int n" shows "round_half_even x \<le> n"
proof (cases "x = of_int n")
  case True
  then show ?thesis by (simp add: round_half_even_def)
next
  case False
  with assms have "x < of_int n" by simp
  then have "\<lfloor>x\<rfloor> < n" by (simp add: floor_less_iff)
  then show ?thesis by (auto simp: round_half_even_def Let_def)
qed

text \<open>
  Integers up to \<open>2 ^ 53\<close> are doubles, so rounding never jumps over one of them.
\<close>

lemma pow2_grid:
  assumes "e \<le> 0" shows "\<exists>N. (of_int n :: rat) = of_int N * pow2 e"
proof
  show "(of_int n :: rat) = of_int (n * 2 ^ nat (- e)) * pow2 e"
    using assms by (cases "e = 0") (simp_all add: pow2_def)
qed

lemma ulp_exp_cases:
  assumes "0 < x" and "0 < ulp_exp x"
  shows "2 ^ 53 \<le> x" and "2 ^ 52 * pow2 (ulp_exp x) \<le> x"
    and "(2::rat) ^ 53 \<le> 2 ^ 52 * pow2 (ulp_exp x)"
proof -
  let ?e = "ulp_exp x"
  have e: "rat_log2 x = ?e + 52" using assms(2) by (simp add: ulp_exp_def max_def split: if_splits)
  have "pow2 (?e + 52) = 2 ^ 52 * pow2 ?e"
    using assms(2) by (simp add: pow2_def nat_add_distrib power_add)
  with e rat_log2_bounds(1) [OF assms(1)] show *: "2 ^ 52 * pow2 ?e \<le> x" by simp
  have "(2 :: rat) ^ 1 \<le> 2 ^ nat ?e" using assms(2) by (intro power_increasing) simp_all
  then have "2 \<le> pow2 ?e" using assms(2) by (simp add: pow2_def)
  then show **: "(2::rat) ^ 53 \<le> 2 ^ 52 * pow2 ?e" by simp
  show "2 ^ 53 \<le> x" using * ** by linarith
qed

lemma round_pos_le_int:
  assumes "0 < x" and "x \<le> of_int n" and "n \<le> 2 ^ 53"
  shows "round_pos x \<le> of_int n"
proof -
  let ?e = "ulp_exp x"
  have "\<exists>N. (of_int n :: rat) = of_int N * pow2 ?e"
  proof (cases "0 < ?e")
    case False
    then show ?thesis by (intro pow2_grid) simp
  next
    case True
    have "(of_int n :: rat) \<le> 2 ^ 53" using assms(3)
      by (metis of_int_le_iff of_int_numeral of_int_power)
    with ulp_exp_cases [OF assms(1) True] assms(2)
    have "(of_int n :: rat) = of_int (2 ^ 52) * pow2 ?e" by simp
    then show ?thesis ..
  qed
  then obtain N where N: "(of_int n :: rat) = of_int N * pow2 ?e" ..
  then have "x / pow2 ?e \<le> of_int N" using assms(2) by (simp add: pos_divide_le_eq)
  then have "(of_int (round_half_even (x / pow2 ?e)) :: rat) \<le> of_int N"
    by (simp add: round_half_even_le)
  then show ?thesis unfolding round_pos_def N by (simp add: mult_right_mono)
qed

lemma round_pos_ge_int:
  assumes "0 < x" and "of_int n \<le> x" and "n \<le> 2 ^ 53"
  shows "of_int n \<le> round_pos x"
proof (cases "0 < ulp_exp x")
  case False
  let ?e = "ulp_exp x"
  from False obtain N where N: "(of_int n :: rat) = of_int N * pow2 ?e"
    using pow2_grid [of ?e n] by auto
  then have "of_int N \<le> x / pow2 ?e" using assms(2) by (simp add: pos_le_divide_eq)
  then have "(of_int N :: rat) \<le> of_int (round_half_even (x / pow2 ?e))"
    by (simp add: round_half_even_ge)
  then show ?thesis unfolding round_pos_def N by (simp add: mult_right_mono)
next
  case True
  let ?e = "ulp_exp x"
  note c = ulp_exp_cases [OF assms(1) True]
  have "(of_int (2 ^ 52) :: rat) \<le> x / pow2 ?e" using c(2) by (simp add: pos_le_divide_eq)
  then have "(of_int (2 ^ 52) :: rat) \<le> of_int (round_half_even (x / pow2 ?e))"
    by (simp only: of_int_le_iff round_half_even_ge)
  then have "2 ^ 52 * pow2 ?e \<le> round_pos x"
    unfolding round_pos_def by (simp add: mult_right_mono)
  moreover have "(of_int n :: rat) \<le> 2 ^ 53" using assms(3)
    by (metis of_int_le_iff of_int_numeral of_int_power)
  ultimately show ?thesis using c(3) by linarith
qed

lemma round_pos_nonneg: "0 < x \<Longrightarrow> 0 \<le> round_pos x"
  using round_pos_ge_int [of x 0] by simp

lemma round_rat_int:
  assumes "\<bar>n\<bar> \<le> 2 ^ 53" shows "round_rat (of_int n) = of_int n"
proof -
  have pos: "round_pos (of_int m) = of_int m" if "0 < m" "m \<le> 2 ^ 53" for m
    using that round_pos_le_int [of "of_int m" m] round_pos_ge_int [of "of_int m" m] by simp
  consider "n = 0" | "0 < n" | "n < 0" by linarith
  then show ?thesis
  proof cases
    case 3
    then have "round_pos (of_int (- n)) = of_int (- n)" using assms by (intro pos) auto
    with 3 show ?thesis by (simp add: round_rat_def)
  qed (use assms pos in \<open>auto simp: round_rat_def\<close>)
qed

lemma float_limit_gt: "(of_int n :: rat) < float_limit" if "n \<le> 2 ^ 53"
proof -
  have "(of_int n :: rat) \<le> 2 ^ 53" using that
    by (metis of_int_le_iff of_int_numeral of_int_power)
  also have "(2 :: rat) ^ 53 < 2 ^ 1024" by (rule power_strict_increasing) simp_all
  finally show ?thesis by (simp add: float_limit_def)
qed

lemma float_of_int_small:
  assumes "\<bar>n\<bar> \<le> 2 ^ 53" shows "float_of_int n = Inr (Fin (of_int n))"
proof -
  have "\<bar>of_int n :: rat\<bar> < float_limit"
    using float_limit_gt [of "\<bar>n\<bar>"] assms by simp
  then show ?thesis using assms by (simp add: float_of_int_def round_rat_int)
qed

lemma round_half_even_int [simp]: "round_half_even (of_int n) = n"
  by (simp add: round_half_even_def)

lemma round_pos_exact:
  "x = of_int N * pow2 (ulp_exp x) \<Longrightarrow> round_pos x = x"
proof -
  assume x: "x = of_int N * pow2 (ulp_exp x)"
  then have "x / pow2 (ulp_exp x) = of_int N" by (simp add: nonzero_divide_eq_eq)
  then show ?thesis using x by (simp add: round_pos_def)
qed

text \<open>Half of an int up to \<open>2 ^ 53\<close> is a double.\<close>

lemma round_pos_half:
  assumes "0 < n" "n \<le> 2 ^ 53" shows "round_pos (of_int n / 2) = of_int n / 2"
proof (cases "n = 2 ^ 53")
  case True
  have "round_pos (of_int (2 ^ 52)) = of_int (2 ^ 52)"
    using round_rat_int [of "2 ^ 52"] by (simp add: round_rat_def)
  then show ?thesis using True by simp
next
  case False
  let ?x = "of_int n / 2 :: rat"
  have x: "0 < ?x" using assms by simp
  have "(of_int n :: rat) < of_int (2 ^ 53)" using assms False by (simp only: of_int_less_iff)
  then have lt: "?x < 2 ^ 52" by simp
  have "pow2 (rat_log2 ?x) < 2 ^ 52" using rat_log2_bounds(1) [OF x] lt by linarith
  have "rat_log2 ?x < 52"
  proof (rule ccontr)
    assume "\<not> rat_log2 ?x < 52"
    then have le: "52 \<le> nat (rat_log2 ?x)" by simp
    have "(2 :: rat) ^ 52 \<le> 2 ^ nat (rat_log2 ?x)" by (rule power_increasing [OF le]) simp
    then have "(2 :: rat) ^ 52 \<le> pow2 (rat_log2 ?x)" using le by (simp add: pow2_def)
    with \<open>pow2 (rat_log2 ?x) < 2 ^ 52\<close> show False by linarith
  qed
  then have e: "ulp_exp ?x \<le> - 1" by (simp add: ulp_exp_def)
  then have "?x = of_int (n * 2 ^ nat (- ulp_exp ?x - 1)) * pow2 (ulp_exp ?x)"
  proof -
    have "nat (- ulp_exp ?x) = Suc (nat (- ulp_exp ?x - 1))" using e by simp
    then have "(2::rat) ^ nat (- ulp_exp ?x) = 2 * 2 ^ nat (- ulp_exp ?x - 1)"
      by (simp only: power_Suc)
    with e show ?thesis by (simp add: pow2_def)
  qed
  then show ?thesis by (rule round_pos_exact)
qed

lemma float_of_exact_pos:
  assumes "0 < x" "x \<le> of_int n" "n \<le> 2 ^ 53"
  shows "float_of_exact x = Fin (round_pos x)"
proof -
  have "\<not> float_limit \<le> round_pos x"
    using round_pos_le_int [OF assms] float_limit_gt [OF assms(3)] by linarith
  moreover have "\<not> round_pos x \<le> - float_limit"
    using round_pos_nonneg [OF assms(1)] float_limit_gt [of 0] by (simp add: float_limit_def)
  ultimately show ?thesis
    using assms(1) by (auto simp: float_of_exact_def round_rat_def Let_def)
qed

text \<open>A quotient of positive values that stays in the exact range of ints.\<close>

lemma float_div_small:
  assumes "0 < a" "0 < b" "a \<le> of_int n * b" "n \<le> 2 ^ 53"
  shows "float_div (Fin a) (Fin b) = Inr (Fin (round_pos (a / b)))"
    and "round_pos (a / b) \<le> of_int n"
proof -
  have q: "0 < a / b" "a / b \<le> of_int n" using assms by (simp_all add: pos_divide_le_eq)
  show "round_pos (a / b) \<le> of_int n" using q assms(4) by (rule round_pos_le_int)
  show "float_div (Fin a) (Fin b) = Inr (Fin (round_pos (a / b)))"
    using assms(1,2) float_of_exact_pos [OF q assms(4)] by (simp add: float_div_def Let_def)
qed

lemma int_truediv_pos:
  assumes "0 < a" "0 < b" "int_truediv a b = Inr r"
  shows "\<exists>x. r = Fin x \<and> 0 \<le> x"
proof -
  have "0 \<le> round_rat (of_int a / of_int b)"
    using assms(1,2) by (simp add: round_rat_def round_pos_nonneg)
  with assms show ?thesis by (auto simp: int_truediv_def Let_def split: if_splits)
qed

lemma trunc_rat_nonneg: "0 \<le> x \<Longrightarrow> trunc_rat x = \<lfloor>x\<rfloor>"
  by (simp add: trunc_rat_def)

lemma trunc_rat_int [simp]: "trunc_rat (of_int n) = n"
  by (simp add: trunc_rat_def)

end
