(* ===== verification/Py_Value.thy ===== *)
theory Py_Value
  imports Py_Float "HOL-Library.AList" "HOL-Library.Char_ord" "HOL-Library.List_Lexorder"
begin

text \<open>
  Python's dynamically typed values, as far as JSON documents and the package's own dicts
  hold them: \<open>None\<close>, booleans, ints, floats, strings, lists and string-keyed dicts
  (association lists in insertion order).  Strings hold the code points U+0000 to U+00FF.
  Access operations raise what Python raises on a missing key or a value of another type.
\<close>

datatype pyval =
    PNone
  | PBool bool
  | PInt int
  | PFloat pyfloat
  | PStr string
  | PList "pyval list"
  | PDict "(string \<times> pyval) list"

type_synonym pydict = "(string \<times> pyval) list"

section \<open>Decimal text of integers\<close>

definition digit_char :: "nat \<Rightarrow> char" where
  "digit_char d = char_of (48 + d)"

definition digit_val :: "char \<Rightarrow> nat" where
  "digit_val c = of_char c - 48"

definition is_digit :: "char \<Rightarrow> bool" where
  "is_digit c = (48 \<le> (of_char c :: nat) \<and> (of_char c :: nat) \<le> 57)"

fun show_nat :: "nat \<Rightarrow> string" where
  "show_nat n =
     (if n < 10 then [digit_char n] else show_nat (n div 10) @ [digit_char (n mod 10)])"

declare show_nat.simps [simp del]

text \<open>\<open>str(n)\<close> for an int.\<close>

definition show_int :: "int \<Rightarrow> string" where
  "show_int n = (if n < 0 then CHR ''-'' # show_nat (nat (- n)) else show_nat (nat n))"

definition parse_nat :: "string \<Rightarrow> nat" where
  "parse_nat cs = foldl (\<lambda>a c. 10 * a + digit_val c) 0 cs"

lemma digit_char_digit [simp]: "d < 10 \<Longrightarrow> is_digit (digit_char d)"
  by (simp add: is_digit_def digit_char_def)

lemma digit_val_char [simp]: "d < 10 \<Longrightarrow> digit_val (digit_char d) = d"
  by (simp add: digit_val_def digit_char_def)

lemma show_nat_digits: "list_all is_digit (show_nat n)"
proof (induction n rule: show_nat.induct)
  case (1 n)
  then show ?case by (cases "n < 10") (simp_all add: show_nat.simps [of n])
qed

lemma show_nat_nonempty [simp]: "show_nat n \<noteq> []"
  by (simp add: show_nat.simps [of n])

lemma parse_show_nat [simp]: "parse_nat (show_nat n) = n"
proof (induction n rule: show_nat.induct)
  case (1 n)
  then show ?case
    by (cases "n < 10") (simp_all add: show_nat.simps [of n] parse_nat_def)
qed

lemma show_nat_inject [simp]: "show_nat m = show_nat n \<longleftrightarrow> m = n"
  by (metis parse_show_nat)

lemma show_nat_not_minus: "show_nat n \<noteq> CHR ''-'' # cs"
proof
  assume "show_nat n = CHR ''-'' # cs"
  with show_nat_digits [of n] have "is_digit CHR ''-''" by simp
  then show False by (simp add: is_digit_def)
qed

lemma show_int_inject [simp]: "show_int m = show_int n \<longleftrightarrow> m = n"
  by (auto simp: show_int_def show_nat_not_minus show_nat_not_minus [symmetric])

lemma show_nat_length: "n < 10 ^ k \<Longrightarrow> 0 < k \<Longrightarrow> length (show_nat n) \<le> k"
proof (induction k arbitrary: n)
  case (Suc k)
  show ?case
  proof (cases "n < 10")
    case False
    then have "0 < k" using Suc.prems by (cases k) auto
    moreover have "n div 10 < 10 ^ k" using Suc.prems(1) by (simp add: less_mult_imp_div_less mult.commute)
    ultimately show ?thesis using Suc.IH [of "n div 10"] False by (simp add: show_nat.simps [of n])
  qed (simp add: show_nat.simps [of n])
qed simp

section \<open>Whitespace and \<open>int(s)\<close>\<close>

text \<open>\<open>str.isspace\<close> on code points below 256 (also the class \<open>\s\<close> of \<open>re\<close>).\<close>

definition is_space :: "char \<Rightarrow> bool" where
  "is_space c = (let n = (of_char c :: nat) in
     n \<in> {9, 10, 11, 12, 13, 28, 29, 30, 31, 32, 133, 160})"

definition py_strip :: "string \<Rightarrow> string" where
  "py_strip s = rev (dropWhile is_space (rev (dropWhile is_space s)))"

text \<open>
  The digits of an int literal: single underscores may stand between digits.
\<close>

fun int_digits :: "string \<Rightarrow> string option" where
  "int_digits [] = None"
| "int_digits [c] = (if is_digit c then Some [c] else None)"
| "int_digits (c # d # cs) =
     (if \<not> is_digit c then None
      else if d = CHR ''_'' then map_option (Cons c) (int_digits cs)
      else map_option (Cons c) (int_digits (d # cs)))"

text \<open>\<open>int(s)\<close> in base 10; text of more than 4300 digits is refused.\<close>

definition int_of_str :: "string \<Rightarrow> int res" where
  "int_of_str s =
     (let t = py_strip s;
          neg = (t \<noteq> [] \<and> hd t = CHR ''-'');
          u = (if t \<noteq> [] \<and> hd t \<in> {CHR ''-'', CHR ''+''} then tl t else t)
      in case int_digits u of
           None \<Rightarrow> Inl ValueError
         | Some ds \<Rightarrow>
             if 4300 < length ds then Inl ValueError
             else Inr (if neg then - int (parse_nat ds) else int (parse_nat ds)))"

text \<open>\<open>int(x)\<close> for any value.\<close>

definition py_int :: "pyval \<Rightarrow> int res" where
  "py_int v =
     (case v of
        PBool b \<Rightarrow> Inr (if b then 1 else 0)
      | PInt n \<Rightarrow> Inr n
      | PFloat f \<Rightarrow> int_of_float f
      | PStr s \<Rightarrow> int_of_str s
      | _ \<Rightarrow> Inl TypeError)"

section \<open>Equality, truth and dynamic types\<close>

text \<open>The number a value stands for in comparisons; booleans are ints.\<close>

definition num_eq :: "pyval \<Rightarrow> pyval \<Rightarrow> bool option" where
  "num_eq v w =
     (let cv = (\<lambda>x. case x of PBool b \<Rightarrow> PInt (if b then 1 else 0) | y \<Rightarrow> y) in
      case (cv v, cv w) of
        (PInt a, PInt b) \<Rightarrow> Some (a = b)
      | (PInt a, PFloat f) \<Rightarrow> Some (int_float_eq a f)
      | (PFloat f, PInt a) \<Rightarrow> Some (int_float_eq a f)
      | (PFloat f, PFloat g) \<Rightarrow> Some (float_eq f g)
      | _ \<Rightarrow> None)"

lemma size_zip_fst [termination_simp]:
  "(a, b) \<in> set (zip xs ys) \<Longrightarrow> size a < Suc (size_list size xs)"
  by (meson less_Suc_eq_le order_refl set_zip_leftD size_list_estimation')

text \<open>
  \<open>v == w\<close>.  Lists compare element by element and dicts key by key, whatever the
  insertion order.
\<close>

fun py_eq :: "pyval \<Rightarrow> pyval \<Rightarrow> bool" where
  "py_eq PNone w = (w = PNone)"
| "py_eq (PStr s) w = (w = PStr s)"
| "py_eq (PList xs) w =
     (case w of
        PList ys \<Rightarrow> length xs = length ys \<and> list_all (\<lambda>(x, y). py_eq x y) (zip xs ys)
      | _ \<Rightarrow> False)"
| "py_eq (PDict kvs) w =
     (case w of
        PDict kws \<Rightarrow> length kvs = length kws \<and>
          list_all (\<lambda>(k, v). case map_of kws k of None \<Rightarrow> False | Some u \<Rightarrow> py_eq v u) kvs
      | _ \<Rightarrow> False)"
| "py_eq (PBool b) w = (case num_eq (PBool b) w of Some r \<Rightarrow> r | None \<Rightarrow> False)"
| "py_eq (PInt n) w = (case num_eq (PInt n) w of Some r \<Rightarrow> r | None \<Rightarrow> False)"
| "py_eq (PFloat f) w = (case num_eq (PFloat f) w of Some r \<Rightarrow> r | None \<Rightarrow> False)"

definition py_true :: "pyval \<Rightarrow> bool" where
  "py_true v =
     (case v of
        PNone \<Rightarrow> False
      | PBool b \<Rightarrow> b
      | PInt n \<Rightarrow> n \<noteq> 0
      | PFloat f \<Rightarrow> \<not> float_is_zero f
      | PStr s \<Rightarrow> s \<noteq> []
      | PList xs \<Rightarrow> xs \<noteq> []
      | PDict kvs \<Rightarrow> kvs \<noteq> [])"

definition is_str :: "pyval \<Rightarrow> bool" where
  "is_str v = (case v of PStr _ \<Rightarrow> True | _ \<Rightarrow> False)"

definition is_dict :: "pyval \<Rightarrow> bool" where
  "is_dict v = (case v of PDict _ \<Rightarrow> True | _ \<Rightarrow> False)"

definition is_list :: "pyval \<Rightarrow> bool" where
  "is_list v = (case v of PList _ \<Rightarrow> True | _ \<Rightarrow> False)"

definition is_bool :: "pyval \<Rightarrow> bool" where
  "is_bool v = (case v of PBool _ \<Rightarrow> True | _ \<Rightarrow> False)"

text \<open>\<open>type(v) is int\<close>, which excludes booleans, and \<open>isinstance(v, int)\<close>, which does not.\<close>

definition is_int :: "pyval \<Rightarrow> bool" where
  "is_int v = (case v of PInt _ \<Rightarrow> True | _ \<Rightarrow> False)"

definition isinstance_int :: "pyval \<Rightarrow> bool" where
  "isinstance_int v = (is_int v \<or> is_bool v)"

section \<open>Access to dicts\<close>

text \<open>\<open>v[k]\<close> for a string key \<open>k\<close>.\<close>

definition getitem :: "pyval \<Rightarrow> string \<Rightarrow> pyval res" where
  "getitem v k =
     (case v of
        PDict kvs \<Rightarrow> (case map_of kvs k of None \<Rightarrow> Inl KeyError | Some w \<Rightarrow> Inr w)
      | _ \<Rightarrow> Inl TypeError)"

text \<open>\<open>v.get(k, d)\<close>.\<close>

definition get_default :: "pyval \<Rightarrow> string \<Rightarrow> pyval \<Rightarrow> pyval res" where
  "get_default v k d =
     (case v of
        PDict kvs \<Rightarrow> Inr (case map_of kvs k of None \<Rightarrow> d | Some w \<Rightarrow> w)
      | _ \<Rightarrow> Inl AttributeError)"

text \<open>\<open>k in v\<close> for a string \<open>k\<close> and a value known to be a dict.\<close>

definition has_key :: "pyval \<Rightarrow> string \<Rightarrow> bool" where
  "has_key v k = (case v of PDict kvs \<Rightarrow> map_of kvs k \<noteq> None | _ \<Rightarrow> False)"

text \<open>\<open>v[k] = w\<close>: an existing key keeps its place, a new one goes to the end.\<close>

definition setitem :: "pyval \<Rightarrow> string \<Rightarrow> pyval \<Rightarrow> pyval res" where
  "setitem v k w =
     (case v of PDict kvs \<Rightarrow> Inr (PDict (AList.update k w kvs)) | _ \<Rightarrow> Inl TypeError)"

text \<open>\<open>v + 1\<close>.\<close>

definition py_succ :: "pyval \<Rightarrow> pyval res" where
  "py_succ v =
     (case v of
        PInt n \<Rightarrow> Inr (PInt (n + 1))
      | PBool b \<Rightarrow> Inr (PInt (if b then 2 else 1))
      | PFloat f \<Rightarrow> Inr (PFloat (float_add f (Fin 1)))
      | _ \<Rightarrow> Inl TypeError)"

text \<open>\<open>v + s\<close> and the other uses of a value where a string is required.\<close>

definition as_str :: "pyval \<Rightarrow> string res" where
  "as_str v = (case v of PStr s \<Rightarrow> Inr s | _ \<Rightarrow> Inl TypeError)"

section \<open>Facts about the accesses\<close>

lemma getitem_empty [simp]: "getitem (PDict []) k = Inl KeyError"
  by (simp add: getitem_def)

lemma get_default_iff:
  "get_default v k d = Inr w \<longleftrightarrow>
   is_dict v \<and> (getitem v k = Inr w \<or> (\<not> has_key v k \<and> w = d))"
  by (cases v) (auto simp: get_default_def getitem_def is_dict_def has_key_def split: option.splits)

lemma has_key_iff: "has_key v k \<longleftrightarrow> (\<exists>w. getitem v k = Inr w)"
  by (cases v) (auto simp: getitem_def has_key_def split: option.splits)

lemma getitem_is_dict: "getitem v k = Inr w \<Longrightarrow> is_dict v"
  by (cases v) (simp_all add: getitem_def is_dict_def)

text \<open>Evaluation of the accesses once the items of a dict are known.\<close>

lemma get_default_getitem: "getitem v k = Inr w \<Longrightarrow> get_default v k d = Inr w"
  by (simp add: get_default_iff getitem_is_dict)

lemma has_key_getitem: "getitem v k = Inr w \<Longrightarrow> has_key v k"
  by (auto simp: has_key_iff)

lemmas known_items = get_default_getitem has_key_getitem getitem_is_dict

lemma getitem_setitem:
  "setitem v k w = Inr v' \<Longrightarrow> getitem v' j = (if j = k then Inr w else getitem v j)"
  by (cases v) (auto simp: setitem_def getitem_def update_conv')

lemma setitem_is_dict: "setitem v k w = Inr v' \<Longrightarrow> is_dict v'"
  by (cases v) (auto simp: setitem_def is_dict_def)

lemma setitem_dict: "is_dict v \<Longrightarrow> \<exists>v'. setitem v k w = Inr v'"
  by (cases v) (auto simp: setitem_def is_dict_def)

lemma update_new: "k \<notin> fst ` set kvs \<Longrightarrow> AList.update k v kvs = kvs @ [(k, v)]"
  by (induction kvs) auto

end
