(* ===== verification/Py_Text.thy ===== *)
theory Py_Text
  imports Py_Value
begin

text \<open>
  Text the program hashes, signs and stores: UTF-8, hexadecimal, \<open>repr\<close> of floats, bytes
  and strings, \<open>str\<close> of any value, and \<open>json.dumps\<close>.  Bytes are strings over the 256
  characters.
\<close>

type_synonym bytes = string

abbreviation code :: "char \<Rightarrow> nat" where
  "code c \<equiv> of_char c"

section \<open>Encodings\<close>

text \<open>\<open>s.encode("utf-8")\<close> for code points below 256.\<close>

definition utf8_char :: "char \<Rightarrow> bytes" where
  "utf8_char c =
     (if code c < 128 then [c]
      else [char_of (192 + code c div 64), char_of (128 + code c mod 64)])"

definition utf8_encode :: "string \<Rightarrow> bytes" where
  "utf8_encode s = concat (map utf8_char s)"

definition hex_digit :: "nat \<Rightarrow> char" where
  "hex_digit n = (if n < 10 then char_of (48 + n) else char_of (87 + n))"

definition hex_byte :: "char \<Rightarrow> string" where
  "hex_byte c = [hex_digit (code c div 16), hex_digit (code c mod 16)]"

text \<open>\<open>b.hex()\<close>.\<close>

definition bytes_hex :: "bytes \<Rightarrow> string" where
  "bytes_hex b = concat (map hex_byte b)"

definition hex_val :: "char \<Rightarrow> nat option" where
  "hex_val c =
     (if 48 \<le> code c \<and> code c \<le> 57 then Some (code c - 48)
      else if 97 \<le> code c \<and> code c \<le> 102 then Some (code c - 87)
      else if 65 \<le> code c \<and> code c \<le> 70 then Some (code c - 55)
      else None)"

text \<open>\<open>bytes.fromhex(s)\<close>: ASCII whitespace may stand between bytes.\<close>

definition ascii_space :: "char \<Rightarrow> bool" where
  "ascii_space c = (code c \<in> {9, 10, 11, 12, 13, 32})"

fun fromhex :: "string \<Rightarrow> bytes res" where
  "fromhex [] = Inr []"
| "fromhex (c # cs) =
     (if ascii_space c then fromhex cs
      else case cs of
        [] \<Rightarrow> Inl ValueError
      | d # ds \<Rightarrow>
          (case (hex_val c, hex_val d) of
             (Some a, Some b) \<Rightarrow> bindE (fromhex ds) (\<lambda>r. Inr (char_of (16 * a + b) # r))
           | _ \<Rightarrow> Inl ValueError))"

section \<open>\<open>repr\<close> of floats\<close>

text \<open>
  CPython prints the shortest decimal that rounds to the float, the nearest one if there
  are several; 17 digits always suffice.  \<open>dec_exp x\<close> is the largest \<open>e\<close> with
  \<open>10 ^ e \<le> x\<close>.
\<close>

fun nat_log10 :: "nat \<Rightarrow> nat" where
  "nat_log10 n = (if n < 10 then 0 else Suc (nat_log10 (n div 10)))"

declare nat_log10.simps [simp del]

definition dec_exp :: "rat \<Rightarrow> int" where
  "dec_exp x =
     (if 1 \<le> x then int (nat_log10 (nat \<lfloor>x\<rfloor>))
      else - int (Suc (nat_log10 (nat (\<lceil>1 / x\<rceil> - 1)))))"

definition pow10 :: "int \<Rightarrow> rat" where
  "pow10 e = (if 0 \<le> e then 10 ^ nat e else 1 / 10 ^ nat (- e))"

text \<open>The candidates of \<open>n\<close> digits, nearest first.\<close>

definition digit_candidates :: "rat \<Rightarrow> int list" where
  "digit_candidates y =
     (let d = round_half_even y; q = \<lfloor>y\<rfloor> in [d, if d = q then q + 1 else q])"

fun shortest_digits :: "rat \<Rightarrow> nat \<Rightarrow> nat \<Rightarrow> (int \<times> int) option" where
  "shortest_digits x n 0 = None"
| "shortest_digits x n (Suc k) =
     (let s = int n - 1 - dec_exp x in
      case filter (\<lambda>d. 0 < d \<and> round_pos (of_int d / pow10 s) = x)
             (digit_candidates (x * pow10 s)) of
        d # _ \<Rightarrow> Some (d, s)
      | [] \<Rightarrow> shortest_digits x (Suc n) k)"

definition strip_zeros :: "string \<Rightarrow> string" where
  "strip_zeros s = rev (dropWhile (\<lambda>c. c = CHR ''0'') (rev s))"

definition float_layout :: "string \<Rightarrow> int \<Rightarrow> string" where
  "float_layout ds p =
     (if p \<le> - 4 \<or> 16 < p then
        (let e = p - 1 in
         take 1 ds @ (if length ds = 1 then [] else CHR ''.'' # drop 1 ds)
         @ ''e'' @ (if e < 0 then ''-'' else ''+'')
         @ (if \<bar>e\<bar> < 10 then ''0'' else []) @ show_int \<bar>e\<bar>)
      else if p \<le> 0 then ''0.'' @ replicate (nat (- p)) CHR ''0'' @ ds
      else if int (length ds) \<le> p then
        ds @ replicate (nat p - length ds) CHR ''0'' @ ''.0''
      else take (nat p) ds @ CHR ''.'' # drop (nat p) ds)"

definition pos_float_repr :: "rat \<Rightarrow> string" where
  "pos_float_repr x =
     (case shortest_digits x 1 17 of
        None \<Rightarrow> []
      | Some (d, s) \<Rightarrow>
          float_layout (strip_zeros (show_int d)) (int (length (show_int d)) - s))"

fun float_repr :: "pyfloat \<Rightarrow> string" where
  "float_repr (Fin x) =
     (if x = 0 then ''0.0''
      else if 0 < x then pos_float_repr x
      else CHR ''-'' # pos_float_repr (- x))"
| "float_repr NegZero = ''-0.0''"
| "float_repr PosInf = ''inf''"
| "float_repr NegInf = ''-inf''"
| "float_repr NaN = ''nan''"

section \<open>\<open>repr\<close> of bytes and strings, \<open>str\<close> of any value\<close>

definition repr_quote :: "string \<Rightarrow> char" where
  "repr_quote s =
     (if CHR 0x27 \<in> set s \<and> CHR ''\"'' \<notin> set s then CHR ''\"'' else CHR 0x27)"

definition backslash :: char where
  "backslash = CHR 0x5C"

definition repr_escape :: "(char \<Rightarrow> bool) \<Rightarrow> char \<Rightarrow> char \<Rightarrow> string" where
  "repr_escape printable q c =
     (if c = q \<or> c = backslash then [backslash, c]
      else if code c = 9 then [backslash, CHR ''t'']
      else if code c = 10 then [backslash, CHR ''n'']
      else if code c = 13 then [backslash, CHR ''r'']
      else if printable c then [c]
      else [backslash, CHR ''x''] @ hex_byte c)"

definition ascii_printable :: "char \<Rightarrow> bool" where
  "ascii_printable c = (32 \<le> code c \<and> code c < 127)"

definition latin1_printable :: "char \<Rightarrow> bool" where
  "latin1_printable c = (ascii_printable c \<or> (160 < code c \<and> code c \<noteq> 173))"

text \<open>\<open>str(b)\<close> of a bytes object: the text \<open>b'...'\<close>.\<close>

definition bytes_repr :: "bytes \<Rightarrow> string" where
  "bytes_repr b =
     (let q = repr_quote b in
      ''b'' @ [q] @ concat (map (repr_escape ascii_printable q) b) @ [q])"

definition str_repr :: "string \<Rightarrow> string" where
  "str_repr s =
     (let q = repr_quote s in
      [q] @ concat (map (repr_escape latin1_printable q) s) @ [q])"

fun join :: "string \<Rightarrow> string list \<Rightarrow> string" where
  "join sep [] = []"
| "join sep [x] = x"
| "join sep (x # xs) = x @ sep @ join sep xs"

fun py_repr :: "pyval \<Rightarrow> string" where
  "py_repr PNone = ''None''"
| "py_repr (PBool b) = (if b then ''True'' else ''False'')"
| "py_repr (PInt n) = show_int n"
| "py_repr (PFloat f) = float_repr f"
| "py_repr (PStr s) = str_repr s"
| "py_repr (PList xs) = ''['' @ join '', '' (map py_repr xs) @ '']''"
| "py_repr (PDict kvs) =
     ''{'' @ join '', '' (map (\<lambda>(k, v). str_repr k @ '': '' @ py_repr v) kvs) @ ''}''"

definition py_str :: "pyval \<Rightarrow> string" where
  "py_str v = (case v of PStr s \<Rightarrow> s | _ \<Rightarrow> py_repr v)"

section \<open>\<open>json.dumps\<close>\<close>

text \<open>\<open>ascii\<close> is the flag \<open>ensure_ascii\<close>.\<close>

definition json_escape :: "bool \<Rightarrow> char \<Rightarrow> string" where
  "json_escape ascii c =
     (if c = CHR ''\"'' \<or> c = backslash then [backslash, c]
      else if code c = 10 then [backslash, CHR ''n'']
      else if code c = 13 then [backslash, CHR ''r'']
      else if code c = 9 then [backslash, CHR ''t'']
      else if code c = 12 then [backslash, CHR ''f'']
      else if code c = 8 then [backslash, CHR ''b'']
      else if code c < 32 \<or> (ascii \<and> 127 \<le> code c)
           then [backslash] @ ''u00'' @ hex_byte c
      else [c])"

definition json_string :: "bool \<Rightarrow> string \<Rightarrow> string" where
  "json_string ascii s = ''\"'' @ concat (map (json_escape ascii) s) @ ''\"''"

definition json_float :: "pyfloat \<Rightarrow> string" where
  "json_float f =
     (case f of
        NaN \<Rightarrow> ''NaN''
      | PosInf \<Rightarrow> ''Infinity''
      | NegInf \<Rightarrow> ''-Infinity''
      | _ \<Rightarrow> float_repr f)"

fun json_encode :: "bool \<Rightarrow> pyval \<Rightarrow> string" where
  "json_encode ascii PNone = ''null''"
| "json_encode ascii (PBool b) = (if b then ''true'' else ''false'')"
| "json_encode ascii (PInt n) = show_int n"
| "json_encode ascii (PFloat f) = json_float f"
| "json_encode ascii (PStr s) = json_string ascii s"
| "json_encode ascii (PList xs) = ''['' @ join '', '' (map (json_encode ascii) xs) @ '']''"
| "json_encode ascii (PDict kvs) =
     ''{'' @ join '', '' (map (\<lambda>(k, v). json_string ascii k @ '': '' @ json_encode ascii v) kvs)
     @ ''}''"

text \<open>The effect of \<open>sort_keys=True\<close>: every dict, at any depth, in key order.\<close>

fun sort_keys :: "pyval \<Rightarrow> pyval" where
  "sort_keys (PList xs) = PList (map sort_keys xs)"
| "sort_keys (PDict kvs) = PDict (sort_key fst (map (\<lambda>(k, v). (k, sort_keys v)) kvs))"
| "sort_keys v = v"

text \<open>\<open>json.dumps(v, sort_keys=True)\<close>.\<close>

definition json_dumps_sorted :: "pyval \<Rightarrow> string" where
  "json_dumps_sorted v = json_encode True (sort_keys v)"

text \<open>\<open>json.dumps(v)\<close>.\<close>

definition json_dumps :: "pyval \<Rightarrow> string" where
  "json_dumps v = json_encode True v"

section \<open>Case\<close>

text \<open>
  \<open>str.lower\<close> and \<open>str.upper\<close> on code points below 256.  The two letters whose upper case
  is not of this form never occur in the texts compared here.
\<close>

definition py_lower :: "string \<Rightarrow> string" where
  "py_lower = map (\<lambda>c. if (65 \<le> code c \<and> code c \<le> 90) \<or> (192 \<le> code c \<and> code c \<le> 222 \<and> code c \<noteq> 215)
     then char_of (code c + 32) else c)"

definition py_upper :: "string \<Rightarrow> string" where
  "py_upper = map (\<lambda>c. if (97 \<le> code c \<and> code c \<le> 122) \<or> (224 \<le> code c \<and> code c \<le> 254 \<and> code c \<noteq> 247)
     then char_of (code c - 32) else c)"

section \<open>Unique decoding\<close>

lemma less_16_cases:
  assumes "n < (16::nat)"
  shows "n \<in> {0, 1, 2, 3, 4, 5, 6, 7, 8, 9, 10, 11, 12, 13, 14, 15}"
  using assms by simp arith

lemma hex_val_digit: "n < 16 \<Longrightarrow> hex_val (hex_digit n) = Some n"
  by (drule less_16_cases) (auto simp: hex_digit_def hex_val_def)

lemma hex_digit_not_space: "n < 16 \<Longrightarrow> \<not> ascii_space (hex_digit n)"
  by (drule less_16_cases) (auto simp: hex_digit_def ascii_space_def)

lemma code_div16 [simp]: "code c div 16 < 16"
  by (simp add: less_mult_imp_div_less)

lemma char_of_hex [simp]: "char_of (16 * (code c div 16) + code c mod 16) = c"
  by (simp only: mult_div_mod_eq char_of_char)
lemma fromhex_hex [simp]: "fromhex (bytes_hex b) = Inr b"
  by (induction b)
    (simp_all add: bytes_hex_def hex_byte_def hex_val_digit hex_digit_not_space)

lemma bytes_hex_length: "length (bytes_hex b) = 2 * length b"
  by (induction b) (simp_all add: bytes_hex_def hex_byte_def)

lemma bytes_hex_inject: "bytes_hex a = bytes_hex b \<longleftrightarrow> a = b"
  by (metis fromhex_hex sum.inject(2))

lemma hex_byte_inject: "hex_byte c = hex_byte d \<longleftrightarrow> c = d"
  using bytes_hex_inject [of "[c]" "[d]"] by (simp add: bytes_hex_def)

lemma hex_byte_append_inject:
  "hex_byte c @ u = hex_byte d @ v \<longleftrightarrow> c = d \<and> u = v"
proof -
  have "length (hex_byte c) = length (hex_byte d)" by (simp add: hex_byte_def)
  then show ?thesis by (auto simp: hex_byte_inject)
qed

text \<open>
  The escapes of \<open>repr\<close> form a code: a text that starts with the escape of one character
  determines that character and the rest.
\<close>

definition quote_char :: "char \<Rightarrow> bool" where
  "quote_char q = (q \<in> {CHR 0x27, CHR ''\"''})"


text \<open>The character an escaped text starts with, and the rest of the text.\<close>

definition unescape :: "string \<Rightarrow> char \<times> string" where
  "unescape s =
     (if hd s \<noteq> backslash then (hd s, tl s)
      else let y = hd (tl s); r = tl (tl s) in
        if y = CHR ''t'' then (char_of (9::nat), r)
        else if y = CHR ''n'' then (char_of (10::nat), r)
        else if y = CHR ''r'' then (char_of (13::nat), r)
        else if y = CHR ''x''
             then (char_of (16 * the (hex_val (hd r)) + the (hex_val (hd (tl r)))), tl (tl r))
        else (y, r))"

lemma char_of_code: "code c = n \<Longrightarrow> char_of n = c"
  by (metis char_of_char)

lemma unescape_repr:
  assumes "quote_char q"
  shows "unescape (repr_escape P q c @ u) = (c, u)"
proof -
  have q: "q \<noteq> CHR ''t''" "q \<noteq> CHR ''n''" "q \<noteq> CHR ''r''" "q \<noteq> CHR ''x''"
    using assms by (auto simp: quote_char_def)
  consider "c = q \<or> c = backslash" | "c \<noteq> q" "c \<noteq> backslash" by blast
  then show ?thesis
  proof cases
    case 1
    then show ?thesis using q by (auto simp: repr_escape_def unescape_def backslash_def)
  next
    case 2
    then show ?thesis
      by (simp add: repr_escape_def unescape_def char_of_code hex_byte_def hex_val_digit)
  qed
qed

lemma repr_escapes_inject:
  assumes q: "quote_char q"
    and eq: "concat (map (repr_escape P q) s) = concat (map (repr_escape P q) t)"
  shows "s = t"
  using eq
proof (induction s arbitrary: t)
  case Nil
  then show ?case by (cases t) (simp_all add: repr_escape_def split: if_splits)
next
  case (Cons c s)
  then obtain d t' where t: "t = d # t'"
    by (cases t) (simp_all add: repr_escape_def split: if_splits)
  let ?E = "\<lambda>s. concat (map (repr_escape P q) s)"
  have "(c, ?E s) = unescape (?E (c # s))" by (simp add: unescape_repr [OF q])
  also have "\<dots> = unescape (?E t)" by (simp only: Cons.prems)
  also have "\<dots> = (d, ?E t')" by (simp add: t unescape_repr [OF q])
  finally show ?case using Cons.IH t by simp
qed

lemma repr_quote_char: "quote_char (repr_quote s)"
  by (simp add: quote_char_def repr_quote_def)

lemma bytes_repr_inject: "bytes_repr a = bytes_repr b \<longleftrightarrow> a = b"
proof
  assume eq: "bytes_repr a = bytes_repr b"
  then have q: "repr_quote a = repr_quote b" by (simp add: bytes_repr_def Let_def)
  with eq have "concat (map (repr_escape ascii_printable (repr_quote a)) a)
      = concat (map (repr_escape ascii_printable (repr_quote a)) b)"
    by (simp add: bytes_repr_def Let_def)
  then show "a = b" by (rule repr_escapes_inject [OF repr_quote_char])
qed simp

text \<open>UTF-8 is a code too.\<close>

lemma utf8_char_inject: "utf8_char c @ u = utf8_char d @ v \<Longrightarrow> c = d \<and> u = v"
proof -
  assume eq: "utf8_char c @ u = utf8_char d @ v"
  have bc: "code c < 256" "code d < 256" by simp_all
  show "c = d \<and> u = v"
  proof (cases "code c < 128"; cases "code d < 128")
    assume a: "\<not> code c < 128" "\<not> code d < 128"
    with eq have m: "(192 + code c div 64) mod 256 = (192 + code d div 64) mod 256"
      "(128 + code c mod 64) mod 256 = (128 + code d mod 64) mod 256" "u = v"
      by (simp_all add: utf8_char_def)
    have "code c div 64 < 4" "code d div 64 < 4" using bc by (simp_all add: less_mult_imp_div_less)
    with m have "code c div 64 = code d div 64" by simp
    moreover have "code c mod 64 < 64" "code d mod 64 < 64" by simp_all
    with m have "code c mod 64 = code d mod 64" by simp
    ultimately have "code c = code d" by (metis mult_div_mod_eq)
    with m show ?thesis by simp
  next
    assume a: "code c < 128" "\<not> code d < 128"
    have "code d div 64 < 4" using bc by (simp_all add: less_mult_imp_div_less)
    with eq a show ?thesis by (auto simp: utf8_char_def)
  next
    assume a: "\<not> code c < 128" "code d < 128"
    have "code c div 64 < 4" using bc by (simp_all add: less_mult_imp_div_less)
    with eq a show ?thesis by (auto simp: utf8_char_def)
  qed (use eq in \<open>simp_all add: utf8_char_def\<close>)
qed

lemma utf8_encode_inject: "utf8_encode s = utf8_encode t \<longleftrightarrow> s = t"
proof
  show "utf8_encode s = utf8_encode t \<Longrightarrow> s = t"
  proof (induction s arbitrary: t)
    case Nil
    then show ?case by (cases t) (auto simp: utf8_encode_def utf8_char_def split: if_splits)
  next
    case (Cons c s)
    from Cons.prems obtain d t' where t: "t = d # t'"
      by (cases t) (auto simp: utf8_encode_def utf8_char_def split: if_splits)
    with Cons.prems have "utf8_char c @ utf8_encode s = utf8_char d @ utf8_encode t'"
      by (simp add: utf8_encode_def)
    with Cons.IH t show ?case by (blast dest: utf8_char_inject)
  qed
qed simp
end
