(* ===== verification/Sha256.thy ===== *)
theory Sha256
  imports Py_Text "HOL-Library.Word" "HOL-Library.Code_Target_Numeral"
begin

text \<open>
  SHA-256 (FIPS 180-4), the function behind \<open>hashlib.sha256\<close>.  The algorithm is written
  once over a record of word operations.  \<open>word_ops\<close> gives the standard's definition on
  \<open>32 word\<close>; \<open>bit_ops\<close> gives the same operations on lists of 32 booleans, which the
  kernel evaluates quickly.  The locale \<open>sha_hom\<close> shows that a map commuting with the
  operations commutes with the whole digest, and its interpretation makes the second
  version a code equation of the first.
\<close>

unbundle bit_operations_syntax

type_synonym w32 = "32 word"

section \<open>The algorithm over abstract word operations\<close>

record 'w sha_ops =
  op_add :: "'w \<Rightarrow> 'w \<Rightarrow> 'w"
  op_Sigma0 :: "'w \<Rightarrow> 'w"
  op_Sigma1 :: "'w \<Rightarrow> 'w"
  op_sigma0 :: "'w \<Rightarrow> 'w"
  op_sigma1 :: "'w \<Rightarrow> 'w"
  op_ch :: "'w \<Rightarrow> 'w \<Rightarrow> 'w \<Rightarrow> 'w"
  op_maj :: "'w \<Rightarrow> 'w \<Rightarrow> 'w \<Rightarrow> 'w"
  op_read :: "char \<Rightarrow> char \<Rightarrow> char \<Rightarrow> char \<Rightarrow> 'w"
  op_write :: "'w \<Rightarrow> bytes"

datatype 'w sha_state = Sha_State 'w 'w 'w 'w 'w 'w 'w 'w

text \<open>The message schedule, from a window of the last sixteen words.\<close>

fun sha_schedule :: "'w sha_ops \<Rightarrow> nat \<Rightarrow> 'w list \<Rightarrow> 'w list" where
  "sha_schedule ops 0 win = win"
| "sha_schedule ops (Suc n) win =
     hd win # sha_schedule ops n (tl win @
       [op_add ops (op_add ops (op_sigma1 ops (win ! 14)) (win ! 9))
                   (op_add ops (op_sigma0 ops (win ! 1)) (win ! 0))])"

fun sha_rounds :: "'w sha_ops \<Rightarrow> 'w list \<Rightarrow> 'w list \<Rightarrow> 'w sha_state \<Rightarrow> 'w sha_state" where
  "sha_rounds ops (k # ks) (w # ws) (Sha_State a b c d e f g h) =
     (let t1 = op_add ops h (op_add ops (op_Sigma1 ops e)
                 (op_add ops (op_ch ops e f g) (op_add ops k w)));
          t2 = op_add ops (op_Sigma0 ops a) (op_maj ops a b c)
      in sha_rounds ops ks ws (Sha_State (op_add ops t1 t2) a b c (op_add ops d t1) e f g))"
| "sha_rounds ops _ _ s = s"

fun sha_add_state :: "'w sha_ops \<Rightarrow> 'w sha_state \<Rightarrow> 'w sha_state \<Rightarrow> 'w sha_state" where
  "sha_add_state ops (Sha_State a b c d e f g h) (Sha_State a' b' c' d' e' f' g' h') =
     Sha_State (op_add ops a a') (op_add ops b b') (op_add ops c c') (op_add ops d d')
       (op_add ops e e') (op_add ops f f') (op_add ops g g') (op_add ops h h')"

fun sha_blocks :: "'w sha_ops \<Rightarrow> 'w list \<Rightarrow> 'w list list \<Rightarrow> 'w sha_state \<Rightarrow> 'w sha_state" where
  "sha_blocks ops K [] s = s"
| "sha_blocks ops K (b # bs) s =
     sha_blocks ops K bs (sha_add_state ops s (sha_rounds ops K (sha_schedule ops 48 b) s))"

text \<open>Padding to whole blocks of 64 bytes, read as sixteen big-endian words each.\<close>

fun be_bytes :: "nat \<Rightarrow> nat \<Rightarrow> bytes" where
  "be_bytes 0 v = []"
| "be_bytes (Suc n) v = be_bytes n (v div 256) @ [char_of (v mod 256)]"

definition sha_pad :: "bytes \<Rightarrow> bytes" where
  "sha_pad m =
     m @ [char_of (128::nat)]
     @ replicate ((119 - length m mod 64) mod 64) (char_of (0::nat))
     @ be_bytes 8 (8 * length m)"

fun sha_words :: "'w sha_ops \<Rightarrow> bytes \<Rightarrow> 'w list" where
  "sha_words ops (a # b # c # d # r) = op_read ops a b c d # sha_words ops r"
| "sha_words ops _ = []"

fun chunks16 :: "nat \<Rightarrow> 'a list \<Rightarrow> 'a list list" where
  "chunks16 0 xs = []"
| "chunks16 (Suc n) xs = take 16 xs # chunks16 n (drop 16 xs)"

definition sha_message :: "'w sha_ops \<Rightarrow> bytes \<Rightarrow> 'w list list" where
  "sha_message ops m = (let ws = sha_words ops (sha_pad m) in chunks16 (length ws div 16) ws)"

fun state_bytes :: "'w sha_ops \<Rightarrow> 'w sha_state \<Rightarrow> bytes" where
  "state_bytes ops (Sha_State a b c d e f g h) =
     concat (map (op_write ops) [a, b, c, d, e, f, g, h])"

definition sha_digest :: "'w sha_ops \<Rightarrow> 'w list \<Rightarrow> 'w sha_state \<Rightarrow> bytes \<Rightarrow> bytes" where
  "sha_digest ops K H m = state_bytes ops (sha_blocks ops K (sha_message ops m) H)"

locale sha_hom =
  fixes A :: "'a sha_ops" and B :: "'b sha_ops" and r :: "'a \<Rightarrow> 'b"
  assumes hom_add: "r (op_add A x y) = op_add B (r x) (r y)"
    and hom_Sigma0: "r (op_Sigma0 A x) = op_Sigma0 B (r x)"
    and hom_Sigma1: "r (op_Sigma1 A x) = op_Sigma1 B (r x)"
    and hom_sigma0: "r (op_sigma0 A x) = op_sigma0 B (r x)"
    and hom_sigma1: "r (op_sigma1 A x) = op_sigma1 B (r x)"
    and hom_ch: "r (op_ch A x y z) = op_ch B (r x) (r y) (r z)"
    and hom_maj: "r (op_maj A x y z) = op_maj B (r x) (r y) (r z)"
    and hom_read: "r (op_read A p q u v) = op_read B p q u v"
    and hom_write: "op_write A x = op_write B (r x)"
begin

lemmas homs = hom_add hom_Sigma0 hom_Sigma1 hom_sigma0 hom_sigma1 hom_ch hom_maj

lemma schedule_hom:
  "length win = 16 \<Longrightarrow> map r (sha_schedule A n win) = sha_schedule B n (map r win)"
proof (induction n arbitrary: win)
  case (Suc n)
  from Suc.prems obtain w ws where "win = w # ws" by (cases win) simp_all
  with Suc show ?case by (simp add: homs nth_append)
qed simp

lemma rounds_hom:
  "map_sha_state r (sha_rounds A ks ws s) =
   sha_rounds B (map r ks) (map r ws) (map_sha_state r s)"
proof (induction ks arbitrary: ws s)
  case (Cons k ks)
  then show ?case by (cases ws; cases s) (simp_all add: homs Let_def)
qed simp

lemma add_state_hom:
  "map_sha_state r (sha_add_state A s t) = sha_add_state B (map_sha_state r s) (map_sha_state r t)"
  by (cases s; cases t) (simp add: homs)

lemma blocks_hom:
  "list_all (\<lambda>b. length b = 16) bs \<Longrightarrow>
   map_sha_state r (sha_blocks A K bs s) =
   sha_blocks B (map r K) (map (map r) bs) (map_sha_state r s)"
  by (induction bs arbitrary: s) (simp_all add: add_state_hom rounds_hom schedule_hom)

lemma words_hom_aux: "ops = A \<Longrightarrow> map r (sha_words ops bs) = sha_words B bs"
  by (induction ops bs rule: sha_words.induct) (simp_all add: hom_read)

lemma words_hom: "map r (sha_words A bs) = sha_words B bs"
  by (rule words_hom_aux) (rule refl)

lemma chunks16_map: "map (map r) (chunks16 n xs) = chunks16 n (map r xs)"
  by (induction n arbitrary: xs) (simp_all add: take_map drop_map)

lemma chunks16_length:
  "16 * n \<le> length xs \<Longrightarrow> list_all (\<lambda>b. length b = 16) (chunks16 n xs)"
  by (induction n arbitrary: xs) simp_all

theorem digest_hom: "sha_digest A K H m = sha_digest B (map r K) (map_sha_state r H) m"
proof -
  let ?ws = "sha_words A (sha_pad m)"
  have len: "length (sha_words B (sha_pad m)) = length ?ws"
    by (metis length_map words_hom)
  have "list_all (\<lambda>b. length b = 16) (sha_message A m)"
    unfolding sha_message_def Let_def by (rule chunks16_length) simp
  then have "map_sha_state r (sha_blocks A K (sha_message A m) H)
      = sha_blocks B (map r K) (sha_message B m) (map_sha_state r H)"
    by (simp add: blocks_hom sha_message_def Let_def chunks16_map words_hom len)
  moreover have "state_bytes A s = state_bytes B (map_sha_state r s)" for s
    by (cases s) (simp add: hom_write)
  ultimately show ?thesis by (simp add: sha_digest_def)
qed

end

section \<open>The standard's operations on 32-bit words\<close>

definition rotr32 :: "nat \<Rightarrow> w32 \<Rightarrow> w32" where
  "rotr32 n x = drop_bit n x OR push_bit (32 - n) x"

definition word_ops :: "w32 sha_ops" where
  "word_ops = \<lparr>
     op_add = (+),
     op_Sigma0 = (\<lambda>x. rotr32 2 x XOR rotr32 13 x XOR rotr32 22 x),
     op_Sigma1 = (\<lambda>x. rotr32 6 x XOR rotr32 11 x XOR rotr32 25 x),
     op_sigma0 = (\<lambda>x. rotr32 7 x XOR rotr32 18 x XOR drop_bit 3 x),
     op_sigma1 = (\<lambda>x. rotr32 17 x XOR rotr32 19 x XOR drop_bit 10 x),
     op_ch = (\<lambda>x y z. (x AND y) XOR (NOT x AND z)),
     op_maj = (\<lambda>x y z. (x AND y) XOR (x AND z) XOR (y AND z)),
     op_read = (\<lambda>a b c d. of_nat (code a * 16777216 + code b * 65536 + code c * 256 + code d)),
     op_write = (\<lambda>x. be_bytes 4 (unat x))\<rparr>"

definition sha_K :: "w32 list" where
  "sha_K =
    [1116352408, 1899447441, 3049323471, 3921009573, 961987163, 1508970993, 2453635748, 2870763221,
     3624381080, 310598401, 607225278, 1426881987, 1925078388, 2162078206, 2614888103, 3248222580,
     3835390401, 4022224774, 264347078, 604807628, 770255983, 1249150122, 1555081692, 1996064986,
     2554220882, 2821834349, 2952996808, 3210313671, 3336571891, 3584528711, 113926993, 338241895,
     666307205, 773529912, 1294757372, 1396182291, 1695183700, 1986661051, 2177026350, 2456956037,
     2730485921, 2820302411, 3259730800, 3345764771, 3516065817, 3600352804, 4094571909, 275423344,
     430227734, 506948616, 659060556, 883997877, 958139571, 1322822218, 1537002063, 1747873779,
     1955562222, 2024104815, 2227730452, 2361852424, 2428436474, 2756734187, 3204031479, 3329325298]"

definition sha_H :: "w32 sha_state" where
  "sha_H = Sha_State 0x6a09e667 0xbb67ae85 0x3c6ef372 0xa54ff53a
                  0x510e527f 0x9b05688c 0x1f83d9ab 0x5be0cd19"

text \<open>\<open>hashlib.sha256(m).digest()\<close>.\<close>

definition sha256 :: "bytes \<Rightarrow> bytes" where
  "sha256 m = sha_digest word_ops sha_K sha_H m"

text \<open>The digest has 32 bytes, so its hexadecimal text has 64 characters.\<close>

lemma be_bytes_length [simp]: "length (be_bytes n v) = n"
  by (induction n arbitrary: v) simp_all

lemma sha256_length: "length (sha256 m) = 32"
proof -
  have "length (state_bytes word_ops s) = 32" for s
    by (cases s) (simp add: word_ops_def del: be_bytes.simps)
  then show ?thesis by (simp add: sha256_def sha_digest_def)
qed

section \<open>The operations on bit lists\<close>

type_synonym bits = "bool list"

fun xor_bits :: "bits \<Rightarrow> bits \<Rightarrow> bits" where
  "xor_bits (True # xs) (True # ys) = False # xor_bits xs ys"
| "xor_bits (True # xs) (False # ys) = True # xor_bits xs ys"
| "xor_bits (False # xs) (y # ys) = y # xor_bits xs ys"
| "xor_bits _ _ = []"

fun ch_bits :: "bits \<Rightarrow> bits \<Rightarrow> bits \<Rightarrow> bits" where
  "ch_bits (True # xs) (y # ys) (z # zs) = y # ch_bits xs ys zs"
| "ch_bits (False # xs) (y # ys) (z # zs) = z # ch_bits xs ys zs"
| "ch_bits _ _ _ = []"

fun maj_bits :: "bits \<Rightarrow> bits \<Rightarrow> bits \<Rightarrow> bits" where
  "maj_bits (True # xs) (True # ys) (z # zs) = True # maj_bits xs ys zs"
| "maj_bits (True # xs) (False # ys) (z # zs) = z # maj_bits xs ys zs"
| "maj_bits (False # xs) (True # ys) (z # zs) = z # maj_bits xs ys zs"
| "maj_bits (False # xs) (False # ys) (z # zs) = False # maj_bits xs ys zs"
| "maj_bits _ _ _ = []"

fun add_bits :: "bool \<Rightarrow> bits \<Rightarrow> bits \<Rightarrow> bits" where
  "add_bits c (True # xs) (True # ys) = c # add_bits True xs ys"
| "add_bits True (True # xs) (False # ys) = False # add_bits True xs ys"
| "add_bits False (True # xs) (False # ys) = True # add_bits False xs ys"
| "add_bits True (False # xs) (True # ys) = False # add_bits True xs ys"
| "add_bits False (False # xs) (True # ys) = True # add_bits False xs ys"
| "add_bits c (False # xs) (False # ys) = c # add_bits False xs ys"
| "add_bits _ _ _ = []"

definition rot_bits :: "nat \<Rightarrow> bits \<Rightarrow> bits" where
  "rot_bits n xs = drop n xs @ take n xs"

definition shift_bits :: "nat \<Rightarrow> bits \<Rightarrow> bits" where
  "shift_bits n xs = drop n xs @ replicate n False"

fun byte_bits :: "char \<Rightarrow> bits" where
  "byte_bits (Char b0 b1 b2 b3 b4 b5 b6 b7) = [b0, b1, b2, b3, b4, b5, b6, b7]"

definition read_bits :: "char \<Rightarrow> char \<Rightarrow> char \<Rightarrow> char \<Rightarrow> bits" where
  "read_bits a b c d = byte_bits d @ byte_bits c @ byte_bits b @ byte_bits a"

fun byte_of_bits :: "bits \<Rightarrow> char" where
  "byte_of_bits [b0, b1, b2, b3, b4, b5, b6, b7] = Char b0 b1 b2 b3 b4 b5 b6 b7"
| "byte_of_bits _ = char_of (0::nat)"

definition write_bits :: "bits \<Rightarrow> bytes" where
  "write_bits bs =
     [byte_of_bits (take 8 (drop 24 bs)), byte_of_bits (take 8 (drop 16 bs)),
      byte_of_bits (take 8 (drop 8 bs)), byte_of_bits (take 8 bs)]"

definition bit_ops :: "bits sha_ops" where
  "bit_ops = \<lparr>
     op_add = add_bits False,
     op_Sigma0 = (\<lambda>x. xor_bits (rot_bits 2 x) (xor_bits (rot_bits 13 x) (rot_bits 22 x))),
     op_Sigma1 = (\<lambda>x. xor_bits (rot_bits 6 x) (xor_bits (rot_bits 11 x) (rot_bits 25 x))),
     op_sigma0 = (\<lambda>x. xor_bits (rot_bits 7 x) (xor_bits (rot_bits 18 x) (shift_bits 3 x))),
     op_sigma1 = (\<lambda>x. xor_bits (rot_bits 17 x) (xor_bits (rot_bits 19 x) (shift_bits 10 x))),
     op_ch = ch_bits,
     op_maj = maj_bits,
     op_read = read_bits,
     op_write = write_bits\<rparr>"

definition bits_of_word :: "w32 \<Rightarrow> bits" where
  "bits_of_word x = map (bit x) [0..<32]"

fun bits_val :: "bits \<Rightarrow> nat" where
  "bits_val [] = 0"
| "bits_val (b # bs) = (if b then 1 else 0) + 2 * bits_val bs"

text \<open>The constants as bit lists, written as the bytes of the standard's hexadecimal.\<close>

definition sha_K_bits :: "bits list" where
  "sha_K_bits = sha_words bit_ops
    [CHR 0x42, CHR 0x8A, CHR 0x2F, CHR 0x98, CHR 0x71, CHR 0x37, CHR 0x44, CHR 0x91,
     CHR 0xB5, CHR 0xC0, CHR 0xFB, CHR 0xCF, CHR 0xE9, CHR 0xB5, CHR 0xDB, CHR 0xA5,
     CHR 0x39, CHR 0x56, CHR 0xC2, CHR 0x5B, CHR 0x59, CHR 0xF1, CHR 0x11, CHR 0xF1,
     CHR 0x92, CHR 0x3F, CHR 0x82, CHR 0xA4, CHR 0xAB, CHR 0x1C, CHR 0x5E, CHR 0xD5,
     CHR 0xD8, CHR 0x07, CHR 0xAA, CHR 0x98, CHR 0x12, CHR 0x83, CHR 0x5B, CHR 0x01,
     CHR 0x24, CHR 0x31, CHR 0x85, CHR 0xBE, CHR 0x55, CHR 0x0C, CHR 0x7D, CHR 0xC3,
     CHR 0x72, CHR 0xBE, CHR 0x5D, CHR 0x74, CHR 0x80, CHR 0xDE, CHR 0xB1, CHR 0xFE,
     CHR 0x9B, CHR 0xDC, CHR 0x06, CHR 0xA7, CHR 0xC1, CHR 0x9B, CHR 0xF1, CHR 0x74,
     CHR 0xE4, CHR 0x9B, CHR 0x69, CHR 0xC1, CHR 0xEF, CHR 0xBE, CHR 0x47, CHR 0x86,
     CHR 0x0F, CHR 0xC1, CHR 0x9D, CHR 0xC6, CHR 0x24, CHR 0x0C, CHR 0xA1, CHR 0xCC,
     CHR 0x2D, CHR 0xE9, CHR 0x2C, CHR 0x6F, CHR 0x4A, CHR 0x74, CHR 0x84, CHR 0xAA,
     CHR 0x5C, CHR 0xB0, CHR 0xA9, CHR 0xDC, CHR 0x76, CHR 0xF9, CHR 0x88, CHR 0xDA,
     CHR 0x98, CHR 0x3E, CHR 0x51, CHR 0x52, CHR 0xA8, CHR 0x31, CHR 0xC6, CHR 0x6D,
     CHR 0xB0, CHR 0x03, CHR 0x27, CHR 0xC8, CHR 0xBF, CHR 0x59, CHR 0x7F, CHR 0xC7,
     CHR 0xC6, CHR 0xE0, CHR 0x0B, CHR 0xF3, CHR 0xD5, CHR 0xA7, CHR 0x91, CHR 0x47,
     CHR 0x06, CHR 0xCA, CHR 0x63, CHR 0x51, CHR 0x14, CHR 0x29, CHR 0x29, CHR 0x67,
     CHR 0x27, CHR 0xB7, CHR 0x0A, CHR 0x85, CHR 0x2E, CHR 0x1B, CHR 0x21, CHR 0x38,
     CHR 0x4D, CHR 0x2C, CHR 0x6D, CHR 0xFC, CHR 0x53, CHR 0x38, CHR 0x0D, CHR 0x13,
     CHR 0x65, CHR 0x0A, CHR 0x73, CHR 0x54, CHR 0x76, CHR 0x6A, CHR 0x0A, CHR 0xBB,
     CHR 0x81, CHR 0xC2, CHR 0xC9, CHR 0x2E, CHR 0x92, CHR 0x72, CHR 0x2C, CHR 0x85,
     CHR 0xA2, CHR 0xBF, CHR 0xE8, CHR 0xA1, CHR 0xA8, CHR 0x1A, CHR 0x66, CHR 0x4B,
     CHR 0xC2, CHR 0x4B, CHR 0x8B, CHR 0x70, CHR 0xC7, CHR 0x6C, CHR 0x51, CHR 0xA3,
     CHR 0xD1, CHR 0x92, CHR 0xE8, CHR 0x19, CHR 0xD6, CHR 0x99, CHR 0x06, CHR 0x24,
     CHR 0xF4, CHR 0x0E, CHR 0x35, CHR 0x85, CHR 0x10, CHR 0x6A, CHR 0xA0, CHR 0x70,
     CHR 0x19, CHR 0xA4, CHR 0xC1, CHR 0x16, CHR 0x1E, CHR 0x37, CHR 0x6C, CHR 0x08,
     CHR 0x27, CHR 0x48, CHR 0x77, CHR 0x4C, CHR 0x34, CHR 0xB0, CHR 0xBC, CHR 0xB5,
     CHR 0x39, CHR 0x1C, CHR 0x0C, CHR 0xB3, CHR 0x4E, CHR 0xD8, CHR 0xAA, CHR 0x4A,
     CHR 0x5B, CHR 0x9C, CHR 0xCA, CHR 0x4F, CHR 0x68, CHR 0x2E, CHR 0x6F, CHR 0xF3,
     CHR 0x74, CHR 0x8F, CHR 0x82, CHR 0xEE, CHR 0x78, CHR 0xA5, CHR 0x63, CHR 0x6F,
     CHR 0x84, CHR 0xC8, CHR 0x78, CHR 0x14, CHR 0x8C, CHR 0xC7, CHR 0x02, CHR 0x08,
     CHR 0x90, CHR 0xBE, CHR 0xFF, CHR 0xFA, CHR 0xA4, CHR 0x50, CHR 0x6C, CHR 0xEB,
     CHR 0xBE, CHR 0xF9, CHR 0xA3, CHR 0xF7, CHR 0xC6, CHR 0x71, CHR 0x78, CHR 0xF2]"

definition sha_H_bits :: "bits sha_state" where
  "sha_H_bits = Sha_State
    (read_bits CHR 0x6A CHR 0x09 CHR 0xE6 CHR 0x67)
    (read_bits CHR 0xBB CHR 0x67 CHR 0xAE CHR 0x85)
    (read_bits CHR 0x3C CHR 0x6E CHR 0xF3 CHR 0x72)
    (read_bits CHR 0xA5 CHR 0x4F CHR 0xF5 CHR 0x3A)
    (read_bits CHR 0x51 CHR 0x0E CHR 0x52 CHR 0x7F)
    (read_bits CHR 0x9B CHR 0x05 CHR 0x68 CHR 0x8C)
    (read_bits CHR 0x1F CHR 0x83 CHR 0xD9 CHR 0xAB)
    (read_bits CHR 0x5B CHR 0xE0 CHR 0xCD CHR 0x19)"

definition sha256_bits :: "bytes \<Rightarrow> bytes" where
  "sha256_bits m = sha_digest bit_ops sha_K_bits sha_H_bits m"

section \<open>The bit lists compute the standard's digest\<close>

lemma bits_val_less: "bits_val bs < 2 ^ length bs"
  by (induction bs) auto

lemma bits_val_append: "bits_val (xs @ ys) = bits_val xs + 2 ^ length xs * bits_val ys"
  by (induction xs) (simp_all add: algebra_simps)

lemma bits_val_inject:
  "length xs = length ys \<Longrightarrow> bits_val xs = bits_val ys \<Longrightarrow> xs = ys"
proof (induction xs ys rule: list_induct2)
  case (Cons x xs y ys)
  then have "x = y" by (cases x; cases y) simp_all
  with Cons show ?case by simp
qed simp

lemma bits_val_map_bit: "bits_val (map (bit v) [0..<n]) = take_bit n (v :: nat)"
proof -
  have "bits_val bs = horner_sum of_bool 2 bs" for bs by (induction bs) auto
  then show ?thesis by (simp add: horner_sum_bit_eq_take_bit)
qed

lemma bits_of_word_length [simp]: "length (bits_of_word x) = 32"
  by (simp add: bits_of_word_def)

lemma bits_of_word_nth: "i < 32 \<Longrightarrow> bits_of_word x ! i = bit x i"
  by (simp add: bits_of_word_def)

lemma bits_val_word: "bits_val (bits_of_word x) = unat x"
proof -
  have "bits_of_word x = map (bit (unat x)) [0..<32]"
    by (simp add: bits_of_word_def bit_unsigned_iff)
  then have "bits_val (bits_of_word x) = take_bit 32 (unat x)"
    by (simp add: bits_val_map_bit)
  also have "\<dots> = unat x"
    using unsigned_less [of x] by (simp add: take_bit_nat_eq_self_iff)
  finally show ?thesis .
qed

lemma bits_of_word_val:
  assumes "length bs = 32" shows "bits_of_word (of_nat (bits_val bs)) = bs"
proof (rule bits_val_inject)
  have "bits_val bs < 2 ^ 32" using bits_val_less [of bs] assms by simp
  then show "bits_val (bits_of_word (of_nat (bits_val bs))) = bits_val bs"
    by (simp add: bits_val_word unat_of_nat)
qed (simp add: assms)

lemma xor_bits_nth:
  "length xs = length ys \<Longrightarrow> length (xor_bits xs ys) = length xs \<and>
   (\<forall>i < length xs. xor_bits xs ys ! i = (xs ! i \<noteq> ys ! i))"
  by (induction xs ys rule: xor_bits.induct) (auto simp: nth_Cons split: nat.splits)

lemma ch_bits_nth:
  "length xs = length ys \<Longrightarrow> length ys = length zs \<Longrightarrow>
   length (ch_bits xs ys zs) = length xs \<and>
   (\<forall>i < length xs. ch_bits xs ys zs ! i = (if xs ! i then ys ! i else zs ! i))"
  by (induction xs ys zs rule: ch_bits.induct) (auto simp: nth_Cons split: nat.splits)

lemma maj_bits_nth:
  "length xs = length ys \<Longrightarrow> length ys = length zs \<Longrightarrow>
   length (maj_bits xs ys zs) = length xs \<and>
   (\<forall>i < length xs. maj_bits xs ys zs ! i =
      (if xs ! i = ys ! i then xs ! i else zs ! i))"
  by (induction xs ys zs rule: maj_bits.induct) (auto simp: nth_Cons split: nat.splits)

lemma add_bits_val:
  "length xs = length ys \<Longrightarrow> length (add_bits c xs ys) = length xs \<and>
   bits_val (add_bits c xs ys) =
     (bits_val xs + bits_val ys + (if c then 1 else 0)) mod 2 ^ length xs"
proof (induction c xs ys rule: add_bits.induct)
qed (auto simp: mod_mult2_eq)


lemma bits_of_word_xor: "bits_of_word (x XOR y) = xor_bits (bits_of_word x) (bits_of_word y)"
  using xor_bits_nth [of "bits_of_word x" "bits_of_word y"]
  by (auto intro!: nth_equalityI simp: bits_of_word_nth bit_xor_iff)

lemma bits_of_word_ch:
  "bits_of_word ((x AND y) XOR (NOT x AND z)) =
   ch_bits (bits_of_word x) (bits_of_word y) (bits_of_word z)"
  using ch_bits_nth [of "bits_of_word x" "bits_of_word y" "bits_of_word z"]
  by (auto intro!: nth_equalityI split: if_splits
      simp: bits_of_word_nth bit_xor_iff bit_and_iff bit_not_iff)

lemma bits_of_word_maj:
  "bits_of_word ((x AND y) XOR (x AND z) XOR (y AND z)) =
   maj_bits (bits_of_word x) (bits_of_word y) (bits_of_word z)"
  using maj_bits_nth [of "bits_of_word x" "bits_of_word y" "bits_of_word z"]
  by (auto intro!: nth_equalityI split: if_splits
      simp: bits_of_word_nth bit_xor_iff bit_and_iff)

lemma bits_of_word_add: "bits_of_word (x + y) = add_bits False (bits_of_word x) (bits_of_word y)"
proof (rule bits_val_inject)
  let ?s = "add_bits False (bits_of_word x) (bits_of_word y)"
  have s: "length ?s = 32" "bits_val ?s = (unat x + unat y) mod 2 ^ 32"
    using add_bits_val [of "bits_of_word x" "bits_of_word y" False]
    by (simp_all add: bits_val_word)
  then show "length (bits_of_word (x + y)) = length ?s" by simp
  show "bits_val (bits_of_word (x + y)) = bits_val ?s"
    by (simp add: s bits_val_word unat_word_ariths)
qed

lemma word_bit_beyond: "32 \<le> i \<Longrightarrow> \<not> bit (x :: w32) i"
  using bit_imp_le_length [of x i] by auto

lemma bit_rotr32:
  assumes "0 < n" "n < 32" "i < 32"
  shows "bit (rotr32 n x) i = (if i < 32 - n then bit x (n + i) else bit x (i - (32 - n)))"
proof (cases "i < 32 - n")
  case True
  then show ?thesis using assms
    by (simp add: rotr32_def bit_or_iff bit_drop_bit_eq bit_push_bit_iff)
next
  case False
  then have "\<not> bit x (n + i)" by (intro word_bit_beyond) simp
  with False show ?thesis using assms
    by (simp add: rotr32_def bit_or_iff bit_drop_bit_eq bit_push_bit_iff)
qed

lemma bits_of_word_rot:
  assumes "0 < n" "n < 32" shows "bits_of_word (rotr32 n x) = rot_bits n (bits_of_word x)"
proof (rule nth_equalityI)
  show "length (bits_of_word (rotr32 n x)) = length (rot_bits n (bits_of_word x))"
    using assms by (simp add: rot_bits_def)
  fix i assume "i < length (bits_of_word (rotr32 n x))"
  then have i: "i < 32" by simp
  show "bits_of_word (rotr32 n x) ! i = rot_bits n (bits_of_word x) ! i"
    using assms i by (simp add: bit_rotr32 rot_bits_def bits_of_word_nth nth_append)
qed

lemma bits_of_word_shift:
  assumes "n < 32" shows "bits_of_word (drop_bit n x) = shift_bits n (bits_of_word x)"
proof (rule nth_equalityI)
  show "length (bits_of_word (drop_bit n x)) = length (shift_bits n (bits_of_word x))"
    using assms by (simp add: shift_bits_def)
  fix i assume "i < length (bits_of_word (drop_bit n x))"
  then have i: "i < 32" by simp
  show "bits_of_word (drop_bit n x) ! i = shift_bits n (bits_of_word x) ! i"
    using assms i word_bit_beyond [of "n + i" x]
    by (simp add: bit_drop_bit_eq shift_bits_def bits_of_word_nth nth_append)
qed

lemma rot_shift_numerals:
  "bits_of_word (rotr32 (numeral k) x) = rot_bits (numeral k) (bits_of_word x)"
  "bits_of_word (drop_bit (numeral k) x) = shift_bits (numeral k) (bits_of_word x)"
  if "(numeral k :: nat) < 32"
  using that by (simp_all add: bits_of_word_rot bits_of_word_shift)

lemma byte_bits_length [simp]: "length (byte_bits c) = 8"
  by (cases c) simp

lemma bits_val_byte: "bits_val (byte_bits c) = code c"
  by (cases c) simp

lemma byte_of_byte_bits: "byte_of_bits (byte_bits c) = c"
  by (cases c) simp

lemma byte_bits_of:
  assumes "length bs = 8" shows "byte_bits (byte_of_bits bs) = bs"
proof -
  from assms obtain b0 b1 b2 b3 b4 b5 b6 b7 where "bs = [b0, b1, b2, b3, b4, b5, b6, b7]"
    by (auto simp: eval_nat_numeral length_Suc_conv)
  then show ?thesis by simp
qed

lemma char_of_bits_val: "length bs = 8 \<Longrightarrow> char_of (bits_val bs) = byte_of_bits bs"
  by (metis bits_val_byte byte_bits_of char_of_char)

lemma read_bits_word:
  "bits_of_word (of_nat (code a * 16777216 + code b * 65536 + code c * 256 + code d)) =
   read_bits a b c d"
proof -
  have "code a * 16777216 + code b * 65536 + code c * 256 + code d = bits_val (read_bits a b c d)"
    by (simp add: read_bits_def bits_val_append bits_val_byte)
  moreover have "length (read_bits a b c d) = 32" by (simp add: read_bits_def)
  ultimately show ?thesis by (simp only: bits_of_word_val)
qed

lemma bits_val_byte_split:
  assumes "length p = 8"
  shows "bits_val (p @ r) mod 256 = bits_val p" and "bits_val (p @ r) div 256 = bits_val r"
  using bits_val_less [of p] assms by (simp_all add: bits_val_append)

lemma write_bits_word: "be_bytes 4 (unat x) = write_bits (bits_of_word x)"
proof -
  let ?bs = "bits_of_word x"
  define p q u v where "p = take 8 ?bs" and "q = take 8 (drop 8 ?bs)"
    and "u = take 8 (drop 16 ?bs)" and "v = take 8 (drop 24 ?bs)"
  have len: "length p = 8" "length q = 8" "length u = 8" "length v = 8"
    by (simp_all add: p_def q_def u_def v_def)
  have "drop 24 ?bs = v" by (simp add: v_def)
  moreover have "drop 16 ?bs = u @ drop 24 ?bs"
    using append_take_drop_id [of 8 "drop 16 ?bs"] by (simp add: u_def)
  moreover have "drop 8 ?bs = q @ drop 16 ?bs"
    using append_take_drop_id [of 8 "drop 8 ?bs"] by (simp add: q_def)
  moreover have "?bs = p @ drop 8 ?bs" by (simp add: p_def)
  ultimately have bs: "?bs = p @ q @ u @ v" by simp
  have "be_bytes 4 n = [char_of (n div 256 div 256 div 256 mod 256),
      char_of (n div 256 div 256 mod 256), char_of (n div 256 mod 256), char_of (n mod 256)]" for n
  proof -
    have "be_bytes 4 n = be_bytes (Suc (Suc (Suc (Suc 0)))) n" by (simp add: eval_nat_numeral del: be_bytes.simps)
    then show ?thesis by (simp only: be_bytes.simps append_Nil append_Cons)
  qed
  note be4 = this [of "bits_val (p @ q @ u @ v @ [])"]
  have "be_bytes 4 (bits_val (p @ q @ u @ v @ [])) =
      [char_of (bits_val v), char_of (bits_val u), char_of (bits_val q), char_of (bits_val p)]"
    unfolding be4 by (simp only: bits_val_byte_split len)
  also have "\<dots> = [byte_of_bits v, byte_of_bits u, byte_of_bits q, byte_of_bits p]"
    by (simp add: char_of_bits_val len)
  finally have "be_bytes 4 (bits_val ?bs) =
      [byte_of_bits v, byte_of_bits u, byte_of_bits q, byte_of_bits p]"
    by (simp only: bs append_Nil2)
  then show ?thesis
    by (simp only: write_bits_def bits_val_word p_def q_def u_def v_def)
qed

interpretation sha_bits: sha_hom word_ops bit_ops bits_of_word
  by unfold_locales
    (simp_all only: word_ops_def bit_ops_def sha_ops.simps bits_of_word_add
      bits_of_word_ch [unfolded bits_of_word_xor] bits_of_word_maj [unfolded bits_of_word_xor] read_bits_word write_bits_word bits_of_word_xor rot_shift_numerals)


lemma sha_K_bits_eq: "map bits_of_word sha_K = sha_K_bits"
  by (simp add: sha_K_def sha_K_bits_def bit_ops_def flip: read_bits_word)

lemma sha_H_bits_eq: "map_sha_state bits_of_word sha_H = sha_H_bits"
  by (simp add: sha_H_def sha_H_bits_def flip: read_bits_word)

theorem sha256_eq_bits [code]: "sha256 m = sha256_bits m"
  by (simp only: sha256_def sha256_bits_def sha_bits.digest_hom sha_K_bits_eq sha_H_bits_eq)

text \<open>The standard's test vector.\<close>

lemma sha256_abc:
  "bytes_hex (sha256 ''abc'') =
   ''ba7816bf8f01cfea414140de5dae2223b00361a396177a9cb410ff61f20015ad''"
  by code_simp

end
