(* ===== verification/Py_Time.thy ===== *)
theory Py_Time
  imports Py_Text
begin

text \<open>
  \<open>datetime.strptime(s, "%Y-%m-%d %H:%M:%S")\<close> and the matching \<open>strftime\<close>.  A parsed
  date is a record of its six fields; its position on the time line is the number of
  seconds since 0001-01-01 (proleptic Gregorian calendar, as CPython's \<open>toordinal\<close>).
\<close>

record datetime =
  dt_year :: nat
  dt_month :: nat
  dt_day :: nat
  dt_hour :: nat
  dt_minute :: nat
  dt_second :: nat

definition leap_year :: "nat \<Rightarrow> bool" where
  "leap_year y = (y mod 4 = 0 \<and> (y mod 100 \<noteq> 0 \<or> y mod 400 = 0))"

definition days_in_month :: "nat \<Rightarrow> nat \<Rightarrow> nat" where
  "days_in_month y m =
     (if m = 2 then (if leap_year y then 29 else 28)
      else if m \<in> {4, 6, 9, 11} then 30 else 31)"

text \<open>What the constructor of \<open>datetime\<close> accepts; everything else is a \<open>ValueError\<close>.\<close>

definition valid_datetime :: "datetime \<Rightarrow> bool" where
  "valid_datetime d =
     (1 \<le> dt_year d \<and> dt_year d \<le> 9999 \<and> 1 \<le> dt_month d \<and> dt_month d \<le> 12 \<and>
      1 \<le> dt_day d \<and> dt_day d \<le> days_in_month (dt_year d) (dt_month d) \<and>
      dt_hour d < 24 \<and> dt_minute d < 60 \<and> dt_second d < 60)"

definition days_before_year :: "nat \<Rightarrow> nat" where
  "days_before_year y = (let p = y - 1 in p * 365 + p div 4 - p div 100 + p div 400)"

definition days_before_month :: "nat \<Rightarrow> nat \<Rightarrow> nat" where
  "days_before_month y m = sum_list (map (days_in_month y) [1..<m])"

definition toordinal :: "datetime \<Rightarrow> nat" where
  "toordinal d =
     days_before_year (dt_year d) + days_before_month (dt_year d) (dt_month d) + dt_day d"

definition dt_seconds :: "datetime \<Rightarrow> int" where
  "dt_seconds d =
     int (toordinal d * 86400 + dt_hour d * 3600 + dt_minute d * 60 + dt_second d)"

section \<open>Parsing\<close>

text \<open>
  Each field of the format is followed by a character that no field contains, so the
  regular expression of \<open>strptime\<close> matches a field exactly when the whole run of digits
  there has one of the forms of the field: four digits for the year; one or two digits for
  the others.  The day may be a space and one digit.  The blank of the format stands for
  one or more whitespace characters.
\<close>

definition digit_run :: "string \<Rightarrow> string \<times> string" where
  "digit_run s = (takeWhile is_digit s, dropWhile is_digit s)"

definition field_in :: "nat \<Rightarrow> nat \<Rightarrow> string \<Rightarrow> bool" where
  "field_in lo hi ds =
     (length ds \<in> {1, 2} \<and> lo \<le> parse_nat ds \<and> parse_nat ds \<le> hi)"

definition expect :: "char \<Rightarrow> string \<Rightarrow> string res" where
  "expect c s = (if s \<noteq> [] \<and> hd s = c then Inr (tl s) else Inl ValueError)"

definition number_field :: "nat \<Rightarrow> nat \<Rightarrow> string \<Rightarrow> (nat \<times> string) res" where
  "number_field lo hi s =
     (case digit_run s of (ds, r) \<Rightarrow>
        if field_in lo hi ds then Inr (parse_nat ds, r) else Inl ValueError)"

definition year_field :: "string \<Rightarrow> (nat \<times> string) res" where
  "year_field s =
     (case digit_run s of (ds, r) \<Rightarrow>
        if length ds = 4 then Inr (parse_nat ds, r) else Inl ValueError)"

definition day_field :: "string \<Rightarrow> (nat \<times> string) res" where
  "day_field s =
     (if s \<noteq> [] \<and> hd s = CHR '' '' then
        (case digit_run (tl s) of (ds, r) \<Rightarrow>
           if length ds = 1 \<and> 1 \<le> parse_nat ds then Inr (parse_nat ds, r)
           else Inl ValueError)
      else number_field 1 31 s)"

definition blank_field :: "string \<Rightarrow> string res" where
  "blank_field s =
     (if s \<noteq> [] \<and> is_space (hd s) then Inr (dropWhile is_space s) else Inl ValueError)"

definition strptime :: "string \<Rightarrow> datetime res" where
  "strptime s =
     bindE (year_field s) (\<lambda>(y, s1).
     bindE (expect CHR ''-'' s1) (\<lambda>s2.
     bindE (number_field 1 12 s2) (\<lambda>(mo, s3).
     bindE (expect CHR ''-'' s3) (\<lambda>s4.
     bindE (day_field s4) (\<lambda>(d, s5).
     bindE (blank_field s5) (\<lambda>s6.
     bindE (number_field 0 23 s6) (\<lambda>(h, s7).
     bindE (expect CHR '':'' s7) (\<lambda>s8.
     bindE (number_field 0 59 s8) (\<lambda>(mi, s9).
     bindE (expect CHR '':'' s9) (\<lambda>s10.
     bindE (number_field 0 61 s10) (\<lambda>(se, s11).
       let dt = \<lparr>dt_year = y, dt_month = mo, dt_day = d,
                 dt_hour = h, dt_minute = mi, dt_second = se\<rparr>
       in if s11 = [] \<and> valid_datetime dt then Inr dt else Inl ValueError)))))))))))"

section \<open>Formatting\<close>

definition two_digits :: "nat \<Rightarrow> string" where
  "two_digits n = [digit_char (n div 10), digit_char (n mod 10)]"

text \<open>\<open>d.strftime("%Y-%m-%d %H:%M:%S")\<close>; the year is printed as an int.\<close>

definition strftime :: "datetime \<Rightarrow> string" where
  "strftime d =
     show_nat (dt_year d) @ ''-'' @ two_digits (dt_month d) @ ''-'' @ two_digits (dt_day d)
     @ '' '' @ two_digits (dt_hour d) @ '':'' @ two_digits (dt_minute d)
     @ '':'' @ two_digits (dt_second d)"

section \<open>Formatting and parsing agree\<close>

lemma digit_run_append:
  assumes "list_all is_digit ds" and "r = [] \<or> \<not> is_digit (hd r)"
  shows "digit_run (ds @ r) = (ds, r)"
proof -
  have "takeWhile is_digit r = []" "dropWhile is_digit r = r"
    using assms(2) by (cases r; simp)+
  then show ?thesis
    using assms(1) by (simp add: digit_run_def takeWhile_all_append dropWhile_all_append)
qed

lemma two_digits_digits: "n < 100 \<Longrightarrow> list_all is_digit (two_digits n)"
  by (simp add: two_digits_def)

lemma parse_two_digits: "n < 100 \<Longrightarrow> parse_nat (two_digits n) = n"
  by (simp add: two_digits_def parse_nat_def)

lemma number_field_two_digits:
  assumes "lo \<le> n" "n \<le> hi" "n < 100" "r = [] \<or> \<not> is_digit (hd r)"
  shows "number_field lo hi (two_digits n @ r) = Inr (n, r)"
proof -
  have "length (two_digits n) = 2" by (simp add: two_digits_def)
  then show ?thesis
    using assms by (simp add: number_field_def digit_run_append two_digits_digits
        parse_two_digits field_in_def)
qed

lemma show_nat_length4:
  assumes "1000 \<le> n" "n \<le> 9999" shows "length (show_nat n) = 4"
proof -
  have "\<not> n < 10" "\<not> n div 10 < 10" "\<not> n div 100 < 10" "n div 1000 < 10"
    using assms by (simp_all add: div_less_iff_less_mult)
  then show ?thesis
    by (simp add: show_nat.simps [of n] show_nat.simps [of "n div 10"]
      show_nat.simps [of "n div 100"] show_nat.simps [of "n div 1000"] div_mult2_eq [symmetric])
qed

lemma separators_not_digits [simp]:
  "\<not> is_digit CHR ''-''" "\<not> is_digit CHR '':''" "\<not> is_digit CHR '' ''"
  by (simp_all add: is_digit_def)

lemma digit_char_not_blank [simp]:
  "n < 10 \<Longrightarrow> digit_char n \<noteq> CHR '' ''" "n < 10 \<Longrightarrow> \<not> is_space (digit_char n)"
  using digit_char_digit [of n] by (auto simp: is_digit_def is_space_def Let_def)

lemma blank_field_two_digits:
  "n < 100 \<Longrightarrow> blank_field (CHR '' '' # two_digits n @ r) = Inr (two_digits n @ r)"
  by (simp add: blank_field_def two_digits_def) (simp add: is_space_def)

lemma day_field_two_digits:
  assumes "1 \<le> n" "n \<le> 31" "r = [] \<or> \<not> is_digit (hd r)"
  shows "day_field (two_digits n @ r) = Inr (n, r)"
proof -
  have "hd (two_digits n @ r) \<noteq> CHR '' ''" using assms by (simp add: two_digits_def)
  then show ?thesis using assms by (simp add: day_field_def number_field_two_digits)
qed

theorem strptime_strftime:
  assumes "valid_datetime d" and "1000 \<le> dt_year d"
  shows "strptime (strftime d) = Inr d"
proof -
  have b: "dt_year d \<le> 9999" "1 \<le> dt_month d" "dt_month d \<le> 12" "1 \<le> dt_day d" "dt_day d \<le> 31"
    "dt_hour d \<le> 23" "dt_minute d \<le> 59" "dt_second d \<le> 61"
    using assms(1) by (auto simp: valid_datetime_def days_in_month_def split: if_splits)
  have y: "year_field (show_nat (dt_year d) @ CHR ''-'' # r) = Inr (dt_year d, CHR ''-'' # r)" for r
    using assms(2) b(1)
    by (simp add: year_field_def digit_run_append show_nat_digits show_nat_length4)
  have se: "number_field 0 61 (two_digits (dt_second d)) = Inr (dt_second d, [])"
    using number_field_two_digits [of 0 "dt_second d" 61 "[]"] b by simp
  have "valid_datetime \<lparr>dt_year = dt_year d, dt_month = dt_month d, dt_day = dt_day d, dt_hour = dt_hour d,
      dt_minute = dt_minute d, dt_second = dt_second d\<rparr>"
    using assms(1) by (simp add: valid_datetime_def)
  then show ?thesis using b assms(1)
    by (simp add: strptime_def strftime_def y se expect_def Let_def number_field_two_digits
        day_field_two_digits blank_field_two_digits)
qed

end
