(* ===== verification/Ebc_Types.thy ===== *)
theory Ebc_Types
  imports Py_Text
begin

text \<open>
  The data model of \<open>types.py\<close>.  Blocks arrive as JSON and stay dicts, so a block is a
  \<open>pyval\<close> and every access of the code can raise.  The settings dataclasses are records;
  field names carry a prefix because record selectors share one name space.
\<close>

type_synonym block = pyval
type_synonym chain = "block list"
type_synonym stakes = "(string \<times> int) list"

definition DEFAULT_GENESIS_PREV_HASH :: string where
  "DEFAULT_GENESIS_PREV_HASH = replicate 64 CHR ''0''"

section \<open>Results of validation\<close>

record validation_result =
  valid :: bool
  reason :: string

definition accepted :: validation_result where
  "accepted = \<lparr>valid = True, reason = []\<rparr>"

definition rejected :: "string \<Rightarrow> validation_result" where
  "rejected r = \<lparr>valid = False, reason = r\<rparr>"

lemma valid_simps [simp]: "valid accepted" "\<not> valid (rejected r)"
  by (simp_all add: accepted_def rejected_def)

lemma accepted_neq_rejected [simp]: "accepted \<noteq> rejected r" "rejected r \<noteq> accepted"
  by (simp_all add: accepted_def rejected_def)

lemma reason_simps [simp]: "reason accepted = []" "reason (rejected r) = r"
  by (simp_all add: accepted_def rejected_def)

record chain_verification =
  cv_valid :: bool
  cv_failed_at :: "nat option"
  cv_reason :: string

definition chain_ok :: chain_verification where
  "chain_ok = \<lparr>cv_valid = True, cv_failed_at = None, cv_reason = []\<rparr>"

definition chain_bad :: "nat \<Rightarrow> string \<Rightarrow> chain_verification" where
  "chain_bad i r = \<lparr>cv_valid = False, cv_failed_at = Some i, cv_reason = r\<rparr>"

lemma cv_simps [simp]:
  "cv_valid chain_ok" "cv_failed_at chain_ok = None"
  "\<not> cv_valid (chain_bad i r)" "cv_failed_at (chain_bad i r) = Some i"
  "cv_reason (chain_bad i r) = r"
  by (simp_all add: chain_ok_def chain_bad_def)

section \<open>Settings\<close>

datatype consensus_kind = Pow | Pos
datatype environment = Development | Production
datatype log_format = TextFormat | JsonFormat

record pow_settings =
  initial_difficulty :: int
  adjustment_interval :: int
  max_adjustment_factor :: pyfloat
  max_mining_iterations :: int
  target_block_time_seconds :: int

definition default_pow :: pow_settings where
  "default_pow = \<lparr>initial_difficulty = 4, adjustment_interval = 10,
     max_adjustment_factor = Fin 2, max_mining_iterations = 1000000,
     target_block_time_seconds = 10\<rparr>"

record pos_settings =
  epoch_length :: int
  min_stake :: int
  block_reward :: int

definition default_pos :: pos_settings where
  "default_pos = \<lparr>epoch_length = 10, min_stake = 100, block_reward = 10\<rparr>"

record consensus_settings =
  cs_type :: consensus_kind
  cs_pow :: pow_settings
  cs_pos :: pos_settings

definition default_consensus :: consensus_settings where
  "default_consensus = \<lparr>cs_type = Pow, cs_pow = default_pow, cs_pos = default_pos\<rparr>"

record tls_settings =
  tls_enabled :: bool
  tls_cert_file :: string
  tls_key_file :: string
  tls_ca_file :: string
  tls_verify_peer :: bool

definition default_tls :: tls_settings where
  "default_tls = \<lparr>tls_enabled = False, tls_cert_file = [], tls_key_file = [], tls_ca_file = [],
     tls_verify_peer = False\<rparr>"

record peer_auth_settings =
  pa_enabled :: bool
  pa_max_skew_seconds :: int
  pa_handshake_timeout :: pyfloat

definition default_peer_auth :: peer_auth_settings where
  "default_peer_auth = \<lparr>pa_enabled = True, pa_max_skew_seconds = 300, pa_handshake_timeout = Fin 5\<rparr>"

record rate_limit_settings =
  rl_max_connections :: int
  rl_max_messages :: int
  rl_max_decode_errors :: int

definition default_rate_limit :: rate_limit_settings where
  "default_rate_limit =
     \<lparr>rl_max_connections = 10, rl_max_messages = 50, rl_max_decode_errors = 5\<rparr>"

record reconnect_settings =
  rc_enabled :: bool
  rc_initial_delay :: pyfloat
  rc_max_delay :: pyfloat
  rc_max_attempts :: int
  rc_multiplier :: pyfloat

definition default_reconnect :: reconnect_settings where
  "default_reconnect = \<lparr>rc_enabled = True, rc_initial_delay = Fin 1, rc_max_delay = Fin 60,
     rc_max_attempts = 0, rc_multiplier = Fin 2\<rparr>"

definition DEFAULT_BLOCKED_PEER_CIDRS :: "string list" where
  "DEFAULT_BLOCKED_PEER_CIDRS =
     [''127.0.0.0/8'', ''10.0.0.0/8'', ''172.16.0.0/12'', ''192.168.0.0/16'',
      ''169.254.0.0/16'', ''100.64.0.0/10'']"

record peer_connect_settings =
  pc_allow_private_ips :: bool
  pc_blocked_cidrs :: "string list"
  pc_max_peers_per_message :: int
  pc_max_known_peers :: int
  pc_allowed_ports :: "int list"

definition default_peer_connect :: peer_connect_settings where
  "default_peer_connect = \<lparr>pc_allow_private_ips = False,
     pc_blocked_cidrs = DEFAULT_BLOCKED_PEER_CIDRS, pc_max_peers_per_message = 50,
     pc_max_known_peers = 1000, pc_allowed_ports = [80, 443, 8765]\<rparr>"

record network_settings =
  nw_host :: string
  nw_port :: int
  nw_bootstrap_peers :: "pyval list"
  nw_mdns_enabled :: bool
  nw_mdns_service_name :: string
  nw_mdns_resolution_timeout :: pyfloat
  nw_mdns_resolution_interval :: pyfloat
  nw_mdns_max_pending :: int
  nw_max_peers :: int
  nw_max_message_bytes :: int
  nw_chain_sync_batch_size :: int
  nw_chain_sync_max_blocks :: int
  nw_chain_sync_max_bytes :: int
  nw_ping_interval :: int
  nw_connection_timeout :: int
  nw_broadcast_timeout :: int
  nw_chain_sync_timeout :: int
  nw_shutdown_peer_timeout :: int
  nw_shutdown_server_timeout :: int
  nw_pong_timeout :: int
  nw_tls :: tls_settings
  nw_peer_auth :: peer_auth_settings
  nw_peer_connect :: peer_connect_settings
  nw_rate_limit :: rate_limit_settings
  nw_reconnect :: reconnect_settings

definition default_network :: network_settings where
  "default_network =
     \<lparr>nw_host = ''0.0.0.0'', nw_port = 8765, nw_bootstrap_peers = [], nw_mdns_enabled = False,
      nw_mdns_service_name = ''_easyblockchain._tcp.local.'', nw_mdns_resolution_timeout = Fin 1,
      nw_mdns_resolution_interval = float_of_exact (1 / 5), nw_mdns_max_pending = 100,
      nw_max_peers = 25, nw_max_message_bytes = 1048576, nw_chain_sync_batch_size = 100,
      nw_chain_sync_max_blocks = 10000, nw_chain_sync_max_bytes = 67108864, nw_ping_interval = 30,
      nw_connection_timeout = 10, nw_broadcast_timeout = 5, nw_chain_sync_timeout = 10,
      nw_shutdown_peer_timeout = 2, nw_shutdown_server_timeout = 3, nw_pong_timeout = 90,
      nw_tls = default_tls, nw_peer_auth = default_peer_auth,
      nw_peer_connect = default_peer_connect, nw_rate_limit = default_rate_limit,
      nw_reconnect = default_reconnect\<rparr>"

record observability_settings =
  ob_enabled :: bool
  ob_host :: string
  ob_port :: int
  ob_log_format :: log_format
  ob_health_path :: string
  ob_ready_path :: string
  ob_metrics_path :: string
  ob_min_peers :: int
  ob_auth_enabled :: bool
  ob_auth_token :: string

definition default_observability :: observability_settings where
  "default_observability =
     \<lparr>ob_enabled = False, ob_host = ''0.0.0.0'', ob_port = 9090, ob_log_format = TextFormat,
      ob_health_path = ''/healthz'', ob_ready_path = ''/readyz'', ob_metrics_path = ''/metrics'',
      ob_min_peers = 0, ob_auth_enabled = False, ob_auth_token = []\<rparr>"

record node_settings =
  nd_environment :: environment
  nd_data_dir :: string
  nd_node_id :: string
  nd_log_level :: string
  nd_require_external_keys :: bool

definition default_node :: node_settings where
  "default_node = \<lparr>nd_environment = Development, nd_data_dir = ''./data'', nd_node_id = [],
     nd_log_level = ''INFO'', nd_require_external_keys = False\<rparr>"

record persistence_settings =
  ps_schema_version :: int
  ps_max_chain_file_bytes :: int
  ps_chain_file :: string
  ps_meta_file :: string
  ps_genesis_stakes_file :: string
  ps_keys_dir :: string
  ps_private_key_file :: string
  ps_p2p_identity_file :: string
  ps_store_keys_on_disk :: bool

definition default_persistence :: persistence_settings where
  "default_persistence =
     \<lparr>ps_schema_version = 1, ps_max_chain_file_bytes = 67108864, ps_chain_file = ''chain.json'',
      ps_meta_file = ''meta.json'', ps_genesis_stakes_file = ''genesis_stakes.json'',
      ps_keys_dir = ''keys'', ps_private_key_file = ''node.pem'',
      ps_p2p_identity_file = ''p2p_identity.pem'', ps_store_keys_on_disk = True\<rparr>"

text \<open>\<open>GenesisSettings\<close> has the one field \<open>prev_hash\<close>, kept directly.\<close>

record app_settings =
  ap_consensus :: consensus_settings
  ap_network :: network_settings
  ap_node :: node_settings
  ap_genesis_prev_hash :: string
  ap_persistence :: persistence_settings
  ap_observability :: observability_settings

definition default_app :: app_settings where
  "default_app =
     \<lparr>ap_consensus = default_consensus, ap_network = default_network, ap_node = default_node,
      ap_genesis_prev_hash = DEFAULT_GENESIS_PREV_HASH, ap_persistence = default_persistence,
      ap_observability = default_observability\<rparr>"

end
