(* ===== verification/Hash_Utils.thy ===== *)
theory Hash_Utils
  imports Sha256 Ebc_Types
begin

text \<open>
  \<open>hash_utils.py\<close>: the hexadecimal SHA-256 of a text, the hash of a transaction body and
  the three forms of a block hash, the difficulty test, and the genesis identifier of a
  chain.  The locale \<open>fixed_length_hash\<close> is the interface the block hashes rely on: every
  digest has the same length, so a concatenation of digests and a rest is read back
  uniquely, or two different texts with the same digest are at hand.
\<close>

section \<open>Hashes\<close>

text \<open>\<open>sha256_hex\<close> on a \<open>str\<close>: the text is encoded first.\<close>

definition sha256_hex :: "string \<Rightarrow> string" where
  "sha256_hex s = bytes_hex (sha256 (utf8_encode s))"

text \<open>
  \<open>str(tran_string)\<close> is taken of a bytes object, so the text that is hashed is the
  \<open>repr\<close> \<open>b'...'\<close> of the encoded JSON.
\<close>

definition body_text :: "pyval \<Rightarrow> string" where
  "body_text tr = bytes_repr (utf8_encode (json_dumps_sorted tr))"

definition calc_body_hash :: "pyval \<Rightarrow> string" where
  "calc_body_hash tr = sha256_hex (body_text tr)"

definition calc_legacy_tran_hash :: "string \<Rightarrow> string \<Rightarrow> string" where
  "calc_legacy_tran_hash prev_hash body_hash = sha256_hex (prev_hash @ body_hash)"

definition calc_pow_tran_hash :: "string \<Rightarrow> string \<Rightarrow> int \<Rightarrow> string" where
  "calc_pow_tran_hash prev_hash body_hash nonce =
     sha256_hex (prev_hash @ body_hash @ show_int nonce)"

definition calc_pos_tran_hash :: "string \<Rightarrow> string \<Rightarrow> string \<Rightarrow> int \<Rightarrow> string" where
  "calc_pos_tran_hash prev_hash body_hash validator_id slot =
     sha256_hex (prev_hash @ body_hash @ validator_id @ show_int slot)"

definition leading_zeros :: "string \<Rightarrow> nat" where
  "leading_zeros h = length h - length (dropWhile (\<lambda>c. c = CHR ''0'') h)"

definition meets_difficulty :: "string \<Rightarrow> int \<Rightarrow> bool" where
  "meets_difficulty h difficulty =
     (if difficulty \<le> 0 then False else difficulty \<le> int (leading_zeros h))"

definition genesis_hash :: "chain \<Rightarrow> string \<Rightarrow> string res" where
  "genesis_hash ch genesis_prev_hash =
     (case ch of
        [] \<Rightarrow> Inr genesis_prev_hash
      | b # _ \<Rightarrow>
          bindE (get_default b ''block_header'' (PDict [])) (\<lambda>first_header.
          bindE (get_default first_header ''prev_hash'' (PStr genesis_prev_hash)) (\<lambda>p.
          Inr (py_str p))))"

section \<open>The interface of a hash of fixed length\<close>

text \<open>
  A hash-linked sequence, seen from its start: each entry hashes the digest before it,
  a body digest and a rest.
\<close>

fun link_texts :: "(string \<Rightarrow> string) \<Rightarrow> string \<Rightarrow> (string \<times> string) list \<Rightarrow> string list" where
  "link_texts H g [] = []"
| "link_texts H g ((b, s) # es) = (g @ b @ s) # link_texts H (H (g @ b @ s)) es"

fun tip_digest :: "(string \<Rightarrow> string) \<Rightarrow> string \<Rightarrow> (string \<times> string) list \<Rightarrow> string" where
  "tip_digest H g [] = g"
| "tip_digest H g ((b, s) # es) = tip_digest H (H (g @ b @ s)) es"

definition collision_at :: "(string \<Rightarrow> string) \<Rightarrow> string list \<Rightarrow> string list \<Rightarrow> nat \<Rightarrow> bool" where
  "collision_at H xs ys i =
     (i < length xs \<and> i < length ys \<and> xs ! i \<noteq> ys ! i \<and> H (xs ! i) = H (ys ! i))"

lemma link_texts_length [simp]: "length (link_texts H g es) = length es"
  by (induction H g es rule: link_texts.induct) simp_all

lemma link_texts_snoc:
  "link_texts H g (es @ [(b, s)]) = link_texts H g es @ [tip_digest H g es @ b @ s]"
  by (induction H g es rule: link_texts.induct) simp_all

lemma tip_digest_snoc:
  "tip_digest H g (es @ [(b, s)]) = H (tip_digest H g es @ b @ s)"
  by (induction H g es rule: tip_digest.induct) simp_all

locale fixed_length_hash =
  fixes H :: "string \<Rightarrow> string" and n :: nat
  assumes H_length: "length (H s) = n"
begin

lemma tip_digest_length: "es \<noteq> [] \<Longrightarrow> length (tip_digest H g es) = n"
  by (cases es rule: rev_cases) (auto simp: tip_digest_snoc H_length)

text \<open>
  Two sequences of the same length from the same start with the same final digest are
  equal, or show a collision of the hash at one of their positions.
\<close>

theorem equal_tip_or_collision:
  assumes "length es = length fs"
    and "tip_digest H g es = tip_digest H g fs"
    and "list_all (\<lambda>(b, s). length b = m) es" and "list_all (\<lambda>(b, s). length b = m) fs"
  shows "es = fs \<or> (\<exists>i. collision_at H (link_texts H g es) (link_texts H g fs) i)"
  using assms
proof (induction es arbitrary: fs rule: rev_induct)
  case (snoc e es)
  from snoc.prems(1) obtain f fs' where fs: "fs = fs' @ [f]" "length es = length fs'"
    by (cases fs rule: rev_cases) simp_all
  obtain b s c t where e: "e = (b, s)" and f: "f = (c, t)" by (cases e; cases f) blast
  let ?x = "tip_digest H g es @ b @ s" and ?y = "tip_digest H g fs' @ c @ t"
  have H_eq: "H ?x = H ?y" using snoc.prems(2) by (simp add: fs e f tip_digest_snoc)
  have len: "length b = length c" using snoc.prems(3,4) by (simp add: fs e f)
  have tip: "length (tip_digest H g es) = length (tip_digest H g fs')"
    using fs(2) by (cases es; cases fs') (simp_all add: tip_digest_length)
  show ?case
  proof (cases "?x = ?y")
    case True
    with tip len have parts: "tip_digest H g es = tip_digest H g fs'" "b = c" "s = t" by simp_all
    with snoc.IH [OF fs(2)] snoc.prems(3,4)
    have "es = fs' \<or> (\<exists>i. collision_at H (link_texts H g es) (link_texts H g fs') i)"
      by (simp add: fs)
    then show ?thesis
      by (auto simp: fs e f parts link_texts_snoc collision_at_def nth_append)
  next
    case False
    with H_eq have "collision_at H (link_texts H g (es @ [e])) (link_texts H g fs) (length es)"
      by (simp add: fs e f collision_at_def link_texts_snoc nth_append)
    then show ?thesis by blast
  qed
qed simp

end

lemma sha256_hex_length [simp]: "length (sha256_hex s) = 64"
  by (simp add: sha256_hex_def bytes_hex_length sha256_length)

interpretation hex_digest: fixed_length_hash sha256_hex 64
  by unfold_locales simp

section \<open>Facts about the definitions\<close>

lemma body_text_inject:
  "body_text t = body_text u \<longleftrightarrow> json_dumps_sorted t = json_dumps_sorted u"
  by (simp add: body_text_def bytes_repr_inject utf8_encode_inject)

lemma calc_body_hash_length [simp]: "length (calc_body_hash t) = 64"
  by (simp add: calc_body_hash_def)

lemma leading_zeros_prefix:
  "leading_zeros h = length (takeWhile (\<lambda>c. c = CHR ''0'') h)"
  by (induction h) (simp_all add: leading_zeros_def Suc_diff_le length_dropWhile_le)

text \<open>The digest starts with \<open>difficulty\<close> zeros, and that many zeros suffice.\<close>

lemma takeWhile_length_iff:
  "k \<le> length (takeWhile P xs) \<longleftrightarrow> k \<le> length xs \<and> list_all P (take k xs)"
proof (induction xs arbitrary: k)
  case (Cons x xs)
  then show ?case by (cases k) simp_all
qed simp

lemma meets_difficulty_iff:
  "meets_difficulty h d \<longleftrightarrow>
   0 < d \<and> d \<le> int (length h) \<and> take (nat d) h = replicate (nat d) CHR ''0''"
proof -
  let ?k = "nat d"
  have "list_all (\<lambda>c. c = CHR ''0'') (take ?k h) \<longleftrightarrow> take ?k h = replicate ?k CHR ''0''"
    if "?k \<le> length h"
  proof
    assume "list_all (\<lambda>c. c = CHR ''0'') (take ?k h)"
    then show "take ?k h = replicate ?k CHR ''0''"
      using that by (intro replicate_eqI) (simp_all add: list_all_iff)
  qed (simp add: list_all_length)
  moreover have "d \<le> int (leading_zeros h) \<longleftrightarrow> ?k \<le> leading_zeros h" if "0 < d"
    using that by linarith
  ultimately show ?thesis
    by (auto simp: meets_difficulty_def leading_zeros_prefix takeWhile_length_iff)
qed

lemma meets_difficulty_antimono:
  "meets_difficulty h d \<Longrightarrow> 0 < d' \<Longrightarrow> d' \<le> d \<Longrightarrow> meets_difficulty h d'"
  by (simp add: meets_difficulty_def split: if_splits)

lemma meets_difficulty_bound: "meets_difficulty (sha256_hex s) d \<Longrightarrow> d \<le> 64"
  by (simp add: meets_difficulty_iff)

end
