(* ===== verification/Consensus_Base.thy ===== *)
theory Consensus_Base
  imports Hash_Utils
begin

text \<open>
  \<open>consensus/base.py\<close>: the link between a block and its predecessor, which every
  consensus shares, and the order of the scores the consensus classes compare chains by.
  The locale \<open>sealing_protocol\<close> is what the chain-wide arguments need of a consensus:
  an accepted block carries the digest of its previous hash, its body and a rest.
\<close>

section \<open>Access to the header\<close>

text \<open>\<open>block["block_header"][k]\<close>.\<close>

definition header_item :: "block \<Rightarrow> string \<Rightarrow> pyval res" where
  "header_item b k = bindE (getitem b ''block_header'') (\<lambda>h. getitem h k)"

lemma header_item_Inr [res_simps]:
  "header_item b k = Inr w \<longleftrightarrow> (\<exists>h. getitem b ''block_header'' = Inr h \<and> getitem h k = Inr w)"
  by (simp add: header_item_def res_simps)

lemma py_eq_PStr [simp]: "py_eq v (PStr s) \<longleftrightarrow> v = PStr s"
  by (cases v) (auto simp: num_eq_def)

lemma PStr_py_eq: "py_eq (PStr s) w \<longleftrightarrow> w = PStr s"
  by simp

lemma as_str_Inr [res_simps]: "as_str v = Inr s \<longleftrightarrow> v = PStr s"
  by (auto simp: as_str_def split: pyval.splits)

section \<open>\<open>validate_chain_link\<close>\<close>

text \<open>
  \<open>self_genesis\<close> is the attribute \<open>genesis_prev_hash\<close> of the consensus object, used
  when the argument is \<open>None\<close> or empty.
\<close>

definition expected_genesis :: "string \<Rightarrow> string option \<Rightarrow> string" where
  "expected_genesis self_genesis g =
     (case g of Some s \<Rightarrow> if s = [] then self_genesis else s | None \<Rightarrow> self_genesis)"

definition validate_chain_link ::
    "string \<Rightarrow> block \<Rightarrow> block option \<Rightarrow> string option \<Rightarrow> validation_result res" where
  "validate_chain_link self_genesis b prev g =
     (case prev of
        None \<Rightarrow>
          bindE (getitem b ''block_index'') (\<lambda>i.
          if \<not> py_eq i (PInt 1) then Inr (rejected ''first block_index must be 1'')
          else bindE (header_item b ''prev_hash'') (\<lambda>p.
          if \<not> py_eq p (PStr (expected_genesis self_genesis g))
          then Inr (rejected ''genesis prev_hash mismatch'')
          else Inr accepted))
      | Some pb \<Rightarrow>
          bindE (header_item pb ''tran_hash'') (\<lambda>prev_tran.
          bindE (header_item b ''prev_hash'') (\<lambda>p.
          if \<not> py_eq p prev_tran then Inr (rejected ''prev_hash mismatch'')
          else bindE (getitem b ''block_index'') (\<lambda>i.
          bindE (getitem pb ''block_index'') (\<lambda>pi.
          bindE (py_succ pi) (\<lambda>next.
          if \<not> py_eq i next then Inr (rejected ''block_index mismatch'')
          else Inr accepted))))))"

lemma validate_chain_link_first:
  "validate_chain_link sg b None g = Inr accepted \<longleftrightarrow>
   (\<exists>i. getitem b ''block_index'' = Inr i \<and> py_eq i (PInt 1)) \<and>
   header_item b ''prev_hash'' = Inr (PStr (expected_genesis sg g))"
  by (auto simp: validate_chain_link_def res_simps accepted_def rejected_def split: if_splits)

lemma validate_chain_link_next:
  "validate_chain_link sg b (Some pb) g = Inr accepted \<longleftrightarrow>
   (\<exists>t p. header_item pb ''tran_hash'' = Inr t \<and> header_item b ''prev_hash'' = Inr p \<and>
      py_eq p t) \<and>
   (\<exists>i j k. getitem b ''block_index'' = Inr i \<and> getitem pb ''block_index'' = Inr j \<and>
      py_succ j = Inr k \<and> py_eq i k)"
  (is "?l \<longleftrightarrow> ?r")
proof
  show "?l \<Longrightarrow> ?r"
    by (auto simp: validate_chain_link_def res_simps accepted_def rejected_def split: if_splits)
  show "?r \<Longrightarrow> ?l" by (auto simp: validate_chain_link_def bindE_def)
qed

text \<open>Every answer of the link check is the positive one or a rejection.\<close>

lemma validate_chain_link_valid:
  "validate_chain_link sg b prev g = Inr r \<Longrightarrow> valid r \<longleftrightarrow> r = accepted"
  by (auto simp: validate_chain_link_def res_simps split: option.splits if_splits)

text \<open>A check followed by the rest of a loop body that gives up on a rejection.\<close>

lemma check_then:
  assumes "\<And>r. m = Inr r \<Longrightarrow> valid r \<longleftrightarrow> r = accepted" and "no \<noteq> Inr y"
  shows "bindE m (\<lambda>r. if \<not> valid r then no else rest) = Inr y \<longleftrightarrow>
    m = Inr accepted \<and> rest = Inr y"
  using assms by (cases m) auto

section \<open>Scores\<close>

text \<open>
  \<open>score_chain\<close> and the sort keys of \<open>select_canonical_chain\<close>: Python compares the
  tuples lexicographically.  A proof-of-work score has no third component; it is empty.
\<close>

datatype chain_score = Score (primary: int) (secondary: int) (tie_break: string)

instantiation chain_score :: linorder
begin

definition less_eq_chain_score :: "chain_score \<Rightarrow> chain_score \<Rightarrow> bool" where
  "less_eq_chain_score x y \<longleftrightarrow>
     primary x < primary y \<or> (primary x = primary y \<and>
     (secondary x < secondary y \<or> (secondary x = secondary y \<and> tie_break x \<le> tie_break y)))"

definition less_chain_score :: "chain_score \<Rightarrow> chain_score \<Rightarrow> bool" where
  "less_chain_score x y \<longleftrightarrow> x \<le> y \<and> \<not> y \<le> (x :: chain_score)"

instance
proof
  fix x y z :: chain_score
  show "x \<le> x" by (simp add: less_eq_chain_score_def)
  show "x < y \<longleftrightarrow> x \<le> y \<and> \<not> y \<le> x" by (rule less_chain_score_def)
  show "x \<le> y \<Longrightarrow> y \<le> z \<Longrightarrow> x \<le> z" by (auto simp: less_eq_chain_score_def)
  show "x \<le> y \<Longrightarrow> y \<le> x \<Longrightarrow> x = y"
    by (cases x; cases y) (auto simp: less_eq_chain_score_def)
  show "x \<le> y \<or> y \<le> x" by (auto simp: less_eq_chain_score_def)
qed

end

text \<open>\<open>max(xs, key=f)\<close> returns the first element with the greatest key.\<close>

fun max_by_from :: "('a \<Rightarrow> 'k::linorder) \<Rightarrow> 'a \<Rightarrow> 'a list \<Rightarrow> 'a" where
  "max_by_from f best [] = best"
| "max_by_from f best (x # xs) = max_by_from f (if f best < f x then x else best) xs"

definition py_max_by :: "('a \<Rightarrow> 'k::linorder) \<Rightarrow> 'a list \<Rightarrow> 'a res" where
  "py_max_by f xs =
     (case xs of [] \<Rightarrow> Inl ValueError | x # r \<Rightarrow> Inr (max_by_from f x r))"

lemma max_by_from_in: "max_by_from f b xs \<in> insert b (set xs)"
  by (induction f b xs rule: max_by_from.induct) auto

lemma max_by_from_ge: "y \<in> insert b (set xs) \<Longrightarrow> f y \<le> f (max_by_from f b xs)"
proof (induction xs arbitrary: b y)
  case (Cons x xs)
  let ?b = "if f b < f x then x else b"
  have tail: "f z \<le> f (max_by_from f ?b xs)" if "z \<in> insert ?b (set xs)" for z
    using that by (rule Cons.IH)
  have "f b \<le> f ?b" "f x \<le> f ?b" by auto
  then have "f b \<le> f (max_by_from f ?b xs)" "f x \<le> f (max_by_from f ?b xs)"
    using tail [OF insertI1] by (blast intro: order_trans)+
  then show ?case using Cons.prems tail by auto
qed simp

lemma max_by_from_stable: "\<forall>y \<in> set xs. f y \<le> f b \<Longrightarrow> max_by_from f b xs = b"
  by (induction xs) (auto simp: not_less)

lemma max_by_from_first:
  "\<exists>i \<le> length xs. (b # xs) ! i = max_by_from f b xs \<and>
     (\<forall>j < i. f ((b # xs) ! j) < f (max_by_from f b xs))"
proof (induction xs arbitrary: b)
  case (Cons x xs)
  show ?case
  proof (cases "f b < f x")
    case True
    from Cons.IH [of x] obtain i where i: "i \<le> length xs" "(x # xs) ! i = max_by_from f x xs"
      "\<forall>j < i. f ((x # xs) ! j) < f (max_by_from f x xs)" by blast
    have "f x \<le> f (max_by_from f x xs)" by (rule max_by_from_ge) simp
    with True i have "\<forall>j < Suc i. f ((b # x # xs) ! j) < f (max_by_from f x xs)"
      by (auto simp: less_Suc_eq_0_disj)
    with True i show ?thesis by (intro exI [of _ "Suc i"]) simp
  next
    case False
    from Cons.IH [of b] obtain i where i: "i \<le> length xs" "(b # xs) ! i = max_by_from f b xs"
      "\<forall>j < i. f ((b # xs) ! j) < f (max_by_from f b xs)" by blast
    show ?thesis
    proof (cases i)
      case 0
      with i False show ?thesis by (intro exI [of _ 0]) simp
    next
      case (Suc k)
      then have "f b < f (max_by_from f b xs)" using i(3) by auto
      with i Suc False have "\<forall>j < Suc i. f ((b # x # xs) ! j) < f (max_by_from f b xs)"
        by (auto simp: less_Suc_eq_0_disj)
      with i Suc False show ?thesis by (intro exI [of _ "Suc i"]) simp
    qed
  qed
qed simp

text \<open>The first of the elements with the greatest key.\<close>

definition first_best :: "('a \<Rightarrow> 'k::linorder) \<Rightarrow> 'a list \<Rightarrow> nat \<Rightarrow> bool" where
  "first_best f xs i =
     (i < length xs \<and> (\<forall>j < i. f (xs ! j) < f (xs ! i)) \<and> (\<forall>x \<in> set xs. f x \<le> f (xs ! i)))"

lemma py_max_by_first:
  assumes "py_max_by f xs = Inr x"
  shows "\<exists>i. x = xs ! i \<and> first_best f xs i"
proof -
  from assms obtain y ys where xs: "xs = y # ys" and x: "x = max_by_from f y ys"
    by (auto simp: py_max_by_def split: list.splits)
  obtain i where "i \<le> length ys" "xs ! i = x" "\<forall>j < i. f (xs ! j) < f x"
    using max_by_from_first [of ys y f] unfolding xs x by blast
  moreover have "\<forall>z \<in> set xs. f z \<le> f x"
    using max_by_from_ge [of _ y ys f] unfolding xs x by auto
  ultimately show ?thesis unfolding first_best_def xs
    by (intro exI [of _ i]) auto
qed

text \<open>\<open>max(candidates, key=score)\<close> with a key that may raise.\<close>

definition best_chain :: "(chain \<Rightarrow> chain_score res) \<Rightarrow> chain list \<Rightarrow> chain res" where
  "best_chain score cs =
     bindE (mapE (\<lambda>c. bindE (score c) (\<lambda>k. Inr (k, c))) cs) (\<lambda>kcs.
     bindE (py_max_by fst kcs) (\<lambda>kc. Inr (snd kc)))"

primrec filterE :: "('a \<Rightarrow> bool res) \<Rightarrow> 'a list \<Rightarrow> 'a list res" where
  "filterE p [] = Inr []"
| "filterE p (x # xs) =
     bindE (p x) (\<lambda>b. bindE (filterE p xs) (\<lambda>ys. Inr (if b then x # ys else ys)))"

lemma filterE_Inr:
  "filterE p xs = Inr ys \<Longrightarrow>
   ys = filter (\<lambda>x. p x = Inr True) xs \<and> (\<forall>x \<in> set xs. \<exists>b. p x = Inr b)"
  by (induction xs arbitrary: ys) (auto simp: res_simps)

text \<open>What \<open>best_chain\<close> returns: the first candidate that no other one outscores.\<close>

definition chosen :: "(chain \<Rightarrow> chain_score res) \<Rightarrow> chain list \<Rightarrow> chain \<Rightarrow> bool" where
  "chosen score cs c \<longleftrightarrow>
     (\<exists>i k. i < length cs \<and> c = cs ! i \<and> score c = Inr k \<and>
        (\<forall>j < length cs. \<exists>k'. score (cs ! j) = Inr k' \<and> k' \<le> k \<and> (j < i \<longrightarrow> k' < k)))"

lemma best_chain_chosen:
  assumes "best_chain score cs = Inr c" shows "chosen score cs c"
proof -
  from assms obtain kcs kc where kcs: "mapE (\<lambda>c. bindE (score c) (\<lambda>k. Inr (k, c))) cs = Inr kcs"
    and kc: "py_max_by fst kcs = Inr kc" and c: "c = snd kc"
    by (auto simp: best_chain_def res_simps)
  have len: "length kcs = length cs" using mapE_length [OF kcs] .
  have nth: "snd (kcs ! j) = cs ! j \<and> score (cs ! j) = Inr (fst (kcs ! j))" if "j < length cs" for j
    using mapE_nth [OF kcs that] by (auto simp: res_simps prod_eq_iff)
  obtain i where kci: "kc = kcs ! i" and best: "first_best fst kcs i"
    using py_max_by_first [OF kc] by blast
  then have i: "i < length cs" by (simp add: first_best_def len)
  have "\<exists>k'. score (cs ! j) = Inr k' \<and> k' \<le> fst (kcs ! i) \<and> (j < i \<longrightarrow> k' < fst (kcs ! i))"
    if "j < length cs" for j
    using nth [OF that] best that by (auto simp: first_best_def len)
  with i show ?thesis unfolding chosen_def c kci
    by (intro exI [of _ i] exI [of _ "fst (kcs ! i)"]) (simp add: nth)
qed

lemma chosen_in: "chosen score cs c \<Longrightarrow> c \<in> set cs"
  by (auto simp: chosen_def)

section \<open>What a chain of accepted blocks proves\<close>

text \<open>
  The parts of a block that its hash covers.  \<open>seal_text\<close> is what follows the digest of
  the body: nothing in a block without consensus, the nonce of a proof-of-work block, the
  validator and the slot of a proof-of-stake block.
\<close>

definition header_text :: "block \<Rightarrow> string \<Rightarrow> string" where
  "header_text b k = (case header_item b k of Inr (PStr s) \<Rightarrow> s | _ \<Rightarrow> [])"

definition header_int :: "block \<Rightarrow> string \<Rightarrow> int" where
  "header_int b k =
     (case bindE (header_item b k) py_int of Inr n \<Rightarrow> n | Inl _ \<Rightarrow> 0)"

definition block_body :: "block \<Rightarrow> pyval" where
  "block_body b = (case getitem b ''tran_body'' of Inr t \<Rightarrow> t | Inl _ \<Rightarrow> PNone)"

definition seal_text :: "block \<Rightarrow> string" where
  "seal_text b =
     (let c = header_text b ''consensus_type'' in
      if c = ''pow'' then show_int (header_int b ''nonce'')
      else if c = ''pos'' then header_text b ''validator_id'' @ show_int (header_int b ''slot'')
      else [])"

definition block_text :: "block \<Rightarrow> string" where
  "block_text b = header_text b ''prev_hash'' @ calc_body_hash (block_body b) @ seal_text b"

text \<open>The block has a body, and its hash is the digest of its text.\<close>

definition sealed :: "block \<Rightarrow> bool" where
  "sealed b =
     (header_item b ''prev_hash'' = Inr (PStr (header_text b ''prev_hash'')) \<and>
      getitem b ''tran_body'' = Inr (block_body b) \<and>
      header_item b ''tran_hash'' = Inr (PStr (sha256_hex (block_text b))))"

text \<open>A chain is sealed from \<open>g\<close> on when every block names the hash of the one before.\<close>

fun seals :: "string \<Rightarrow> chain \<Rightarrow> bool" where
  "seals g [] = True"
| "seals g (b # bs) =
     (sealed b \<and> header_text b ''prev_hash'' = g \<and> seals (sha256_hex (block_text b)) bs)"

text \<open>The blocks of a list follow one another, each accepted as successor of the one before.\<close>

fun linked :: "string \<Rightarrow> block option \<Rightarrow> chain \<Rightarrow> bool" where
  "linked g prev [] = True"
| "linked g prev (b # bs) =
     (validate_chain_link g b prev (Some g) = Inr accepted \<and> linked g (Some b) bs)"

lemma linked_append:
  "linked g prev (xs @ ys) \<longleftrightarrow>
   linked g prev xs \<and> linked g (if xs = [] then prev else Some (last xs)) ys"
  by (induction xs arbitrary: prev) auto

text \<open>The acceptance test of a consensus, as far as the chain-wide argument needs it.\<close>

locale sealing_protocol =
  fixes accepts :: "block \<Rightarrow> bool"
  assumes accepts_sealed: "accepts b \<Longrightarrow> sealed b"
begin

lemma linked_seals_after:
  assumes "linked g (Some pb) bs" "list_all accepts bs"
    and "header_item pb ''tran_hash'' = Inr (PStr h)"
  shows "seals h bs"
  using assms
proof (induction bs arbitrary: pb h)
  case (Cons b bs)
  then have s: "sealed b" by (simp add: accepts_sealed)
  with Cons.prems have "header_text b ''prev_hash'' = h"
    by (auto simp: validate_chain_link_next sealed_def)
  moreover have "seals (sha256_hex (block_text b)) bs"
    using Cons.prems s by (intro Cons.IH [of b]) (simp_all add: sealed_def)
  ultimately show ?case using s by simp
qed simp

theorem linked_seals:
  assumes "linked g None bs" "list_all accepts bs"
  shows "seals g bs"
proof (cases bs)
  case (Cons b r)
  with assms have s: "sealed b" by (simp add: accepts_sealed)
  with assms Cons have "header_text b ''prev_hash'' = g"
    by (cases "g = []") (auto simp: validate_chain_link_first sealed_def expected_genesis_def)
  moreover have "seals (sha256_hex (block_text b)) r"
    using assms Cons s by (intro linked_seals_after [of g b]) (simp_all add: sealed_def)
  ultimately show ?thesis using s Cons by simp
qed simp

end

text \<open>A sealed chain is a hash-linked sequence in the sense of \<open>fixed_length_hash\<close>.\<close>

definition entries :: "chain \<Rightarrow> (string \<times> string) list" where
  "entries bs = map (\<lambda>b. (calc_body_hash (block_body b), seal_text b)) bs"

lemma entries_lengths: "list_all (\<lambda>(b, s). length b = 64) (entries bs)"
  by (induction bs) (auto simp: entries_def)

lemma seals_link_texts: "seals g bs \<Longrightarrow> link_texts sha256_hex g (entries bs) = map block_text bs"
  by (induction g bs rule: seals.induct) (auto simp: entries_def block_text_def)

lemma seals_tip:
  "seals g bs \<Longrightarrow> bs \<noteq> [] \<Longrightarrow>
   header_item (last bs) ''tran_hash'' = Inr (PStr (tip_digest sha256_hex g (entries bs)))"
proof (induction g bs rule: seals.induct)
  case (2 g b bs)
  then show ?case by (cases bs) (auto simp: sealed_def entries_def block_text_def)
qed simp

text \<open>
  Two chains sealed from the same genesis, equally long and with the same tip hash, carry
  bodies with the same canonical JSON text, or SHA-256 collides on two texts that were
  hashed for the blocks, or for the bodies, at one of the positions.
\<close>

definition same_content :: "block \<Rightarrow> block \<Rightarrow> bool" where
  "same_content b c =
     (json_dumps_sorted (block_body b) = json_dumps_sorted (block_body c) \<and> seal_text b = seal_text c)"

definition hash_collision :: "chain \<Rightarrow> chain \<Rightarrow> nat \<Rightarrow> bool" where
  "hash_collision bs cs i =
     (collision_at sha256_hex (map block_text bs) (map block_text cs) i \<or>
      collision_at sha256_hex (map (body_text \<circ> block_body) bs) (map (body_text \<circ> block_body) cs) i)"

lemma seals_equal_tip:
  assumes "seals g bs" "seals g cs" "length bs = length cs" "bs \<noteq> []"
    and "header_item (last bs) ''tran_hash'' = header_item (last cs) ''tran_hash''"
  shows "list_all2 same_content bs cs \<or> (\<exists>i. hash_collision bs cs i)"
proof -
  have "cs \<noteq> []" using assms(3,4) by auto
  from seals_tip [OF assms(2) this]
  have "tip_digest sha256_hex g (entries bs) = tip_digest sha256_hex g (entries cs)"
    using seals_tip [OF assms(1,4)] assms(5) by simp
  then consider "entries bs = entries cs" | "\<exists>i. hash_collision bs cs i"
    using hex_digest.equal_tip_or_collision [of "entries bs" "entries cs" g 64] assms(3)
      seals_link_texts [OF assms(1)] seals_link_texts [OF assms(2)]
    by (auto simp: entries_lengths hash_collision_def) (auto simp: entries_def)
  then show ?thesis
  proof cases
    case 1
    have eq: "calc_body_hash (block_body (bs ! i)) = calc_body_hash (block_body (cs ! i)) \<and>
        seal_text (bs ! i) = seal_text (cs ! i)" if "i < length bs" for i
      using arg_cong [OF 1, of "\<lambda>es. es ! i"] that assms(3) by (simp add: entries_def)
    show ?thesis
    proof (cases "\<forall>i < length bs. body_text (block_body (bs ! i)) = body_text (block_body (cs ! i))")
      case True
      then show ?thesis using eq assms(3)
        by (simp add: list_all2_conv_all_nth same_content_def body_text_inject)
    next
      case False
      then obtain i where "i < length bs" "body_text (block_body (bs ! i)) \<noteq> body_text (block_body (cs ! i))"
        by blast
      then have "hash_collision bs cs i"
        using eq [of i] assms(3) by (simp add: hash_collision_def collision_at_def calc_body_hash_def)
      then show ?thesis by blast
    qed
  qed blast
qed

end
