(* ===== verification/Signature.thy ===== *)
theory Signature
  imports Ebc_Types
begin

text \<open>
  \<open>signature.py\<close>: the class \<open>SignatureManager\<close>.  RSA, PSS and the key formats belong to
  the package \<open>cryptography\<close>, which is an argument of every operation here: a record of
  its functions.  A key object is identified with its DER encoding.  \<open>rsa_laws\<close> states the
  documented behaviour the round trips rely on.
\<close>

section \<open>The library\<close>

text \<open>What a loader returns: an RSA key, or a key of another algorithm.\<close>

datatype loaded_key = RsaKey bytes | OtherKey

lemma loaded_key_case_eq_Inr [res_simps]:
  "(case k of RsaKey x \<Rightarrow> f x | OtherKey \<Rightarrow> a) = Inr y \<longleftrightarrow>
   (\<exists>x. k = RsaKey x \<and> f x = Inr y) \<or> (k = OtherKey \<and> a = Inr y)"
  by (cases k) simp_all

record rsa_library =
  lib_generate :: "nat \<Rightarrow> int \<Rightarrow> bytes res"
  lib_public :: "bytes \<Rightarrow> bytes"
  lib_sign :: "nat \<Rightarrow> bytes \<Rightarrow> bytes \<Rightarrow> bytes res"
  lib_verify :: "bytes \<Rightarrow> bytes \<Rightarrow> bytes \<Rightarrow> bool"
  lib_key_size :: "bytes \<Rightarrow> int"
  lib_load_private_pem :: "bytes \<Rightarrow> loaded_key res"
  lib_load_private_der :: "bytes \<Rightarrow> loaded_key res"
  lib_load_public_pem :: "bytes \<Rightarrow> loaded_key res"
  lib_load_public_der :: "bytes \<Rightarrow> loaded_key res"
  lib_private_pem :: "bytes \<Rightarrow> bytes"
  lib_private_der :: "bytes \<Rightarrow> bytes"
  lib_public_pem :: "bytes \<Rightarrow> bytes"
  lib_public_der :: "bytes \<Rightarrow> bytes"

text \<open>
  The first argument of \<open>lib_generate\<close> and \<open>lib_sign\<close> is the randomness the library draws.
\<close>

section \<open>The manager\<close>

record signature_manager =
  sm_private :: "bytes option"
  sm_public :: "bytes option"

definition new_manager :: signature_manager where
  "new_manager = \<lparr>sm_private = None, sm_public = None\<rparr>"

definition generate_key_pair ::
    "rsa_library \<Rightarrow> nat \<Rightarrow> int \<Rightarrow> signature_manager \<Rightarrow> signature_manager res" where
  "generate_key_pair L rnd key_size m =
     bindE (lib_generate L rnd key_size) (\<lambda>sk.
     Inr (m\<lparr>sm_private := Some sk, sm_public := Some (lib_public L sk)\<rparr>))"

text \<open>The text that is signed: JSON of a dict, a string itself, \<open>str\<close> of anything else.\<close>

definition signing_text :: "pyval \<Rightarrow> string" where
  "signing_text data =
     (case data of PDict _ \<Rightarrow> json_dumps_sorted data | PStr s \<Rightarrow> s | _ \<Rightarrow> py_str data)"

definition sign_data :: "rsa_library \<Rightarrow> nat \<Rightarrow> signature_manager \<Rightarrow> pyval \<Rightarrow> bytes res" where
  "sign_data L rnd m data =
     (case sm_private m of
        None \<Rightarrow> Inl ValueError
      | Some sk \<Rightarrow> lib_sign L rnd sk (utf8_encode (signing_text data)))"

definition verify_signature ::
    "rsa_library \<Rightarrow> signature_manager \<Rightarrow> pyval \<Rightarrow> bytes \<Rightarrow> loaded_key option \<Rightarrow> bool res" where
  "verify_signature L m data sig public_key =
     bindE (case public_key of
        None \<Rightarrow> (case sm_public m of None \<Rightarrow> Inl ValueError | Some pk \<Rightarrow> Inr (RsaKey pk))
      | Some k \<Rightarrow> Inr k) (\<lambda>verify_key.
     case verify_key of
       OtherKey \<Rightarrow> Inr False
     | RsaKey pk \<Rightarrow>
         if int (length sig) \<noteq> lib_key_size L pk div 8 then Inr False
         else Inr (lib_verify L pk sig (utf8_encode (signing_text data))))"

section \<open>Key formats\<close>

definition lower_char :: "char \<Rightarrow> char" where
  "lower_char c = (if 65 \<le> code c \<and> code c \<le> 90 then char_of (code c + 32) else c)"

definition export_private_key ::
    "rsa_library \<Rightarrow> signature_manager \<Rightarrow> string \<Rightarrow> bytes res" where
  "export_private_key L m fmt =
     (case sm_private m of
        None \<Rightarrow> Inl ValueError
      | Some sk \<Rightarrow>
          if map lower_char fmt = ''pem'' then Inr (lib_private_pem L sk)
          else if map lower_char fmt = ''der'' then Inr (lib_private_der L sk)
          else Inl ValueError)"

definition export_public_key ::
    "rsa_library \<Rightarrow> signature_manager \<Rightarrow> string \<Rightarrow> bytes res" where
  "export_public_key L m fmt =
     (case sm_public m of
        None \<Rightarrow> Inl ValueError
      | Some pk \<Rightarrow>
          if map lower_char fmt = ''pem'' then Inr (lib_public_pem L pk)
          else if map lower_char fmt = ''der'' then Inr (lib_public_der L pk)
          else Inl ValueError)"

text \<open>\<open>key_data.lstrip().startswith(b"-----")\<close>.\<close>

definition looks_pem :: "bytes \<Rightarrow> bool" where
  "looks_pem key_data = (take 5 (dropWhile ascii_space key_data) = ''-----'')"

definition import_private_key ::
    "rsa_library \<Rightarrow> signature_manager \<Rightarrow> bytes \<Rightarrow> signature_manager res" where
  "import_private_key L m key_data =
     bindE (if looks_pem key_data then lib_load_private_pem L key_data
            else lib_load_private_der L key_data) (\<lambda>k.
     case k of
       OtherKey \<Rightarrow> Inl ValueError
     | RsaKey sk \<Rightarrow> Inr (m\<lparr>sm_private := Some sk, sm_public := Some (lib_public L sk)\<rparr>))"

definition import_public_key :: "rsa_library \<Rightarrow> bytes \<Rightarrow> loaded_key res" where
  "import_public_key L key_data =
     bindE (if looks_pem key_data then lib_load_public_pem L key_data
            else lib_load_public_der L key_data) (\<lambda>k.
     case k of OtherKey \<Rightarrow> Inl ValueError | RsaKey pk \<Rightarrow> Inr k)"

section \<open>Blocks\<close>

text \<open>
  \<open>public_key_pem.decode("utf-8")\<close>: PEM text is ASCII, where decoding is the identity;
  other bytes are rejected here.
\<close>

definition ascii_decode :: "bytes \<Rightarrow> string res" where
  "ascii_decode bs = (if list_all (\<lambda>c. code c < 128) bs then Inr bs else Inl ValueError)"

definition signature_keys :: "string set" where
  "signature_keys = {''signature'', ''public_key''}"

definition unsigned_items :: "pydict \<Rightarrow> pydict" where
  "unsigned_items kvs = filter (\<lambda>(k, v). k \<notin> signature_keys) kvs"

definition sign_block :: "rsa_library \<Rightarrow> nat \<Rightarrow> signature_manager \<Rightarrow> block \<Rightarrow> block res" where
  "sign_block L rnd m block_data =
     (case block_data of
        PDict kvs \<Rightarrow>
          let payload = unsigned_items kvs in
          bindE (sign_data L rnd m (PDict payload)) (\<lambda>sig.
          bindE (export_public_key L m ''pem'') (\<lambda>pem.
          bindE (ascii_decode pem) (\<lambda>pem_text.
          Inr (PDict (AList.update ''public_key'' (PStr pem_text)
                 (AList.update ''signature'' (PStr (bytes_hex sig)) payload))))))
      | _ \<Rightarrow> Inl AttributeError)"

definition verify_block_signature ::
    "rsa_library \<Rightarrow> signature_manager \<Rightarrow> block \<Rightarrow> bool res" where
  "verify_block_signature L m b =
     (case b of
        PDict kvs \<Rightarrow>
          (case (map_of kvs ''signature'', map_of kvs ''public_key'') of
             (Some (PStr signature_hex), Some (PStr public_key)) \<Rightarrow>
               catchE
                 (bindE (fromhex signature_hex) (\<lambda>sig.
                  bindE (import_public_key L (utf8_encode public_key)) (\<lambda>k.
                  verify_signature L m (PDict (AList.delete ''public_key''
                    (AList.delete ''signature'' kvs))) sig (Some k))))
                 [ValueError, TypeError, UnsupportedAlgorithm] (Inr False)
           | _ \<Rightarrow> Inr False)
      | PList _ \<Rightarrow> Inr False
      | PStr _ \<Rightarrow> Inr False
      | _ \<Rightarrow> Inl TypeError)"

section \<open>The documented behaviour of the library\<close>

definition rsa_laws :: "rsa_library \<Rightarrow> bool" where
  "rsa_laws L =
     ((\<forall>rnd sk msg sig. lib_sign L rnd sk msg = Inr sig \<longrightarrow>
         lib_verify L (lib_public L sk) sig msg \<and>
         int (length sig) = lib_key_size L (lib_public L sk) div 8) \<and>
      (\<forall>pk. lib_load_public_pem L (lib_public_pem L pk) = Inr (RsaKey pk) \<and>
         looks_pem (lib_public_pem L pk) \<and> list_all (\<lambda>c. code c < 128) (lib_public_pem L pk)))"

text \<open>The manager's two keys belong together: what generating and importing establish.\<close>

definition manager_ok :: "rsa_library \<Rightarrow> signature_manager \<Rightarrow> bool" where
  "manager_ok L m =
     (case sm_private m of None \<Rightarrow> True | Some sk \<Rightarrow> sm_public m = Some (lib_public L sk))"

lemma manager_ok_new [simp]: "manager_ok L new_manager"
  by (simp add: manager_ok_def new_manager_def)

lemma manager_ok_generate:
  "generate_key_pair L rnd n m = Inr m' \<Longrightarrow> manager_ok L m'"
  by (auto simp: generate_key_pair_def res_simps manager_ok_def)

lemma manager_ok_import:
  "import_private_key L m bs = Inr m' \<Longrightarrow> manager_ok L m'"
  by (auto simp: import_private_key_def manager_ok_def res_simps)

section \<open>What is signed is what is verified\<close>

lemma utf8_encode_ascii: "list_all (\<lambda>c. code c < 128) s \<Longrightarrow> utf8_encode s = s"
  by (induction s) (simp_all add: utf8_encode_def utf8_char_def)

lemma unsigned_items_keys: "k \<in> signature_keys \<Longrightarrow> k \<notin> fst ` set (unsigned_items kvs)"
  by (auto simp: unsigned_items_def)

lemma strip_signature:
  "AList.delete ''public_key'' (AList.delete ''signature''
     (AList.update ''public_key'' p (AList.update ''signature'' s (unsigned_items kvs)))) =
   unsigned_items kvs"
proof -
  have "''public_key'' \<in> signature_keys" "''signature'' \<in> signature_keys"
    by (simp_all add: signature_keys_def)
  note out = this [THEN unsigned_items_keys, of kvs]
  then show ?thesis by (simp add: delete_update delete_update_same)
qed

lemma import_exported_key:
  assumes "rsa_laws L"
  shows "import_public_key L (lib_public_pem L pk) = Inr (RsaKey pk)"
    and "ascii_decode (lib_public_pem L pk) = Inr (lib_public_pem L pk)"
    and "utf8_encode (lib_public_pem L pk) = lib_public_pem L pk"
  using assms by (simp_all add: rsa_laws_def import_public_key_def ascii_decode_def utf8_encode_ascii)

lemma verify_own_signature:
  assumes "rsa_laws L" "manager_ok L m" "sign_data L rnd m data = Inr sig"
  shows "\<exists>pk. sm_public m = Some pk \<and>
    verify_signature L v data sig (Some (RsaKey pk)) = Inr True"
  using assms
  by (auto simp: sign_data_def manager_ok_def verify_signature_def rsa_laws_def
      split: option.splits)

lemma sign_block_Inr:
  assumes "rsa_laws L" "sign_block L rnd m b = Inr b'"
  shows "\<exists>kvs sig pk. b = PDict kvs \<and> sign_data L rnd m (PDict (unsigned_items kvs)) = Inr sig \<and>
    sm_public m = Some pk \<and>
    b' = PDict (AList.update ''public_key'' (PStr (lib_public_pem L pk))
           (AList.update ''signature'' (PStr (bytes_hex sig)) (unsigned_items kvs)))"
proof -
  from assms(2) obtain kvs where kvs: "b = PDict kvs"
    by (cases b) (simp_all add: sign_block_def)
  with assms show ?thesis
    by (auto simp: sign_block_def res_simps Let_def export_public_key_def lower_char_def
        import_exported_key(2))
qed

lemma signed_block_verifies:
  assumes "rsa_laws L" "manager_ok L m" "sign_block L rnd m b = Inr b'"
  shows "verify_block_signature L v b' = Inr True"
proof -
  from sign_block_Inr [OF assms(1,3)] obtain kvs sig pk where
    b': "b' = PDict (AList.update ''public_key'' (PStr (lib_public_pem L pk))
           (AList.update ''signature'' (PStr (bytes_hex sig)) (unsigned_items kvs)))"
    and sig: "sign_data L rnd m (PDict (unsigned_items kvs)) = Inr sig" and pk: "sm_public m = Some pk"
    by blast
  have "verify_signature L v (PDict (unsigned_items kvs)) sig (Some (RsaKey pk)) = Inr True"
    using verify_own_signature [OF assms(1,2) sig] pk by auto
  then show ?thesis
    by (simp add: b' verify_block_signature_def update_conv' strip_signature
        import_exported_key [OF assms(1)])
qed

lemma delete_signature_items:
  "AList.delete ''public_key'' (AList.delete ''signature'' kvs) = unsigned_items kvs"
  by (induction kvs) (auto simp: unsigned_items_def signature_keys_def)

lemma verify_block_signature_True:
  assumes "verify_block_signature L m b = Inr True"
  shows "\<exists>kvs hex pem sig pk. b = PDict kvs \<and> map_of kvs ''signature'' = Some (PStr hex) \<and>
    map_of kvs ''public_key'' = Some (PStr pem) \<and> fromhex hex = Inr sig \<and>
    import_public_key L (utf8_encode pem) = Inr (RsaKey pk) \<and>
    int (length sig) = lib_key_size L pk div 8 \<and>
    lib_verify L pk sig (utf8_encode (json_dumps_sorted (PDict (unsigned_items kvs))))"
proof -
  from assms obtain kvs hex pem where b: "b = PDict kvs"
    "map_of kvs ''signature'' = Some (PStr hex)" "map_of kvs ''public_key'' = Some (PStr pem)"
    by (auto simp: verify_block_signature_def split: pyval.splits option.splits)
  with assms obtain sig k where k: "fromhex hex = Inr sig" "import_public_key L (utf8_encode pem) = Inr k"
    "verify_signature L m (PDict (unsigned_items kvs)) sig (Some k) = Inr True"
    by (auto simp: verify_block_signature_def delete_signature_items catchE_eq_Inr bindE_eq_Inr)
  then obtain pk where pk: "k = RsaKey pk"
    by (auto simp: import_public_key_def res_simps)
  with k b show ?thesis by (auto simp: verify_signature_def signing_text_def split: if_splits)
qed

lemma sign_block_items:
  assumes "rsa_laws L" "sign_block L rnd m b = Inr b'" "k \<notin> signature_keys"
  shows "getitem b' k = getitem b k"
proof -
  have "map_of (unsigned_items kvs) k = map_of kvs k" for kvs :: pydict
    using assms(3) by (induction kvs) (auto simp: unsigned_items_def)
  with sign_block_Inr [OF assms(1,2)] assms(3) show ?thesis
    by (auto simp: getitem_def update_conv' signature_keys_def)
qed

section \<open>A concrete library\<close>

text \<open>
  A checksum in the place of RSA, to evaluate the model on examples: a key signs a message
  with 32 copies of the sum of all bytes of both.
\<close>

definition checksum :: "bytes \<Rightarrow> bytes \<Rightarrow> bytes" where
  "checksum key msg = replicate 32 (char_of (sum_list (map code (key @ msg)) mod 256))"

definition sample_rsa :: rsa_library where
  "sample_rsa = \<lparr>lib_generate = (\<lambda>rnd n. Inr (show_nat rnd)), lib_public = (\<lambda>sk. sk),
     lib_sign = (\<lambda>rnd sk msg. Inr (checksum sk msg)),
     lib_verify = (\<lambda>pk sig msg. sig = checksum pk msg), lib_key_size = (\<lambda>pk. 256),
     lib_load_private_pem = (\<lambda>b. bindE (fromhex (drop 5 b)) (\<lambda>k. Inr (RsaKey k))),
     lib_load_private_der = (\<lambda>b. Inr (RsaKey b)),
     lib_load_public_pem = (\<lambda>b. bindE (fromhex (drop 5 b)) (\<lambda>k. Inr (RsaKey k))),
     lib_load_public_der = (\<lambda>b. Inr (RsaKey b)),
     lib_private_pem = (\<lambda>k. ''-----'' @ bytes_hex k), lib_private_der = (\<lambda>k. k),
     lib_public_pem = (\<lambda>k. ''-----'' @ bytes_hex k), lib_public_der = (\<lambda>k. k)\<rparr>"

lemma hex_digit_ascii: "n < 16 \<Longrightarrow> code (hex_digit n) < 128"
  by (simp add: hex_digit_def)

lemma bytes_hex_ascii: "list_all (\<lambda>c. code c < 128) (bytes_hex b)"
  by (induction b) (auto simp: bytes_hex_def hex_byte_def hex_digit_ascii)

lemma sample_rsa_laws: "rsa_laws sample_rsa"
  by (auto simp: rsa_laws_def sample_rsa_def checksum_def looks_pem_def ascii_space_def bytes_hex_ascii)

end
