(* ===== verification/Samples.thy ===== *)
theory Samples
  imports Hash_Utils
begin

text \<open>
  Concrete data the examples of the other theories share: one transaction, its digest, and
  the digest of the first block of a chain with genesis hash \<open>1\<close> and difficulty 1.  The
  digests are computed by the model of SHA-256.
\<close>

definition sample_body :: pyval where
  "sample_body = PDict [(''input_data'', PStr []), (''output_data'', PStr [])]"

definition sample_digest :: string where
  "sample_digest = ''029cc4644b7de9370cf6e30f0b66170f086288575c6d502eb995fa946e79f985''"

lemma sample_body_hash:
  "calc_body_hash sample_body = ''23501a4236bd8d65f1405f1b87c80de839978903e3a836e57a6b5a136bd7c195''"
  by code_simp

lemma sample_digest_eq:
  "sha256_hex (''1'' @ ''23501a4236bd8d65f1405f1b87c80de839978903e3a836e57a6b5a136bd7c195'' @ ''0'') =
   sample_digest"
  by code_simp

lemma sample_pow_hash: "calc_pow_tran_hash ''1'' (calc_body_hash sample_body) 0 = sample_digest"
proof -
  have "show_int 0 = ''0''" by code_simp
  then show ?thesis
    using sample_digest_eq unfolding calc_pow_tran_hash_def sample_body_hash by simp
qed

lemma sample_meets: "meets_difficulty sample_digest 1"
  by code_simp

end
