(* ===== verification/Proof_Of_Work.thy ===== *)
theory Proof_Of_Work
  imports Consensus_Base Samples Py_Time
begin

text \<open>
  \<open>consensus/pow.py\<close>: the class \<open>ProofOfWork\<close>.  The object's fields are the settings and
  \<open>genesis_prev_hash\<close>; both are arguments here.  The lemmas characterise the accepted
  blocks, bound the difficulty adjustment, show that a mined block is accepted, and give
  the choice of \<open>select_canonical_chain\<close>.
\<close>

section \<open>Difficulty\<close>

definition opt_datetime :: "pyval \<Rightarrow> datetime option" where
  "opt_datetime v =
     (case v of
        PStr s \<Rightarrow> (case strptime s of Inr d \<Rightarrow> Some d | Inl _ \<Rightarrow> None)
      | _ \<Rightarrow> None)"

definition elapsed_seconds :: "pow_settings \<Rightarrow> block \<Rightarrow> block \<Rightarrow> int res" where
  "elapsed_seconds st start_block end_block =
     (let fallback = target_block_time_seconds st * adjustment_interval st in
      bindE (get_default start_block ''block_item'' PNone) (\<lambda>start_item.
      bindE (get_default end_block ''block_item'' PNone) (\<lambda>end_item.
        case (opt_datetime start_item, opt_datetime end_item) of
          (Some s, Some e) \<Rightarrow> Inr (max 1 (dt_seconds e - dt_seconds s))
        | _ \<Rightarrow> Inr fallback)))"

definition declared_difficulty :: "block \<Rightarrow> int \<Rightarrow> int res" where
  "declared_difficulty b d =
     bindE (getitem b ''block_header'') (\<lambda>h.
     bindE (get_default h ''difficulty'' (PInt d)) py_int)"

text \<open>The branches \<open>ratio > 1.0\<close> and \<open>ratio < 1.0\<close> of \<open>get_difficulty\<close>.\<close>

definition lowered_difficulty :: "pow_settings \<Rightarrow> int \<Rightarrow> pyfloat \<Rightarrow> int res" where
  "lowered_difficulty st first ratio =
     (let factor = float_min ratio (max_adjustment_factor st) in
      bindE (int_div_float first factor) (\<lambda>q.
      bindE (int_of_float q) (\<lambda>n.
      bindE (int_div_float first (max_adjustment_factor st)) (\<lambda>l.
      bindE (ceil_float l) (\<lambda>lower_bound.
      Inr (max (max 1 n) lower_bound))))))"

definition raised_difficulty :: "pow_settings \<Rightarrow> int \<Rightarrow> pyfloat \<Rightarrow> int res" where
  "raised_difficulty st first ratio =
     bindE (int_div_float 1 (max_adjustment_factor st)) (\<lambda>inv.
     bindE (int_div_float first (float_max ratio inv)) (\<lambda>q.
     bindE (int_of_float q) (\<lambda>n.
     Inr (max 1 n))))"

definition get_difficulty :: "pow_settings \<Rightarrow> chain \<Rightarrow> int res" where
  "get_difficulty st ch =
     (if ch = [] then Inr (initial_difficulty st)
      else let interval = adjustment_interval st in
        if int (length ch) < interval
        then declared_difficulty (last ch) (initial_difficulty st)
        else let recent = slice_from ch (- interval) in
          bindE (py_first recent) (\<lambda>first_block.
          bindE (declared_difficulty first_block (initial_difficulty st)) (\<lambda>first_difficulty.
          bindE (py_last recent) (\<lambda>last_block.
          bindE (elapsed_seconds st first_block last_block) (\<lambda>actual_time.
          let expected_time = target_block_time_seconds st * (interval - 1) in
          if expected_time \<le> 0 \<or> actual_time \<le> 0 then Inr first_difficulty
          else bindE (int_truediv actual_time expected_time) (\<lambda>ratio.
            if float_lt (Fin 1) ratio then lowered_difficulty st first_difficulty ratio
            else if float_lt ratio (Fin 1) then raised_difficulty st first_difficulty ratio
            else Inr first_difficulty))))))"

section \<open>Mining\<close>

text \<open>\<open>for nonce in range(max_mining_iterations)\<close>: \<open>k\<close> iterations are left.\<close>

fun mine_loop :: "nat \<Rightarrow> int \<Rightarrow> string \<Rightarrow> string \<Rightarrow> int \<Rightarrow> (int \<times> string) res" where
  "mine_loop 0 nonce prev body d = Inl RuntimeError"
| "mine_loop (Suc k) nonce prev body d =
     (let h = calc_pow_tran_hash prev body nonce in
      if meets_difficulty h d then Inr (nonce, h) else mine_loop k (nonce + 1) prev body d)"

definition mine_block :: "pow_settings \<Rightarrow> block \<Rightarrow> chain \<Rightarrow> block res" where
  "mine_block st b ch =
     bindE (getitem b ''block_header'') (\<lambda>header.
     bindE (getitem header ''prev_hash'') (\<lambda>prev_hash.
     bindE (getitem b ''tran_body'') (\<lambda>tran_body.
     bindE (get_difficulty st ch) (\<lambda>difficulty.
       if max_mining_iterations st \<le> 0 then Inl RuntimeError
       else bindE (as_str prev_hash) (\<lambda>prev.
       bindE (mine_loop (nat (max_mining_iterations st)) 0 prev (calc_body_hash tran_body) difficulty)
         (\<lambda>(nonce, tran_hash).
       bindE (setitem header ''nonce'' (PInt nonce)) (\<lambda>h1.
       bindE (setitem h1 ''difficulty'' (PInt difficulty)) (\<lambda>h2.
       bindE (setitem h2 ''tran_hash'' (PStr tran_hash)) (\<lambda>h3.
       bindE (setitem h3 ''consensus_type'' (PStr ''pow'')) (\<lambda>h4.
       setitem b ''block_header'' h4))))))))))"

definition pow_prepare_block :: "pow_settings \<Rightarrow> block \<Rightarrow> chain \<Rightarrow> block res" where
  "pow_prepare_block st b ch = mine_block st b ch"

section \<open>Validation\<close>

definition missing_pow_fields :: "pyval \<Rightarrow> block \<Rightarrow> string list" where
  "missing_pow_fields header b =
     map fst (filter (\<lambda>(name, container). \<not> has_key container name)
       [(''nonce'', header), (''difficulty'', header), (''tran_body'', b),
        (''prev_hash'', header), (''tran_hash'', header)])"

text \<open>The checks of the block time; \<open>None\<close> when they pass.\<close>

definition pow_time_fault :: "block \<Rightarrow> chain \<Rightarrow> string option res" where
  "pow_time_fault b ch =
     bindE (get_default b ''block_item'' PNone) (\<lambda>block_item.
       if \<not> is_str block_item then Inr (Some ''missing or invalid block_item'')
       else case opt_datetime block_item of
         None \<Rightarrow> Inr (Some ''invalid block_item format'')
       | Some block_time \<Rightarrow>
           if ch = [] then Inr None
           else bindE (get_default (last ch) ''block_item'' PNone) (\<lambda>parent_item.
             case opt_datetime parent_item of
               None \<Rightarrow> Inr (Some ''parent block_item missing or invalid'')
             | Some parent_time \<Rightarrow>
                 if dt_seconds block_time < dt_seconds parent_time
                 then Inr (Some ''block_item earlier than parent'') else Inr None))"

definition pow_hash_check :: "pyval \<Rightarrow> block \<Rightarrow> int \<Rightarrow> int \<Rightarrow> validation_result res" where
  "pow_hash_check header b nonce declared =
     bindE (getitem b ''tran_body'') (\<lambda>tran_body.
     bindE (getitem header ''prev_hash'') (\<lambda>p.
     bindE (as_str p) (\<lambda>prev.
     let expected = calc_pow_tran_hash prev (calc_body_hash tran_body) nonce in
     bindE (getitem header ''tran_hash'') (\<lambda>tran_hash.
       if \<not> py_eq tran_hash (PStr expected) then Inr (rejected ''tran_hash mismatch'')
       else if \<not> meets_difficulty expected declared then Inr (rejected ''difficulty not met'')
       else Inr accepted))))"

definition pow_validate_block :: "pow_settings \<Rightarrow> block \<Rightarrow> chain \<Rightarrow> validation_result res" where
  "pow_validate_block st b ch =
     bindE (get_default b ''block_header'' (PDict [])) (\<lambda>header.
     bindE (get_default header ''consensus_type'' PNone) (\<lambda>ct.
     if \<not> py_eq ct (PStr ''pow'') then Inr (rejected ''consensus_type is not pow'')
     else let missing = missing_pow_fields header b in
     if missing \<noteq> [] then Inr (rejected (''missing PoW fields: '' @ join '', '' missing))
     else bindE (getitem header ''difficulty'') (\<lambda>dv.
     case py_int dv of
       Inl _ \<Rightarrow> Inr (rejected ''invalid difficulty'')
     | Inr declared \<Rightarrow>
     bindE (getitem header ''nonce'') (\<lambda>nv.
     case py_int nv of
       Inl _ \<Rightarrow> Inr (rejected ''invalid nonce'')
     | Inr nonce \<Rightarrow>
     bindE (get_difficulty st ch) (\<lambda>expected_difficulty.
     if declared \<noteq> expected_difficulty
     then Inr (rejected ''difficulty does not match network expectation'')
     else bindE (pow_time_fault b ch) (\<lambda>fault.
       case fault of
         Some r \<Rightarrow> Inr (rejected r)
       | None \<Rightarrow> pow_hash_check header b nonce declared))))))"

text \<open>\<open>_is_chain_valid\<close>: \<open>done\<close> is the part \<open>chain[:index]\<close> already checked.\<close>

fun pow_chain_valid_from ::
    "pow_settings \<Rightarrow> string \<Rightarrow> chain \<Rightarrow> chain \<Rightarrow> bool res" where
  "pow_chain_valid_from st g before [] = Inr True"
| "pow_chain_valid_from st g before (b # bs) =
     bindE (validate_chain_link g b (if before = [] then None else Some (last before)) (Some g))
       (\<lambda>link. if \<not> valid link then Inr False
     else bindE (pow_validate_block st b before) (\<lambda>r.
       if \<not> valid r then Inr False
       else pow_chain_valid_from st g (before @ [b]) bs))"

definition pow_is_chain_valid :: "pow_settings \<Rightarrow> string \<Rightarrow> chain \<Rightarrow> bool res" where
  "pow_is_chain_valid st g ch = pow_chain_valid_from st g [] ch"

section \<open>Scores and the choice between chains\<close>

definition total_difficulty :: "chain \<Rightarrow> int res" where
  "total_difficulty ch = bindE (mapE (\<lambda>b. declared_difficulty b 0) ch) (\<lambda>ds. Inr (sum_list ds))"

definition pow_score_chain :: "chain \<Rightarrow> chain_score res" where
  "pow_score_chain ch = bindE (total_difficulty ch) (\<lambda>d. Inr (Score d (int (length ch)) []))"

definition pow_select_canonical_chain ::
    "pow_settings \<Rightarrow> string \<Rightarrow> chain list \<Rightarrow> chain res" where
  "pow_select_canonical_chain st g candidates =
     bindE (filterE (pow_is_chain_valid st g) candidates) (\<lambda>valid_chains.
     if valid_chains = [] then Inr [] else best_chain pow_score_chain valid_chains)"

section \<open>The accepted blocks\<close>

lemma missing_pow_fields_Nil:
  "missing_pow_fields h b = [] \<longleftrightarrow>
   has_key h ''nonce'' \<and> has_key h ''difficulty'' \<and> has_key b ''tran_body'' \<and>
   has_key h ''prev_hash'' \<and> has_key h ''tran_hash''"
  by (auto simp: missing_pow_fields_def filter_empty_conv)

lemma pow_time_fault_None:
  "pow_time_fault b ch = Inr None \<longleftrightarrow>
   (\<exists>s t. getitem b ''block_item'' = Inr (PStr s) \<and> strptime s = Inr t \<and>
     (ch = [] \<or> (\<exists>s' t'. getitem (last ch) ''block_item'' = Inr (PStr s') \<and> strptime s' = Inr t' \<and>
       dt_seconds t' \<le> dt_seconds t)))"
  (is "_ \<longleftrightarrow> ?r")
proof
  have opt: "opt_datetime v = Some t \<longleftrightarrow> (\<exists>s. v = PStr s \<and> strptime s = Inr t)" for v t
    by (auto simp: opt_datetime_def split: pyval.splits sum.splits)
  show "pow_time_fault b ch = Inr None \<Longrightarrow> ?r"
    by (auto simp: pow_time_fault_def res_simps opt get_default_iff not_less)
  assume ?r
  then show "pow_time_fault b ch = Inr None"
    by (auto simp: pow_time_fault_def opt_datetime_def is_str_def known_items)
qed

lemma pow_accepted_iff:
  "pow_validate_block st b ch = Inr accepted \<longleftrightarrow>
   header_item b ''consensus_type'' = Inr (PStr ''pow'') \<and> pow_time_fault b ch = Inr None \<and>
   (\<exists>d n p t dv nv. get_difficulty st ch = Inr d \<and>
      header_item b ''difficulty'' = Inr dv \<and> py_int dv = Inr d \<and>
      header_item b ''nonce'' = Inr nv \<and> py_int nv = Inr n \<and>
      header_item b ''prev_hash'' = Inr (PStr p) \<and> getitem b ''tran_body'' = Inr t \<and>
      header_item b ''tran_hash'' = Inr (PStr (calc_pow_tran_hash p (calc_body_hash t) n)) \<and>
      meets_difficulty (calc_pow_tran_hash p (calc_body_hash t) n) d)"
  (is "?l \<longleftrightarrow> ?r")
proof
  assume ?l
  then show ?r
    by (auto simp: pow_validate_block_def pow_hash_check_def res_simps Let_def get_default_iff
        missing_pow_fields_Nil has_key_iff getitem_is_dict)
next
  assume ?r
  then show ?l
    by (auto simp: header_item_Inr pow_validate_block_def pow_hash_check_def as_str_def Let_def
        missing_pow_fields_Nil known_items)
qed

lemma pow_valid_answer: "pow_validate_block st b ch = Inr r \<Longrightarrow> valid r \<longleftrightarrow> r = accepted"
  by (auto simp: pow_validate_block_def pow_hash_check_def res_simps Let_def)

section \<open>Bounds of the difficulty adjustment\<close>

lemma lowered_difficulty_bounds:
  assumes m: "max_adjustment_factor st = Fin 2" and f: "1 \<le> f" "f \<le> 2 ^ 52"
    and r: "ratio = Fin x" "1 < x" and d: "lowered_difficulty st f ratio = Inr d"
  shows "f \<le> 2 * d \<and> d \<le> f"
proof -
  have fl: "float_of_int f = Inr (Fin (of_int f))" using f by (intro float_of_int_small) simp
  define c :: rat where "c = (if 2 < x then 2 else x)"
  have c: "float_min ratio (Fin 2) = Fin c" "1 < c" "0 < c"
    using r by (auto simp: float_min_def float_lt_def c_def)
  have q: "float_div (Fin (of_int f)) (Fin c) = Inr (Fin (round_pos (of_int f / c)))"
      "round_pos (of_int f / c) \<le> of_int f"
    using f c by (intro float_div_small [where n = f]; simp)+
  have h: "float_div (Fin (of_int f)) (Fin 2) = Inr (Fin (of_int f / 2))"
    using f float_div_small [of "of_int f" 2 f] round_pos_half [of f] by simp
  have "0 \<le> round_pos (of_int f / c)" using f c by (intro round_pos_nonneg) simp
  then have "trunc_rat (round_pos (of_int f / c)) \<le> f"
    using q(2) by (simp add: trunc_rat_nonneg floor_le_iff)
  moreover have "d = max (max 1 (trunc_rat (round_pos (of_int f / c)))) \<lceil>of_int f / 2 :: rat\<rceil>"
    using d by (simp add: lowered_difficulty_def m c int_div_float_def fl q h)
  moreover have "\<lceil>of_int f / 2 :: rat\<rceil> \<le> f" using f by (simp add: ceiling_le_iff)
  moreover have "of_int f / 2 \<le> (of_int \<lceil>of_int f / 2 :: rat\<rceil> :: rat)" by (rule le_of_int_ceiling)
  then have "f \<le> 2 * \<lceil>of_int f / 2 :: rat\<rceil>" by linarith
  ultimately show ?thesis using f by linarith
qed

lemma raised_difficulty_bounds:
  assumes m: "max_adjustment_factor st = Fin 2" and f: "1 \<le> f" "f \<le> 2 ^ 52"
    and r: "ratio = Fin x" "x < 1" and d: "raised_difficulty st f ratio = Inr d"
  shows "f \<le> d \<and> d \<le> 2 * f"
proof -
  have fl: "float_of_int f = Inr (Fin (of_int f))" using f by (intro float_of_int_small) simp
  have one: "float_of_int 1 = Inr (Fin 1)" using float_of_int_small [of 1] by simp
  have half: "float_div (Fin 1) (Fin 2) = Inr (Fin (1 / 2))"
    using float_div_small [of 1 2 1] round_pos_half [of 1] by simp
  define c :: rat where "c = (if x < 1 / 2 then 1 / 2 else x)"
  have c: "float_max ratio (Fin (1 / 2)) = Fin c" "1 / 2 \<le> c" "c < 1"
    using r by (auto simp: float_max_def float_lt_def c_def)
  have "(of_int f :: rat) * 1 \<le> of_int (2 * f) * c"
    using f c mult_left_mono [of "1 / 2" c "of_int (2 * f)"] by simp
  then have q: "float_div (Fin (of_int f)) (Fin c) = Inr (Fin (round_pos (of_int f / c)))"
      "round_pos (of_int f / c) \<le> of_int (2 * f)"
    using f c by (intro float_div_small [where n = "2 * f"]; simp)+
  have "(of_int f :: rat) \<le> of_int f / c"
    using f c by (simp add: pos_le_divide_eq mult_left_le)
  then have ge: "of_int f \<le> round_pos (of_int f / c)" using f c by (intro round_pos_ge_int) simp_all
  then have "trunc_rat (round_pos (of_int f / c)) = \<lfloor>round_pos (of_int f / c)\<rfloor>"
    using f by (intro trunc_rat_nonneg) linarith
  moreover have "f \<le> \<lfloor>round_pos (of_int f / c)\<rfloor>" using ge by (simp add: le_floor_iff)
  moreover have "\<lfloor>round_pos (of_int f / c)\<rfloor> \<le> 2 * f" using q(2) by linarith
  moreover have "d = max 1 (trunc_rat (round_pos (of_int f / c)))"
    using d by (simp add: raised_difficulty_def m int_div_float_def one half c fl q)
  ultimately show ?thesis using f by linarith
qed

section \<open>Mining\<close>

lemma mine_loop_Inr:
  "mine_loop k n p bh d = Inr (m, h) \<longleftrightarrow>
   n \<le> m \<and> m < n + int k \<and> h = calc_pow_tran_hash p bh m \<and> meets_difficulty h d \<and>
   (\<forall>j. n \<le> j \<and> j < m \<longrightarrow> \<not> meets_difficulty (calc_pow_tran_hash p bh j) d)"
proof (induction k arbitrary: n)
  case (Suc k)
  show ?case
  proof (cases "meets_difficulty (calc_pow_tran_hash p bh n) d")
    case True
    then show ?thesis by (fastforce simp: Let_def)
  next
    case False
    then have "(\<forall>j. n \<le> j \<and> j < m \<longrightarrow> \<not> meets_difficulty (calc_pow_tran_hash p bh j) d) \<longleftrightarrow>
      (\<forall>j. n + 1 \<le> j \<and> j < m \<longrightarrow> \<not> meets_difficulty (calc_pow_tran_hash p bh j) d)"
      by (metis order_le_less zless_imp_add1_zle add1_zle_eq)
    moreover have "m \<noteq> n" if "h = calc_pow_tran_hash p bh m" "meets_difficulty h d"
      using that False by blast
    ultimately show ?thesis using False Suc.IH [of "n + 1"] by (auto simp: Let_def)
  qed
qed simp

lemma mine_loop_Inl:
  "mine_loop k n p bh d = Inl e \<longleftrightarrow>
   e = RuntimeError \<and>
   (\<forall>j. n \<le> j \<and> j < n + int k \<longrightarrow> \<not> meets_difficulty (calc_pow_tran_hash p bh j) d)"
proof (induction k arbitrary: n)
  case (Suc k)
  have split: "n \<le> j \<and> j < n + int (Suc k) \<longleftrightarrow> j = n \<or> (n + 1 \<le> j \<and> j < n + 1 + int k)" for j
    by auto
  show ?case unfolding split using Suc.IH [of "n + 1"] by (auto simp: Let_def)
qed auto

lemma mine_block_Inr:
  assumes "mine_block st b ch = Inr b'"
  shows "\<exists>p t d n h'. header_item b ''prev_hash'' = Inr (PStr p) \<and> getitem b ''tran_body'' = Inr t \<and>
    get_difficulty st ch = Inr d \<and>
    mine_loop (nat (max_mining_iterations st)) 0 p (calc_body_hash t) d =
      Inr (n, calc_pow_tran_hash p (calc_body_hash t) n) \<and>
    getitem b' ''block_header'' = Inr h' \<and> getitem h' ''nonce'' = Inr (PInt n) \<and>
    getitem h' ''difficulty'' = Inr (PInt d) \<and> getitem h' ''prev_hash'' = Inr (PStr p) \<and>
    getitem h' ''tran_hash'' = Inr (PStr (calc_pow_tran_hash p (calc_body_hash t) n)) \<and>
    getitem h' ''consensus_type'' = Inr (PStr ''pow'') \<and>
    (\<forall>k. k \<noteq> ''block_header'' \<longrightarrow> getitem b' k = getitem b k)"
proof -
  from assms obtain h pv t d p n th h1 h2 h3 h4 where
    hb: "getitem b ''block_header'' = Inr h" "getitem h ''prev_hash'' = Inr pv"
      "getitem b ''tran_body'' = Inr t" "get_difficulty st ch = Inr d" "as_str pv = Inr p" and
    loop: "mine_loop (nat (max_mining_iterations st)) 0 p (calc_body_hash t) d = Inr (n, th)" and
    sets: "setitem h ''nonce'' (PInt n) = Inr h1" "setitem h1 ''difficulty'' (PInt d) = Inr h2"
      "setitem h2 ''tran_hash'' (PStr th) = Inr h3"
      "setitem h3 ''consensus_type'' (PStr ''pow'') = Inr h4" and
    b': "setitem b ''block_header'' h4 = Inr b'"
    by (auto simp: mine_block_def res_simps)
  have th: "th = calc_pow_tran_hash p (calc_body_hash t) n" using loop by (simp add: mine_loop_Inr)
  note items = sets [THEN getitem_setitem]
  show ?thesis
  proof (intro exI conjI)
    show "getitem b' ''block_header'' = Inr h4" using getitem_setitem [OF b'] by simp
    show "\<forall>k. k \<noteq> ''block_header'' \<longrightarrow> getitem b' k = getitem b k" using getitem_setitem [OF b'] by simp
    show "mine_loop (nat (max_mining_iterations st)) 0 p (calc_body_hash t) d =
      Inr (n, calc_pow_tran_hash p (calc_body_hash t) n)" using loop th by simp
  qed (use hb th in \<open>auto simp: items header_item_Inr as_str_Inr\<close>)
qed

lemma pow_time_fault_cong:
  "getitem b' ''block_item'' = getitem b ''block_item'' \<Longrightarrow>
   pow_time_fault b' ch = Inr None \<longleftrightarrow> pow_time_fault b ch = Inr None"
  by (simp add: pow_time_fault_None)

section \<open>Valid chains\<close>

text \<open>The predecessor of position \<open>i\<close>, as the loops compute it.\<close>

definition previous_block :: "chain \<Rightarrow> nat \<Rightarrow> block option" where
  "previous_block ch i = (if i = 0 then None else Some (ch ! (i - 1)))"

lemma pow_chain_valid_from_iff:
  "pow_chain_valid_from st g before bs = Inr True \<longleftrightarrow>
   (\<forall>i < length bs.
      validate_chain_link g (bs ! i) (previous_block (before @ bs) (length before + i)) (Some g)
        = Inr accepted \<and>
      pow_validate_block st (bs ! i) (before @ take i bs) = Inr accepted)"
proof (induction bs arbitrary: before)
  case (Cons b bs)
  have prev: "(if before = [] then None else Some (last before)) =
      previous_block (before @ b # bs) (length before)"
    by (simp add: previous_block_def nth_append last_conv_nth)
  have step: "pow_chain_valid_from st g before (b # bs) = Inr True \<longleftrightarrow>
      validate_chain_link g b (previous_block (before @ b # bs) (length before)) (Some g)
        = Inr accepted \<and>
      pow_validate_block st b before = Inr accepted \<and>
      pow_chain_valid_from st g (before @ [b]) bs = Inr True"
    unfolding pow_chain_valid_from.simps prev
    by (simp add: check_then [OF validate_chain_link_valid] check_then [OF pow_valid_answer])
  show ?case
    unfolding step Cons.IH [of "before @ [b]"]
    by (auto simp: less_Suc_eq_0_disj)
qed simp

lemma pow_is_chain_valid_iff:
  "pow_is_chain_valid st g ch = Inr True \<longleftrightarrow>
   (\<forall>i < length ch.
      validate_chain_link g (ch ! i) (previous_block ch i) (Some g) = Inr accepted \<and>
      pow_validate_block st (ch ! i) (take i ch) = Inr accepted)"
  by (simp add: pow_is_chain_valid_def pow_chain_valid_from_iff)

section \<open>The seal of an accepted block\<close>

lemma pow_accepted_sealed:
  assumes "pow_validate_block st b ch = Inr accepted" shows "sealed b"
  using assms
  by (auto simp: pow_accepted_iff sealed_def header_text_def header_int_def block_body_def
      block_text_def seal_text_def calc_pow_tran_hash_def)

interpretation pow_seals: sealing_protocol "\<lambda>b. \<exists>st ch. pow_validate_block st b ch = Inr accepted"
  by unfold_locales (blast intro: pow_accepted_sealed)

section \<open>The window of the adjustment\<close>

lemma adjustment_window:
  assumes "0 < adjustment_interval st" "adjustment_interval st \<le> int (length ch)"
  shows "slice_from ch (- adjustment_interval st) = drop (length ch - nat (adjustment_interval st)) ch"
    and "py_first (slice_from ch (- adjustment_interval st)) =
      Inr (ch ! (length ch - nat (adjustment_interval st)))"
    and "py_last (slice_from ch (- adjustment_interval st)) = Inr (last ch)"
proof -
  let ?k = "length ch - nat (adjustment_interval st)"
  have k: "?k < length ch" "nat (int (length ch) - adjustment_interval st) = ?k"
    using assms by (simp_all add: nat_diff_distrib' less_le_trans)
  show s: "slice_from ch (- adjustment_interval st) = drop ?k ch"
    using assms k by (simp add: slice_from_def)
  then show "py_first (slice_from ch (- adjustment_interval st)) = Inr (ch ! ?k)"
    using k by (simp add: py_first_def Cons_nth_drop_Suc [symmetric])
  from s show "py_last (slice_from ch (- adjustment_interval st)) = Inr (last ch)"
    using k by (simp add: py_last_def)
qed

lemma ratio_cases:
  assumes "0 < a" "0 < e" "int_truediv a e = Inr r"
  shows "\<exists>x. r = Fin x \<and> (e < a \<longrightarrow> 1 \<le> x) \<and> (a < e \<longrightarrow> x \<le> 1) \<and> (a = e \<longrightarrow> x = 1)"
proof -
  let ?q = "of_int a / of_int e :: rat"
  have q: "0 < ?q" using assms by simp
  have r: "r = Fin (round_pos ?q)"
    using assms by (auto simp: int_truediv_def Let_def round_rat_def split: if_splits)
  have "1 \<le> round_pos ?q" if "e \<le> a"
    using q round_pos_ge_int [of ?q 1] that assms(2) by simp
  moreover have "round_pos ?q \<le> 1" if "a \<le> e"
    using q round_pos_le_int [of ?q 1] that assms(2) by simp
  ultimately show ?thesis using r by (auto intro: antisym)
qed

text \<open>
  C10: With the default factor of two, an adjustment at most doubles and at most halves the
  difficulty the window started from, and it never moves the wrong way: a window slower
  than expected does not raise the difficulty, a faster one does not lower it.
\<close>

theorem difficulty_adjustment_bounds:
  assumes "0 < adjustment_interval st" "adjustment_interval st \<le> int (length ch)"
    and "max_adjustment_factor st = Fin 2"
    and "first = ch ! (length ch - nat (adjustment_interval st))"
    and "declared_difficulty first (initial_difficulty st) = Inr f" "1 \<le> f" "f \<le> 2 ^ 52"
    and "elapsed_seconds st first (last ch) = Inr actual"
    and "get_difficulty st ch = Inr d"
  shows "d \<le> 2 * f \<and> f \<le> 2 * d \<and>
    (target_block_time_seconds st * (adjustment_interval st - 1) \<le> actual \<longrightarrow> d \<le> f) \<and>
    (actual \<le> target_block_time_seconds st * (adjustment_interval st - 1) \<longrightarrow> f \<le> d)"
proof -
  let ?e = "target_block_time_seconds st * (adjustment_interval st - 1)"
  have ne: "ch \<noteq> []" "\<not> int (length ch) < adjustment_interval st" using assms(1,2) by auto
  have d: "(if ?e \<le> 0 \<or> actual \<le> 0 then Inr f
      else bindE (int_truediv actual ?e) (\<lambda>ratio.
        if float_lt (Fin 1) ratio then lowered_difficulty st f ratio
        else if float_lt ratio (Fin 1) then raised_difficulty st f ratio else Inr f)) = Inr d"
    using assms(9) assms(5,8) ne unfolding assms(4)
    by (simp add: get_difficulty_def Let_def adjustment_window(2,3) [OF assms(1,2)])
  show ?thesis
  proof (cases "?e \<le> 0 \<or> actual \<le> 0")
    case True
    with d have "d = f" by simp
    with assms(6) show ?thesis by simp
  next
    case False
    with d obtain r where r: "int_truediv actual ?e = Inr r" and br:
      "(if float_lt (Fin 1) r then lowered_difficulty st f r
        else if float_lt r (Fin 1) then raised_difficulty st f r else Inr f) = Inr d"
      by (auto simp: bindE_eq_Inr)
    obtain x where x: "r = Fin x" "?e < actual \<longrightarrow> 1 \<le> x" "actual < ?e \<longrightarrow> x \<le> 1" "actual = ?e \<longrightarrow> x = 1"
      using ratio_cases [OF _ _ r] False by auto
    consider "1 < x" | "x < 1" | "x = 1" by linarith
    then show ?thesis
    proof cases
      case 1
      with br x(1) have "lowered_difficulty st f r = Inr d" by (simp add: float_lt_def)
      then have "f \<le> 2 * d \<and> d \<le> f" by (rule lowered_difficulty_bounds [OF assms(3,6,7) x(1) 1])
      moreover have "\<not> actual \<le> ?e" using 1 x(3,4) by linarith
      ultimately show ?thesis using assms(6) by linarith
    next
      case 2
      with br x(1) have "raised_difficulty st f r = Inr d" by (simp add: float_lt_def)
      then have "f \<le> d \<and> d \<le> 2 * f" by (rule raised_difficulty_bounds [OF assms(3,6,7) x(1) 2])
      moreover have "\<not> ?e \<le> actual" using 2 x(2,4) by linarith
      ultimately show ?thesis using assms(6) by linarith
    next
      case 3
      with br x(1) have "d = f" by (simp add: float_lt_def)
      with assms(6) show ?thesis by simp
    qed
  qed
qed

text \<open>An example: two blocks five seconds apart where ten were expected.\<close>

definition sample_settings :: pow_settings where
  "sample_settings = default_pow\<lparr>adjustment_interval := 2\<rparr>"

definition sample_timed :: "string \<Rightarrow> block" where
  "sample_timed t = PDict [(''block_item'', PStr t), (''block_header'', PDict [(''difficulty'', PInt 4)])]"

definition sample_window :: chain where
  "sample_window = [sample_timed ''2024-01-01 00:00:00'', sample_timed ''2024-01-01 00:00:05'']"

theorem difficulty_adjustment_bounds_witness:
  "get_difficulty sample_settings sample_window = Inr 8 \<and> (8 :: int) \<le> 2 * 4 \<and> (4 :: int) \<le> 8"
proof -
  let ?first = "sample_window ! (length sample_window - nat (adjustment_interval sample_settings))"
  have d: "get_difficulty sample_settings sample_window = Inr 8" by code_simp
  have i: "0 < adjustment_interval sample_settings" by code_simp
  have l: "adjustment_interval sample_settings \<le> int (length sample_window)" by code_simp
  have m: "max_adjustment_factor sample_settings = Fin 2" by code_simp
  have f: "declared_difficulty ?first (initial_difficulty sample_settings) = Inr 4" by code_simp
  have e: "elapsed_seconds sample_settings ?first (last sample_window) = Inr 5" by code_simp
  have t: "target_block_time_seconds sample_settings * (adjustment_interval sample_settings - 1) = 10"
    by code_simp
  from difficulty_adjustment_bounds [OF i l m refl f _ _ e d] t d show ?thesis by simp
qed

section \<open>Mining and validation\<close>

text \<open>
  C8: A block that \<open>mine_block\<close> returns is accepted by \<open>validate_block\<close> over the same
  chain when its time stamp is; only its header differs from the block that was given.
\<close>

theorem mined_block_accepted:
  assumes "mine_block st b ch = Inr b'" and "pow_time_fault b ch = Inr None"
  shows "pow_validate_block st b' ch = Inr accepted \<and>
    header_item b' ''prev_hash'' = header_item b ''prev_hash'' \<and>
    (\<forall>k. k \<noteq> ''block_header'' \<longrightarrow> getitem b' k = getitem b k)"
proof -
  note mined = mine_block_Inr [OF assms(1)]
  then have same: "getitem b' k = getitem b k" if "k \<noteq> ''block_header''" for k using that by blast
  have "pow_time_fault b' ch = Inr None"
    using assms(2) pow_time_fault_cong [of b' b ch] same [of "''block_item''"] by simp
  with mined same [of "''tran_body''"] show ?thesis
    by (auto simp: pow_accepted_iff header_item_Inr mine_loop_Inr py_int_def header_item_def)
qed

text \<open>
  C9: Mining returns: it raises \<open>RuntimeError\<close> exactly when no nonce below the bound
  reaches the difficulty, and otherwise stores the least nonce that does.
\<close>

theorem mining_outcome:
  assumes "header_item b ''prev_hash'' = Inr (PStr p)" "getitem b ''tran_body'' = Inr t"
    and "get_difficulty st ch = Inr d"
  shows "(mine_block st b ch = Inl RuntimeError \<longleftrightarrow>
      (\<forall>n. 0 \<le> n \<and> n < max_mining_iterations st \<longrightarrow>
        \<not> meets_difficulty (calc_pow_tran_hash p (calc_body_hash t) n) d)) \<and>
    (\<forall>e. mine_block st b ch = Inl e \<longrightarrow> e = RuntimeError) \<and>
    (\<forall>b'. mine_block st b ch = Inr b' \<longrightarrow>
      (\<exists>n. header_item b' ''nonce'' = Inr (PInt n) \<and> 0 \<le> n \<and> n < max_mining_iterations st \<and>
        header_item b' ''tran_hash'' = Inr (PStr (calc_pow_tran_hash p (calc_body_hash t) n)) \<and>
        (\<forall>j. 0 \<le> j \<and> j < n \<longrightarrow> \<not> meets_difficulty (calc_pow_tran_hash p (calc_body_hash t) j) d)))"
proof -
  let ?N = "max_mining_iterations st"
  let ?loop = "mine_loop (nat ?N) 0 p (calc_body_hash t) d"
  from assms(1) obtain h where h: "getitem b ''block_header'' = Inr h" "getitem h ''prev_hash'' = Inr (PStr p)"
    by (auto simp: header_item_Inr)
  have sets: "bindE (setitem h ''nonce'' n) (\<lambda>h1. bindE (setitem h1 ''difficulty'' v) (\<lambda>h2.
      bindE (setitem h2 ''tran_hash'' x) (\<lambda>h3. bindE (setitem h3 ''consensus_type'' c) (\<lambda>h4.
      setitem b ''block_header'' h4)))) \<noteq> Inl e" for n v x c e
    using h by (cases b; cases h) (simp_all add: setitem_def getitem_def)
  have fail: "mine_block st b ch = Inl e \<longleftrightarrow> (if ?N \<le> 0 then e = RuntimeError else ?loop = Inl e)" for e
  proof (cases "?N \<le> 0")
    case True
    with h assms show ?thesis by (auto simp: mine_block_def)
  next
    case False
    with h assms show ?thesis
      using sets by (cases ?loop) (auto simp: mine_block_def as_str_def split_beta)
  qed
  have ok: "\<exists>n. header_item b' ''nonce'' = Inr (PInt n) \<and> 0 \<le> n \<and> n < ?N \<and>
      header_item b' ''tran_hash'' = Inr (PStr (calc_pow_tran_hash p (calc_body_hash t) n)) \<and>
      (\<forall>j. 0 \<le> j \<and> j < n \<longrightarrow> \<not> meets_difficulty (calc_pow_tran_hash p (calc_body_hash t) j) d)"
    if "mine_block st b ch = Inr b'" for b'
    using mine_block_Inr [OF that] assms h
    by (auto simp: header_item_Inr mine_loop_Inr split: if_splits)
  have "mine_block st b ch = Inl RuntimeError \<longleftrightarrow> (\<forall>n. 0 \<le> n \<and> n < ?N \<longrightarrow>
      \<not> meets_difficulty (calc_pow_tran_hash p (calc_body_hash t) n) d)"
    unfolding fail by (auto simp: mine_loop_Inl)
  moreover have "\<forall>e. mine_block st b ch = Inl e \<longrightarrow> e = RuntimeError"
    unfolding fail by (auto simp: mine_loop_Inl split: if_splits)
  ultimately show ?thesis using ok by blast
qed

text \<open>The example block: the first of a chain with genesis hash \<open>1\<close> and difficulty 1.\<close>

definition sample_pow :: pow_settings where
  "sample_pow = default_pow\<lparr>initial_difficulty := 1, max_mining_iterations := 1\<rparr>"

definition sample_draft :: block where
  "sample_draft = PDict [(''block_index'', PInt 1), (''block_item'', PStr ''2024-01-01 00:00:00''),
     (''block_header'', PDict [(''prev_hash'', PStr ''1''), (''consensus_type'', PStr ''pow''),
        (''tran_hash'', PStr [])]),
     (''tran_counter'', PInt 0), (''tran_body'', sample_body)]"

definition sample_block :: block where
  "sample_block = PDict [(''block_index'', PInt 1), (''block_item'', PStr ''2024-01-01 00:00:00''),
     (''block_header'', PDict [(''prev_hash'', PStr ''1''), (''consensus_type'', PStr ''pow''),
        (''tran_hash'', PStr sample_digest), (''nonce'', PInt 0), (''difficulty'', PInt 1)]),
     (''tran_counter'', PInt 0), (''tran_body'', sample_body)]"

lemma sample_draft_items:
  "header_item sample_draft ''prev_hash'' = Inr (PStr ''1'')"
  "getitem sample_draft ''tran_body'' = Inr sample_body"
  "get_difficulty sample_pow [] = Inr 1"
  by (simp_all add: sample_draft_def header_item_def getitem_def get_difficulty_def sample_pow_def)

lemma sample_draft_time: "pow_time_fault sample_draft [] = Inr None"
  by code_simp

lemma sample_mined: "mine_block sample_pow sample_draft [] = Inr sample_block"
proof -
  have n: "nat (max_mining_iterations sample_pow) = Suc 0" "\<not> max_mining_iterations sample_pow \<le> 0"
    by (simp_all add: sample_pow_def)
  show ?thesis
    by (simp add: mine_block_def n sample_draft_items(3) Let_def sample_pow_hash sample_meets)
      (simp add: sample_draft_def sample_block_def getitem_def setitem_def as_str_def n
        sample_pow_hash sample_meets)
qed

theorem mined_block_accepted_witness:
  "pow_validate_block sample_pow sample_block [] = Inr accepted"
  using mined_block_accepted [OF sample_mined sample_draft_time] by simp

theorem mining_outcome_witness:
  "\<exists>n. header_item sample_block ''nonce'' = Inr (PInt n) \<and> 0 \<le> n \<and> n < max_mining_iterations sample_pow"
  using mining_outcome [OF sample_draft_items] sample_mined by blast

section \<open>The choice between chains\<close>


lemma sample_accepted: "pow_validate_block sample_pow sample_block [] = Inr accepted"
proof -
  have t: "pow_time_fault sample_block [] = Inr None" by code_simp
  have "header_item sample_block ''consensus_type'' = Inr (PStr ''pow'')"
    "header_item sample_block ''difficulty'' = Inr (PInt 1)"
    "header_item sample_block ''nonce'' = Inr (PInt 0)"
    "header_item sample_block ''prev_hash'' = Inr (PStr ''1'')"
    "header_item sample_block ''tran_hash'' = Inr (PStr sample_digest)"
    "getitem sample_block ''tran_body'' = Inr sample_body"
    by (simp_all add: sample_block_def header_item_def getitem_def)
  with t show ?thesis
    by (simp add: pow_accepted_iff sample_draft_items(3) py_int_def sample_pow_hash sample_meets)
qed

lemma sample_link: "validate_chain_link ''1'' sample_block None (Some ''1'') = Inr accepted"
  by code_simp

lemma sample_chain_valid:
  "pow_is_chain_valid sample_pow ''1'' [sample_block] = Inr True"
  "pow_is_chain_valid sample_pow ''1'' [] = Inr True"
  by (simp_all add: pow_is_chain_valid_iff previous_block_def sample_link sample_accepted)

lemma sample_selected:
  "pow_select_canonical_chain sample_pow ''1'' [[], [sample_block]] = Inr [sample_block]"
proof -
  have "pow_score_chain [sample_block] = Inr (Score 1 1 [])" "pow_score_chain [] = Inr (Score 0 0 [])"
    by code_simp+
  then show ?thesis
    by (simp add: pow_select_canonical_chain_def sample_chain_valid best_chain_def py_max_by_def
        less_chain_score_def less_eq_chain_score_def)
qed


end
