(* ===== verification/Proof_Of_Stake.thy ===== *)
theory Proof_Of_Stake
  imports Consensus_Base Samples Signature "HOL-Library.Multiset"
begin

text \<open>
  \<open>consensus/pos.py\<close>: the class \<open>ProofOfStake\<close>.  The object is a record; an operation
  that changes it returns the new record.  Stake maps are association lists in insertion
  order, as Python's dicts.  The lemmas characterise the accepted blocks, show who is
  chosen as proposer, and account for the stake that rewards create.
\<close>

record pos_object =
  po_settings :: pos_settings
  po_node_id :: "string option"
  po_manager :: signature_manager
  po_validators :: stakes
  po_genesis :: "stakes option"
  po_keys :: "(string \<times> string) list"
  po_genesis_prev_hash :: string

definition new_pos ::
    "pos_settings \<Rightarrow> string option \<Rightarrow> signature_manager option \<Rightarrow> stakes option \<Rightarrow> pos_object" where
  "new_pos st node_id sm genesis_stakes =
     \<lparr>po_settings = st, po_node_id = node_id,
      po_manager = (case sm of Some m \<Rightarrow> m | None \<Rightarrow> new_manager),
      po_validators = [], po_genesis = genesis_stakes, po_keys = [],
      po_genesis_prev_hash = DEFAULT_GENESIS_PREV_HASH\<rparr>"

section \<open>Stake\<close>

text \<open>\<open>(block.get("block_header") or {}).get("validator_id")\<close>.\<close>

definition block_validator_id :: "block \<Rightarrow> pyval res" where
  "block_validator_id b =
     bindE (get_default b ''block_header'' PNone) (\<lambda>h.
     get_default (if py_true h then h else PDict []) ''validator_id'' PNone)"

text \<open>
  \<open>v in validators\<close>: the key when it is there.  A list or a dict is not hashable.
\<close>

definition validator_key :: "pyval \<Rightarrow> stakes \<Rightarrow> string option res" where
  "validator_key v vs =
     (case v of
        PStr s \<Rightarrow> Inr (if map_of vs s = None then None else Some s)
      | PList _ \<Rightarrow> Inl TypeError
      | PDict _ \<Rightarrow> Inl TypeError
      | _ \<Rightarrow> Inr None)"

text \<open>\<open>validator_id and validator_id in validators\<close>.\<close>

definition rewarded_key :: "stakes \<Rightarrow> block \<Rightarrow> string option res" where
  "rewarded_key vs b =
     bindE (block_validator_id b) (\<lambda>v. if py_true v then validator_key v vs else Inr None)"

definition apply_block_reward :: "pos_settings \<Rightarrow> stakes \<Rightarrow> block \<Rightarrow> stakes res" where
  "apply_block_reward st vs b =
     bindE (rewarded_key vs b) (\<lambda>k.
     case k of
       None \<Rightarrow> Inr vs
     | Some s \<Rightarrow> Inr (AList.update s (the (map_of vs s) + block_reward st) vs))"

definition compute_validators_from_chain ::
    "chain \<Rightarrow> stakes \<Rightarrow> pos_settings \<Rightarrow> stakes res" where
  "compute_validators_from_chain ch genesis_stakes st =
     foldE (apply_block_reward st) genesis_stakes ch"

definition get_total_stake :: "stakes \<Rightarrow> int" where
  "get_total_stake vs = sum_list (map snd vs)"

definition register_validator ::
    "rsa_library \<Rightarrow> pos_object \<Rightarrow> string \<Rightarrow> int \<Rightarrow> string option \<Rightarrow> pos_object res" where
  "register_validator L po validator_id stake public_key_pem =
     (if stake < min_stake (po_settings po) then Inl ValueError
      else let po1 = po\<lparr>po_validators := AList.update validator_id stake (po_validators po)\<rparr> in
        if public_key_pem \<noteq> None \<and> public_key_pem \<noteq> Some []
        then Inr (po1\<lparr>po_keys := AList.update validator_id (the public_key_pem) (po_keys po)\<rparr>)
        else if po_node_id po = Some validator_id \<and> sm_public (po_manager po) \<noteq> None
        then bindE (export_public_key L (po_manager po) ''pem'') (\<lambda>pem.
             bindE (ascii_decode pem) (\<lambda>txt.
             Inr (po1\<lparr>po_keys := AList.update validator_id txt (po_keys po)\<rparr>)))
        else Inr po1)"

section \<open>The proposer of a slot\<close>

definition hex_digit_val :: "char \<Rightarrow> nat" where
  "hex_digit_val c = (case hex_val c of Some n \<Rightarrow> n | None \<Rightarrow> 0)"

text \<open>\<open>int(h, 16)\<close> of a hexadecimal digest.\<close>

definition hex_int :: "string \<Rightarrow> int" where
  "hex_int h = foldl (\<lambda>a c. 16 * a + int (hex_digit_val c)) 0 h"

definition slot_seed :: "int \<Rightarrow> int" where
  "slot_seed slot = hex_int (sha256_hex (''slot-'' @ show_int slot))"

text \<open>\<open>sorted(stake_map.items())\<close>; the keys are distinct, so the stakes never decide.\<close>

definition sorted_items :: "stakes \<Rightarrow> stakes" where
  "sorted_items vs = sort_key fst vs"

fun pick_validator :: "int \<Rightarrow> int \<Rightarrow> stakes \<Rightarrow> string option" where
  "pick_validator pick cumulative [] = None"
| "pick_validator pick cumulative ((v, stake) # vs) =
     (if pick < cumulative + stake then Some v
      else pick_validator pick (cumulative + stake) vs)"

definition select_proposer :: "int \<Rightarrow> stakes \<Rightarrow> string res" where
  "select_proposer slot vs =
     (if vs = [] then Inl ValueError
      else if get_total_stake vs = 0 then Inl ZeroDivisionError
      else case pick_validator (slot_seed slot mod get_total_stake vs) 0 (sorted_items vs) of
             Some v \<Rightarrow> Inr v
           | None \<Rightarrow> Inr (last (sort (map fst vs))))"

section \<open>Proposing a block\<close>

definition dict_update :: "pydict \<Rightarrow> pydict \<Rightarrow> pydict" where
  "dict_update kvs kws = fold (\<lambda>(k, v). AList.update k v) kws kvs"

text \<open>\<open>block.update(signed)\<close>.\<close>

definition py_update :: "pyval \<Rightarrow> pyval \<Rightarrow> pyval res" where
  "py_update v w =
     (case (v, w) of (PDict kvs, PDict kws) \<Rightarrow> Inr (PDict (dict_update kvs kws)) | _ \<Rightarrow> Inl TypeError)"

definition proposal_validators :: "pos_object \<Rightarrow> chain \<Rightarrow> stakes res" where
  "proposal_validators po ch =
     (case po_genesis po of
        Some g \<Rightarrow> compute_validators_from_chain ch g (po_settings po)
      | None \<Rightarrow> Inr (po_validators po))"

text \<open>The header of the proposed block.\<close>

definition proposal_header :: "pyval \<Rightarrow> pyval \<Rightarrow> string \<Rightarrow> int \<Rightarrow> pyval res" where
  "proposal_header header tran_body proposer slot =
     bindE (setitem header ''validator_id'' (PStr proposer)) (\<lambda>h1.
     bindE (setitem h1 ''slot'' (PInt slot)) (\<lambda>h2.
     bindE (getitem h2 ''prev_hash'') (\<lambda>p.
     bindE (as_str p) (\<lambda>prev.
     bindE (setitem h2 ''tran_hash''
       (PStr (calc_pos_tran_hash prev (calc_body_hash tran_body) proposer slot))) (\<lambda>h3.
     setitem h3 ''consensus_type'' (PStr ''pos''))))))"

definition pos_prepare_block ::
    "rsa_library \<Rightarrow> nat \<Rightarrow> pos_object \<Rightarrow> block \<Rightarrow> chain \<Rightarrow> block res" where
  "pos_prepare_block L rnd po b ch =
     (let slot = int (length ch) + 1 in
      bindE (proposal_validators po ch) (\<lambda>validators.
      bindE (select_proposer slot validators) (\<lambda>proposer.
      if po_node_id po \<noteq> Some proposer then Inl ValueError
      else if sm_private (po_manager po) = None then Inl ValueError
      else bindE (getitem b ''block_header'') (\<lambda>header.
      bindE (getitem b ''tran_body'') (\<lambda>tran_body.
      bindE (proposal_header header tran_body proposer slot) (\<lambda>h.
      bindE (setitem b ''block_header'' h) (\<lambda>b1.
      bindE (sign_block L rnd (po_manager po) b1) (\<lambda>signed.
      py_update b1 signed))))))))"

section \<open>Validation\<close>

definition pos_fields_ok :: "pyval \<Rightarrow> pyval \<Rightarrow> bool" where
  "pos_fields_ok validator_id slot =
     (py_true validator_id \<and> (case slot of PInt n \<Rightarrow> 0 \<le> n | _ \<Rightarrow> False))"

definition slot_value :: "pyval \<Rightarrow> int" where
  "slot_value v = (case v of PInt n \<Rightarrow> n | _ \<Rightarrow> 0)"

text \<open>The checks of the signature: after the hash of the block has been compared.\<close>

definition pos_signature_check ::
    "rsa_library \<Rightarrow> pos_object \<Rightarrow> string \<Rightarrow> block \<Rightarrow> validation_result res" where
  "pos_signature_check L po validator_id b =
     (if \<not> has_key b ''signature'' \<or> \<not> has_key b ''public_key''
      then Inr (rejected ''missing validator signature'')
      else case map_of (po_keys po) validator_id of
        None \<Rightarrow> Inr (rejected ''validator public key not registered'')
      | Some registered_key \<Rightarrow>
          bindE (getitem b ''public_key'') (\<lambda>pk.
          if \<not> py_eq pk (PStr registered_key)
          then Inr (rejected ''public key does not match validator_id'')
          else bindE (verify_block_signature L (po_manager po) b) (\<lambda>ok.
            if \<not> ok then Inr (rejected ''invalid validator signature'') else Inr accepted)))"

definition pos_content_check ::
    "rsa_library \<Rightarrow> pos_object \<Rightarrow> stakes \<Rightarrow> pyval \<Rightarrow> block \<Rightarrow> string \<Rightarrow> int
     \<Rightarrow> validation_result res" where
  "pos_content_check L po validators header b validator_id slot =
     bindE (get_default b ''tran_body'' PNone) (\<lambda>tran_body.
     bindE (get_default header ''prev_hash'' PNone) (\<lambda>prev_hash.
     bindE (get_default header ''tran_hash'' PNone) (\<lambda>tran_hash.
     if \<not> is_dict tran_body \<or> \<not> is_str prev_hash \<or> tran_hash = PNone
     then Inr (rejected ''missing PoS fields'')
     else bindE (select_proposer slot validators) (\<lambda>expected_proposer.
     if validator_id \<noteq> expected_proposer then Inr (rejected ''invalid proposer for slot'')
     else bindE (as_str prev_hash) (\<lambda>prev.
     if \<not> py_eq tran_hash
          (PStr (calc_pos_tran_hash prev (calc_body_hash tran_body) validator_id slot))
     then Inr (rejected ''tran_hash mismatch'')
     else pos_signature_check L po validator_id b)))))"

text \<open>The stakes and the height a block is checked against.\<close>

definition effective_stakes :: "pos_object \<Rightarrow> stakes option \<Rightarrow> stakes" where
  "effective_stakes po vst = (case vst of Some v \<Rightarrow> v | None \<Rightarrow> po_validators po)"

definition effective_height :: "int option \<Rightarrow> chain \<Rightarrow> int" where
  "effective_height hgt ch = (case hgt of None \<Rightarrow> int (length ch) + 1 | Some h \<Rightarrow> h)"

definition pos_validate_block ::
    "rsa_library \<Rightarrow> pos_object \<Rightarrow> stakes option \<Rightarrow> int option \<Rightarrow> block \<Rightarrow> chain
     \<Rightarrow> validation_result res" where
  "pos_validate_block L po validators_at_state expected_height b ch =
     (let validators = effective_stakes po validators_at_state in
      bindE (get_default b ''block_header'' (PDict [])) (\<lambda>header.
      bindE (get_default header ''consensus_type'' PNone) (\<lambda>ct.
      if \<not> py_eq ct (PStr ''pos'') then Inr (rejected ''consensus_type is not pos'')
      else bindE (get_default header ''validator_id'' PNone) (\<lambda>vid.
      bindE (get_default header ''slot'' PNone) (\<lambda>slot.
      if \<not> pos_fields_ok vid slot then Inr (rejected ''missing PoS fields'')
      else if validators = [] then Inr (rejected ''no validators registered'')
      else if slot_value slot \<noteq> effective_height expected_height ch
      then Inr (rejected ''slot does not match block height'')
      else bindE (validator_key vid validators) (\<lambda>k.
        case k of
          None \<Rightarrow> Inr (rejected ''unknown validator'')
        | Some validator_id \<Rightarrow>
            pos_content_check L po validators header b validator_id (slot_value slot)))))))"

definition pos_on_block_added :: "pos_object \<Rightarrow> block \<Rightarrow> pos_object res" where
  "pos_on_block_added po b =
     bindE (apply_block_reward (po_settings po) (po_validators po) b) (\<lambda>vs.
     Inr (po\<lparr>po_validators := vs\<rparr>))"

section \<open>Chains\<close>

text \<open>\<open>_is_chain_valid\<close>: \<open>full\<close> is the whole chain, which every block is checked against.\<close>

fun pos_chain_valid_from ::
    "rsa_library \<Rightarrow> pos_object \<Rightarrow> chain \<Rightarrow> block option \<Rightarrow> chain \<Rightarrow> bool res" where
  "pos_chain_valid_from L po full prev [] = Inr True"
| "pos_chain_valid_from L po full prev (b # bs) =
     bindE (validate_chain_link (po_genesis_prev_hash po) b prev (Some (po_genesis_prev_hash po)))
       (\<lambda>link. if \<not> valid link then Inr False
     else bindE (pos_validate_block L po None None b full) (\<lambda>r.
       if \<not> valid r then Inr False
       else pos_chain_valid_from L po full (Some b) bs))"

definition pos_is_chain_valid :: "rsa_library \<Rightarrow> pos_object \<Rightarrow> chain \<Rightarrow> bool res" where
  "pos_is_chain_valid L po ch = pos_chain_valid_from L po ch None ch"

text \<open>The loop of \<open>validate_chain_with_genesis_stakes\<close>; \<open>height\<close> is \<open>index + 1\<close>.\<close>

fun genesis_stakes_loop ::
    "rsa_library \<Rightarrow> pos_object \<Rightarrow> string \<Rightarrow> chain \<Rightarrow> stakes \<Rightarrow> int \<Rightarrow> block option \<Rightarrow> chain
     \<Rightarrow> bool res" where
  "genesis_stakes_loop L po g full vs height prev [] = Inr True"
| "genesis_stakes_loop L po g full vs height prev (b # bs) =
     bindE (validate_chain_link (po_genesis_prev_hash po) b prev (Some g)) (\<lambda>link.
     if \<not> valid link then Inr False
     else bindE (pos_validate_block L po (Some vs) (Some height) b full) (\<lambda>r.
       if \<not> valid r then Inr False
       else bindE (apply_block_reward (po_settings po) vs b) (\<lambda>vs'.
         genesis_stakes_loop L po g full vs' (height + 1) (Some b) bs)))"

definition validate_chain_with_genesis_stakes ::
    "rsa_library \<Rightarrow> pos_object \<Rightarrow> chain \<Rightarrow> stakes \<Rightarrow> string option \<Rightarrow> bool res" where
  "validate_chain_with_genesis_stakes L po ch genesis_stakes g =
     genesis_stakes_loop L po (expected_genesis (po_genesis_prev_hash po) g) ch
       genesis_stakes 1 None ch"

definition block_weight :: "stakes \<Rightarrow> block \<Rightarrow> int res" where
  "block_weight vs b =
     bindE (rewarded_key vs b) (\<lambda>k.
     Inr (case k of None \<Rightarrow> 0 | Some s \<Rightarrow> the (map_of vs s)))"

definition stake_weight :: "stakes \<Rightarrow> chain \<Rightarrow> int res" where
  "stake_weight vs ch = bindE (mapE (block_weight vs) ch) (\<lambda>ws. Inr (sum_list ws))"

definition tip_text :: "chain \<Rightarrow> string res" where
  "tip_text ch =
     (if ch = [] then Inr []
      else bindE (get_default (last ch) ''block_header'' PNone) (\<lambda>h.
        bindE (get_default (if py_true h then h else PDict []) ''tran_hash'' (PStr []))
          (\<lambda>t. Inr (py_str t))))"

definition pos_score ::
    "pos_object \<Rightarrow> stakes option \<Rightarrow> chain \<Rightarrow> chain_score res" where
  "pos_score po genesis_stakes ch =
     bindE (tip_text ch) (\<lambda>tip.
     bindE (case genesis_stakes of
         Some g \<Rightarrow> compute_validators_from_chain ch g (po_settings po)
       | None \<Rightarrow> Inr (po_validators po)) (\<lambda>vs.
     bindE (stake_weight vs ch) (\<lambda>w. Inr (Score (int (length ch)) w tip))))"

definition pos_candidate_valid ::
    "rsa_library \<Rightarrow> pos_object \<Rightarrow> stakes option \<Rightarrow> chain \<Rightarrow> bool res" where
  "pos_candidate_valid L po genesis_stakes ch =
     (case genesis_stakes of
        Some g \<Rightarrow> validate_chain_with_genesis_stakes L po ch g None
      | None \<Rightarrow> pos_is_chain_valid L po ch)"

definition pos_select_canonical_chain ::
    "rsa_library \<Rightarrow> pos_object \<Rightarrow> stakes option \<Rightarrow> chain list \<Rightarrow> chain res" where
  "pos_select_canonical_chain L po genesis_stakes candidates =
     bindE (filterE (pos_candidate_valid L po genesis_stakes) candidates) (\<lambda>valid_chains.
     if valid_chains = [] then Inr []
     else best_chain (pos_score po genesis_stakes) valid_chains)"

definition pos_score_chain :: "pos_object \<Rightarrow> chain \<Rightarrow> chain_score res" where
  "pos_score_chain po ch =
     bindE (stake_weight (po_validators po) ch) (\<lambda>w. Inr (Score (int (length ch)) w []))"

definition sync_validators_from_chain ::
    "pos_object \<Rightarrow> chain \<Rightarrow> stakes \<Rightarrow> pos_object res" where
  "sync_validators_from_chain po ch genesis_stakes =
     bindE (compute_validators_from_chain ch genesis_stakes (po_settings po)) (\<lambda>vs.
     Inr (po\<lparr>po_genesis := Some genesis_stakes, po_validators := vs\<rparr>))"

section \<open>The accepted blocks\<close>

lemma validator_key_Some:
  "validator_key v vs = Inr (Some s) \<longleftrightarrow> v = PStr s \<and> map_of vs s \<noteq> None"
  by (cases v) (auto simp: validator_key_def)

lemma pos_fields_ok_iff:
  "pos_fields_ok v sl \<longleftrightarrow> py_true v \<and> (\<exists>n. sl = PInt n \<and> 0 \<le> n)"
  by (auto simp: pos_fields_ok_def split: pyval.splits)

lemma is_dict_iff: "is_dict v \<longleftrightarrow> (\<exists>kvs. v = PDict kvs)"
  by (cases v) (simp_all add: is_dict_def)

lemma is_str_iff: "is_str v \<longleftrightarrow> (\<exists>s. v = PStr s)"
  by (cases v) (simp_all add: is_str_def)

lemma pos_signature_accepted:
  "pos_signature_check L po v b = Inr accepted \<longleftrightarrow>
   (\<exists>pem. map_of (po_keys po) v = Some pem \<and> getitem b ''public_key'' = Inr (PStr pem)) \<and>
   has_key b ''signature'' \<and> verify_block_signature L (po_manager po) b = Inr True"
  by (auto simp: pos_signature_check_def res_simps has_key_iff)

lemma pos_content_accepted:
  "pos_content_check L po vs h b v n = Inr accepted \<longleftrightarrow>
   is_dict b \<and> is_dict h \<and>
   (\<exists>kvs p. getitem b ''tran_body'' = Inr (PDict kvs) \<and> getitem h ''prev_hash'' = Inr (PStr p) \<and>
     getitem h ''tran_hash'' = Inr (PStr (calc_pos_tran_hash p (calc_body_hash (PDict kvs)) v n))) \<and>
   select_proposer n vs = Inr v \<and> pos_signature_check L po v b = Inr accepted"
  (is "?l \<longleftrightarrow> ?r")
proof
  show "?l \<Longrightarrow> ?r"
    by (auto simp: pos_content_check_def res_simps get_default_iff is_dict_iff is_str_iff)
  assume ?r
  then show ?l
    by (auto simp: pos_content_check_def known_items is_dict_def is_str_def as_str_def)
qed

lemma pos_accepted_iff:
  "pos_validate_block L po vst hgt b ch = Inr accepted \<longleftrightarrow>
   (\<exists>v n kvs p pem.
      header_item b ''consensus_type'' = Inr (PStr ''pos'') \<and>
      header_item b ''validator_id'' = Inr (PStr v) \<and> v \<noteq> [] \<and>
      map_of (effective_stakes po vst) v \<noteq> None \<and>
      header_item b ''slot'' = Inr (PInt n) \<and> 0 \<le> n \<and> n = effective_height hgt ch \<and>
      select_proposer n (effective_stakes po vst) = Inr v \<and>
      getitem b ''tran_body'' = Inr (PDict kvs) \<and>
      header_item b ''prev_hash'' = Inr (PStr p) \<and>
      header_item b ''tran_hash'' =
        Inr (PStr (calc_pos_tran_hash p (calc_body_hash (PDict kvs)) v n)) \<and>
      map_of (po_keys po) v = Some pem \<and> getitem b ''public_key'' = Inr (PStr pem) \<and>
      has_key b ''signature'' \<and> verify_block_signature L (po_manager po) b = Inr True)"
  (is "?l \<longleftrightarrow> ?r")
proof
  show "?l \<Longrightarrow> ?r"
    by (auto simp: pos_validate_block_def Let_def res_simps get_default_iff pos_fields_ok_iff
        validator_key_Some pos_content_accepted pos_signature_accepted slot_value_def py_true_def)
  assume ?r
  then show ?l
    by (auto simp: pos_validate_block_def Let_def header_item_Inr known_items pos_fields_ok_def
        validator_key_def pos_content_accepted pos_signature_accepted slot_value_def py_true_def)
qed

lemma pos_valid_answer:
  "pos_validate_block L po vst hgt b ch = Inr r \<Longrightarrow> valid r \<longleftrightarrow> r = accepted"
  by (auto simp: pos_validate_block_def pos_content_check_def pos_signature_check_def res_simps Let_def)

section \<open>The proposer\<close>

lemma pick_validator_in: "pick_validator pick c vs = Some v \<Longrightarrow> v \<in> fst ` set vs"
  by (induction pick c vs rule: pick_validator.induct) (auto split: if_splits)

lemma select_proposer_in:
  assumes "select_proposer slot vs = Inr v" shows "v \<in> fst ` set vs"
proof (cases "pick_validator (slot_seed slot mod get_total_stake vs) 0 (sorted_items vs)")
  case None
  with assms have ne: "vs \<noteq> []" and v: "v = last (sort (map fst vs))"
    by (auto simp: select_proposer_def split: if_splits)
  have "sort (map fst vs) \<noteq> []" using ne by (metis length_0_conv length_map length_sort)
  then have "v \<in> set (sort (map fst vs))" unfolding v by (rule last_in_set)
  then show ?thesis by simp
next
  case (Some w)
  with assms have "v = w" by (auto simp: select_proposer_def split: if_splits)
  with pick_validator_in [OF Some] show ?thesis by (simp add: sorted_items_def)
qed

definition nonneg_stakes :: "stakes \<Rightarrow> bool" where
  "nonneg_stakes vs = list_all (\<lambda>(v, s). 0 \<le> s) vs"

lemma total_nonneg: "nonneg_stakes vs \<Longrightarrow> 0 \<le> get_total_stake vs"
  by (induction vs) (auto simp: get_total_stake_def nonneg_stakes_def)

lemma nonneg_stakes_simps [simp]:
  "nonneg_stakes []" "nonneg_stakes ((v, s) # vs) \<longleftrightarrow> 0 \<le> s \<and> nonneg_stakes vs"
  "nonneg_stakes (sorted_items vs) = nonneg_stakes vs"
  by (simp_all add: nonneg_stakes_def list_all_iff sorted_items_def)

lemma get_total_sorted [simp]: "get_total_stake (sorted_items vs) = get_total_stake vs"
  by (metis get_total_stake_def mset_map mset_sort sorted_items_def sum_mset_sum_list)

text \<open>The picks that choose \<open>v\<close> form an interval as long as the stake of \<open>v\<close>.\<close>

lemma pick_validator_above:
  assumes "nonneg_stakes vs" "c \<le> pick" "pick < c + get_total_stake vs"
  shows "\<exists>v. pick_validator pick c vs = Some v"
  using assms
proof (induction vs arbitrary: c)
  case (Cons x vs)
  obtain v s where x: "x = (v, s)" by force
  show ?case
  proof (cases "pick < c + s")
    case False
    have "\<exists>v. pick_validator pick (c + s) vs = Some v"
      using Cons.prems False by (intro Cons.IH) (auto simp: x get_total_stake_def algebra_simps)
    then show ?thesis using False by (simp add: x)
  qed (simp add: x)
qed (simp add: get_total_stake_def)

lemma picks_of_validator:
  assumes "distinct (map fst vs)" "nonneg_stakes vs" "(v, s) \<in> set vs"
  shows "\<exists>lo \<ge> c. lo + s \<le> c + get_total_stake vs \<and>
    {pick. c \<le> pick \<and> pick < c + get_total_stake vs \<and> pick_validator pick c vs = Some v} = {lo ..< lo + s}"
  using assms
proof (induction vs arbitrary: c)
  case (Cons x vs)
  obtain w t where x: "x = (w, t)" by force
  have nonneg: "0 \<le> t" "0 \<le> get_total_stake vs"
    using Cons.prems(2) by (auto simp: x intro!: total_nonneg)
  have total: "get_total_stake (x # vs) = t + get_total_stake vs"
    by (simp add: x get_total_stake_def)
  show ?case
  proof (cases "v = w")
    case True
    with Cons.prems have s: "s = t" by (force simp: x)
    have "w \<notin> fst ` set vs" using Cons.prems(1) by (simp add: x)
    then have "pick_validator pick (c + t) vs \<noteq> Some w" for pick
      using pick_validator_in by fast
    then have "{pick. c \<le> pick \<and> pick < c + get_total_stake (x # vs) \<and>
        pick_validator pick c (x # vs) = Some v} = {c ..< c + s}"
      unfolding total using nonneg by (auto simp: x True s)
    then show ?thesis using nonneg s total by (intro exI [of _ c]) simp
  next
    case False
    then have in_vs: "(v, s) \<in> set vs" using Cons.prems(3) by (simp add: x)
    have "distinct (map fst vs)" "nonneg_stakes vs" using Cons.prems(1,2) by (auto simp: x)
    from Cons.IH [where c = "c + t", OF this in_vs]
    obtain lo where lo: "c + t \<le> lo" "lo + s \<le> c + t + get_total_stake vs"
      and eq: "{pick. c + t \<le> pick \<and> pick < c + t + get_total_stake vs \<and>
        pick_validator pick (c + t) vs = Some v} = {lo ..< lo + s}"
      by auto
    have "c \<le> pick \<and> pick < c + get_total_stake (x # vs) \<and> pick_validator pick c (x # vs) = Some v \<longleftrightarrow>
        c + t \<le> pick \<and> pick < c + t + get_total_stake vs \<and> pick_validator pick (c + t) vs = Some v"
      for pick
      using False nonneg unfolding total by (simp add: x) linarith
    then have "{pick. c \<le> pick \<and> pick < c + get_total_stake (x # vs) \<and>
        pick_validator pick c (x # vs) = Some v} = {lo ..< lo + s}"
      using eq by simp
    then show ?thesis using lo nonneg total by (intro exI [of _ lo]) simp
  qed
qed simp

section \<open>Stake and rewards\<close>

lemma total_update:
  assumes "map_of vs k = Some n" "distinct (map fst vs)"
  shows "get_total_stake (AList.update k m vs) = get_total_stake vs - n + m"
  using assms
proof (induction vs)
  case (Cons x vs)
  then show ?case by (cases x) (auto simp: get_total_stake_def split: if_splits)
qed simp

lemma rewarded_key_Some: "rewarded_key vs b = Inr (Some k) \<Longrightarrow> map_of vs k \<noteq> None"
  by (auto simp: rewarded_key_def res_simps validator_key_Some)

lemma update_existing_keys:
  "map_of vs k \<noteq> None \<Longrightarrow> map fst (AList.update k v vs) = map fst vs"
  by (induction vs) auto

lemma apply_block_reward_Inr:
  assumes "apply_block_reward st vs b = Inr vs'" "distinct (map fst vs)"
  shows "map fst vs' = map fst vs"
    and "get_total_stake vs' = get_total_stake vs +
      (case rewarded_key vs b of Inr (Some k) \<Rightarrow> block_reward st | _ \<Rightarrow> 0)"
proof -
  from assms(1) obtain k where k: "rewarded_key vs b = Inr k"
    by (auto simp: apply_block_reward_def res_simps)
  show "map fst vs' = map fst vs"
    using assms(1) k
    by (cases k) (auto simp: apply_block_reward_def update_existing_keys [OF rewarded_key_Some])
  show "get_total_stake vs' = get_total_stake vs +
      (case rewarded_key vs b of Inr (Some k) \<Rightarrow> block_reward st | _ \<Rightarrow> 0)"
  proof (cases k)
    case (Some s)
    then obtain n where "map_of vs s = Some n" using k rewarded_key_Some by fast
    with assms k Some show ?thesis by (auto simp: apply_block_reward_def total_update)
  qed (use assms k in \<open>simp add: apply_block_reward_def\<close>)
qed

text \<open>A block whose validator is registered is rewarded, whatever the stakes are.\<close>

lemma rewarded_key_registered:
  assumes "header_item b ''validator_id'' = Inr (PStr v)" "v \<noteq> []" "map_of vs v \<noteq> None"
  shows "rewarded_key vs b = Inr (Some v)"
proof -
  from assms(1) obtain h where h: "getitem b ''block_header'' = Inr h" "getitem h ''validator_id'' = Inr (PStr v)"
    by (auto simp: header_item_Inr)
  then have "py_true h" by (cases h) (auto simp: getitem_def py_true_def)
  with h assms show ?thesis
    by (simp add: rewarded_key_def block_validator_id_def known_items py_true_def validator_key_def)
qed

section \<open>A proposed block is accepted\<close>

lemma update_same: "map_of kvs k = Some v \<Longrightarrow> AList.update k v kvs = kvs"
  by (induction kvs) (auto split: if_splits)

lemma dict_update_known:
  "(\<And>k v. (k, v) \<in> set kws \<Longrightarrow> map_of kvs k = Some v) \<Longrightarrow> dict_update kvs kws = kvs"
  by (induction kws) (auto simp: dict_update_def update_same)

text \<open>\<open>block.update(sign_block(dict(block)))\<close> adds the two items of the signature.\<close>

lemma py_update_signed:
  assumes "distinct (map fst kvs)"
  shows "dict_update kvs (AList.update ''public_key'' p (AList.update ''signature'' s (unsigned_items kvs)))
    = AList.update ''public_key'' p (AList.update ''signature'' s kvs)"
proof -
  have keys: "''public_key'' \<in> signature_keys" "''signature'' \<in> signature_keys"
    by (simp_all add: signature_keys_def)
  have new: "AList.update ''signature'' s (unsigned_items kvs) = unsigned_items kvs @ [(''signature'', s)]"
    by (rule update_new) (rule unsigned_items_keys [OF keys(2)])
  have "AList.update ''public_key'' p (AList.update ''signature'' s (unsigned_items kvs)) =
      unsigned_items kvs @ [(''signature'', s), (''public_key'', p)]"
    using unsigned_items_keys [OF keys(1), of kvs]
    unfolding new by (subst update_new) auto
  moreover have "dict_update kvs (unsigned_items kvs) = kvs"
    using assms by (intro dict_update_known) (auto simp: unsigned_items_def map_of_eq_Some_iff)
  ultimately show ?thesis by (simp add: dict_update_def)
qed

lemma delete_signature:
  "AList.delete ''public_key'' (AList.delete ''signature''
     (AList.update ''public_key'' p (AList.update ''signature'' s kvs))) = unsigned_items kvs"
proof -
  show ?thesis by (simp add: delete_update delete_update_same delete_signature_items)
qed

lemma updated_block_verifies:
  assumes "rsa_laws L" "manager_ok L m" "sign_block L rnd m b = Inr sb"
    and "b = PDict kvs" "distinct (map fst kvs)" "py_update b sb = Inr b'"
  shows "verify_block_signature L v b' = Inr True"
    and "\<exists>pk. sm_public m = Some pk \<and> getitem b' ''public_key'' = Inr (PStr (lib_public_pem L pk))"
    and "has_key b' ''signature''"
    and "k \<notin> signature_keys \<Longrightarrow> getitem b' k = getitem b k"
proof -
  from sign_block_Inr [OF assms(1,3)] assms(4) obtain sig pk where
    sb: "sb = PDict (AList.update ''public_key'' (PStr (lib_public_pem L pk))
           (AList.update ''signature'' (PStr (bytes_hex sig)) (unsigned_items kvs)))"
    and sig: "sign_data L rnd m (PDict (unsigned_items kvs)) = Inr sig" and pk: "sm_public m = Some pk"
    by blast
  have b': "b' = PDict (AList.update ''public_key'' (PStr (lib_public_pem L pk))
           (AList.update ''signature'' (PStr (bytes_hex sig)) kvs))"
    using assms(4-6) by (simp add: sb py_update_def py_update_signed)
  have "verify_signature L v (PDict (unsigned_items kvs)) sig (Some (RsaKey pk)) = Inr True"
    using verify_own_signature [OF assms(1,2) sig] pk by auto
  then show "verify_block_signature L v b' = Inr True"
    by (simp add: b' verify_block_signature_def update_conv' delete_signature
        import_exported_key [OF assms(1)])
  show "\<exists>pk. sm_public m = Some pk \<and> getitem b' ''public_key'' = Inr (PStr (lib_public_pem L pk))"
    by (simp add: b' pk getitem_def update_conv')
  show "has_key b' ''signature''" by (simp add: b' has_key_def update_conv')
  show "k \<notin> signature_keys \<Longrightarrow> getitem b' k = getitem b k"
    by (auto simp: b' assms(4) getitem_def update_conv' signature_keys_def)
qed

section \<open>The seal of an accepted block\<close>

lemma pos_accepted_sealed:
  assumes "pos_validate_block L po vst hgt b ch = Inr accepted" shows "sealed b"
  using assms
  by (auto simp: pos_accepted_iff sealed_def header_text_def header_int_def block_body_def
      block_text_def seal_text_def calc_pos_tran_hash_def py_int_def)

interpretation pos_seals: sealing_protocol
    "\<lambda>b. \<exists>L po vst hgt ch. pos_validate_block L po vst hgt b ch = Inr accepted"
  by unfold_locales (blast intro: pos_accepted_sealed)

text \<open>The node's own key is registered under its own id, as \<open>register_validator\<close> does.\<close>

definition own_key_registered :: "rsa_library \<Rightarrow> pos_object \<Rightarrow> bool" where
  "own_key_registered L po =
     (case (po_node_id po, sm_public (po_manager po)) of
        (Some v, Some pk) \<Rightarrow> v \<noteq> [] \<and> map_of (po_keys po) v = Some (lib_public_pem L pk)
      | _ \<Rightarrow> True)"

lemma setitem_distinct:
  assumes "setitem (PDict kvs) k v = Inr w" "distinct (map fst kvs)"
  shows "\<exists>kws. w = PDict kws \<and> distinct (map fst kws)"
  using assms by (auto simp: setitem_def distinct_update)

lemma pos_prepared:
  assumes lib: "rsa_laws L" "manager_ok L (po_manager po)" "own_key_registered L po"
    and prep: "pos_prepare_block L rnd po b ch = Inr b'"
    and b: "b = PDict kvs" "distinct (map fst kvs)"
    and body: "getitem b ''tran_body'' = Inr (PDict body)"
    and vs: "proposal_validators po ch = Inr vs"
  shows "pos_validate_block L po (Some vs) None b' ch = Inr accepted"
    and "header_item b' ''prev_hash'' = header_item b ''prev_hash''"
    and "k \<notin> signature_keys \<Longrightarrow> k \<noteq> ''block_header'' \<Longrightarrow> getitem b' k = getitem b k"
proof -
  let ?n = "int (length ch) + 1"
  from prep vs body obtain v header h b1 sb where
    v: "select_proposer ?n vs = Inr v" "po_node_id po = Some v" and
    header: "getitem b ''block_header'' = Inr header" and
    h: "proposal_header header (PDict body) v ?n = Inr h" and
    b1: "setitem b ''block_header'' h = Inr b1" and
    sb: "sign_block L rnd (po_manager po) b1 = Inr sb" and
    b': "py_update b1 sb = Inr b'"
    by (auto simp: pos_prepare_block_def Let_def res_simps)
  from h obtain h1 h2 h3 p where
    "setitem header ''validator_id'' (PStr v) = Inr h1" "setitem h1 ''slot'' (PInt ?n) = Inr h2"
    "setitem h2 ''tran_hash'' (PStr (calc_pos_tran_hash p (calc_body_hash (PDict body)) v ?n)) = Inr h3"
    "setitem h3 ''consensus_type'' (PStr ''pos'') = Inr h" and p: "getitem h2 ''prev_hash'' = Inr (PStr p)"
    by (auto simp: proposal_header_def res_simps)
  note sets = this(1-4) [THEN getitem_setitem]
  obtain k1 where k1: "b1 = PDict k1" "distinct (map fst k1)"
    using setitem_distinct b1 b by blast
  note signed_facts = updated_block_verifies [OF lib(1,2) sb k1 b']
  have keys: "k \<notin> signature_keys" if "k \<in> {''tran_body'', ''block_header''}" for k
    using that by (auto simp: signature_keys_def)
  note items = signed_facts(4) [OF keys] getitem_setitem [OF b1]
  have hd: "getitem b' ''block_header'' = Inr h" by (simp add: items)
  obtain pk where pk: "sm_public (po_manager po) = Some pk"
    "getitem b' ''public_key'' = Inr (PStr (lib_public_pem L pk))" using signed_facts(2) by blast
  with lib(3) v(2) have reg: "map_of (po_keys po) v = Some (lib_public_pem L pk)" "v \<noteq> []"
    by (simp_all add: own_key_registered_def)
  have "map_of vs v \<noteq> None" using select_proposer_in [OF v(1)] by (simp add: map_of_eq_None_iff)
  then show "pos_validate_block L po (Some vs) None b' ch = Inr accepted"
    using hd v reg pk(2) p body signed_facts(1,3)
    by (simp add: pos_accepted_iff header_item_Inr effective_stakes_def effective_height_def sets items)
  show "header_item b' ''prev_hash'' = header_item b ''prev_hash''"
    using hd header by (simp add: header_item_def sets)
  show "k \<notin> signature_keys \<Longrightarrow> k \<noteq> ''block_header'' \<Longrightarrow> getitem b' k = getitem b k"
    by (simp add: signed_facts(4) getitem_setitem [OF b1])
qed

text \<open>Verification reads neither the current stakes nor the pinned genesis of the object.\<close>

lemma pos_validate_block_core:
  assumes "po_settings po' = po_settings po" "po_manager po' = po_manager po" "po_keys po' = po_keys po"
  shows "pos_validate_block L po' (Some v) h b ch = pos_validate_block L po (Some v) h b ch"
  by (simp only: pos_validate_block_def pos_content_check_def pos_signature_check_def
      effective_stakes_def option.case assms)

lemma compute_validators_keys:
  "compute_validators_from_chain ch vs st = Inr vs' \<Longrightarrow> distinct (map fst vs) \<Longrightarrow>
   map fst vs' = map fst vs"
proof (induction ch arbitrary: vs)
  case (Cons b ch)
  then obtain v1 where v1: "apply_block_reward st vs b = Inr v1"
    and "compute_validators_from_chain ch v1 st = Inr vs'"
    by (auto simp: compute_validators_from_chain_def res_simps)
  then show ?case using Cons apply_block_reward_Inr(1) [OF v1] by simp
qed (simp add: compute_validators_from_chain_def)

lemma compute_validators_snoc:
  "compute_validators_from_chain (ch @ [b]) vs st =
   bindE (compute_validators_from_chain ch vs st) (\<lambda>v. apply_block_reward st v b)"
proof -
  have "bindE m (\<lambda>x. Inr x) = m" for m :: "stakes res" by (cases m) simp_all
  then show ?thesis by (simp add: compute_validators_from_chain_def foldE_append)
qed

section \<open>The proposer, the reward and the proposal\<close>

text \<open>The picks of one round that choose \<open>v\<close>.\<close>

definition picks_for :: "stakes \<Rightarrow> string \<Rightarrow> int set" where
  "picks_for vs v =
     {pick. 0 \<le> pick \<and> pick < get_total_stake vs \<and> pick_validator pick 0 (sorted_items vs) = Some v}"

lemma picks_for_interval:
  assumes "distinct (map fst vs)" "nonneg_stakes vs" "(v, s) \<in> set vs"
  shows "\<exists>lo. picks_for vs v = {lo ..< lo + s}"
proof -
  have "mset (map fst (sorted_items vs)) = mset (map fst vs)" by (simp add: sorted_items_def)
  then have "distinct (map fst (sorted_items vs))"
    using assms(1) by (metis mset_eq_imp_distinct_iff)
  moreover have "nonneg_stakes (sorted_items vs)" "(v, s) \<in> set (sorted_items vs)"
    using assms(2,3) by simp (simp add: assms(3) sorted_items_def)
  ultimately show ?thesis
    using picks_of_validator [of "sorted_items vs" v s 0] by (simp add: picks_for_def) blast
qed

text \<open>
  C7: The lottery is proportional to stake: over one round of picks every validator is
  chosen exactly as many times as it has stake, and the chosen proposer has some.
\<close>

theorem proposer_share:
  assumes "distinct (map fst vs)" "nonneg_stakes vs" "0 < get_total_stake vs"
  shows "(\<forall>(v, s) \<in> set vs. int (card (picks_for vs v)) = s) \<and>
    (\<exists>v s. select_proposer slot vs = Inr v \<and> (v, s) \<in> set vs \<and> 0 < s \<and>
      slot_seed slot mod get_total_stake vs \<in> picks_for vs v)"
proof
  have nn: "0 \<le> s" if "(v, s) \<in> set vs" for v s
    using assms(2) that by (auto simp: nonneg_stakes_def list_all_iff)
  show "\<forall>(v, s) \<in> set vs. int (card (picks_for vs v)) = s"
  proof clarify
    fix v s assume v: "(v, s) \<in> set vs"
    then obtain lo where "picks_for vs v = {lo ..< lo + s}"
      using picks_for_interval [OF assms(1,2)] by blast
    then show "int (card (picks_for vs v)) = s" using nn [OF v] by simp
  qed
  let ?p = "slot_seed slot mod get_total_stake vs"
  have p: "0 \<le> ?p" "?p < get_total_stake vs" using assms(3) by simp_all
  then obtain v where v: "pick_validator ?p 0 (sorted_items vs) = Some v"
    using pick_validator_above [of "sorted_items vs" 0 ?p] assms(2) by auto
  then obtain s where s: "(v, s) \<in> set vs"
    using pick_validator_in [OF v] by (auto simp: sorted_items_def)
  have mem: "?p \<in> picks_for vs v" using p v by (simp add: picks_for_def)
  with picks_for_interval [OF assms(1,2) s] have "0 < s" by auto
  moreover have "select_proposer slot vs = Inr v"
    using v assms(3) by (auto simp: select_proposer_def get_total_stake_def)
  ultimately show "\<exists>v s. select_proposer slot vs = Inr v \<and> (v, s) \<in> set vs \<and> 0 < s \<and>
      ?p \<in> picks_for vs v" using s mem by blast
qed

theorem proposer_share_witness:
  "int (card (picks_for [(''b'', 300), (''a'', 100)] ''b'')) = 300"
proof -
  let ?vs = "[(''b'', 300), (''a'', 100)]"
  have "distinct (map fst ?vs)" "nonneg_stakes ?vs" "0 < get_total_stake ?vs"
    by (simp_all add: get_total_stake_def)
  from proposer_share [OF this] show ?thesis by simp
qed

text \<open>The example: one validator \<open>v\<close> that holds the key \<open>k\<close>, on a chain with genesis hash \<open>1\<close>.\<close>

definition sample_pos :: pos_object where
  "sample_pos = \<lparr>po_settings = default_pos, po_node_id = Some ''v'',
     po_manager = \<lparr>sm_private = Some ''k'', sm_public = Some ''k''\<rparr>,
     po_validators = [(''v'', 100)], po_genesis = Some [(''v'', 100)],
     po_keys = [(''v'', lib_public_pem sample_rsa ''k'')], po_genesis_prev_hash = ''1''\<rparr>"

definition sample_pos_draft :: block where
  "sample_pos_draft = PDict [(''block_index'', PInt 1), (''block_item'', PStr ''2024-01-01 00:00:00''),
     (''block_header'', PDict [(''prev_hash'', PStr ''1''), (''consensus_type'', PStr ''pos''),
        (''tran_hash'', PStr [])]),
     (''tran_counter'', PInt 0), (''tran_body'', sample_body)]"

lemma single_proposer: "0 < s \<Longrightarrow> select_proposer slot [(v, s)] = Inr v"
  by (simp add: select_proposer_def get_total_stake_def sorted_items_def)

lemma sample_pos_facts:
  "manager_ok sample_rsa (po_manager sample_pos)" "own_key_registered sample_rsa sample_pos"
  "proposal_validators sample_pos [] = Inr [(''v'', 100)]"
  by (simp_all add: sample_pos_def manager_ok_def sample_rsa_def own_key_registered_def
      proposal_validators_def compute_validators_from_chain_def)

lemma sample_pos_made: "\<exists>b. pos_prepare_block sample_rsa 0 sample_pos sample_pos_draft [] = Inr b"
proof -
  have pem: "ascii_decode (''-----'' @ bytes_hex ''k'') = Inr (''-----'' @ bytes_hex ''k'')"
    by (simp add: ascii_decode_def bytes_hex_ascii)
  show ?thesis
    using sample_pos_facts(3) single_proposer [of 100 1 "''v''"] pem
    by (simp add: pos_prepare_block_def sample_pos_draft_def sample_pos_def getitem_def setitem_def
        proposal_header_def as_str_def sign_block_def sign_data_def sample_rsa_def
        export_public_key_def lower_char_def py_update_def Let_def)
qed



text \<open>
  C5: An accepted block carries a signature that verifies, over the JSON text of the block
  without the signature items, under the key registered for the proposer of its slot.
\<close>

theorem accepted_block_authentic:
  assumes "pos_validate_block L po vst hgt b ch = Inr accepted"
  shows "\<exists>v kvs pem hex sig pk.
    select_proposer (effective_height hgt ch) (effective_stakes po vst) = Inr v \<and>
    header_item b ''validator_id'' = Inr (PStr v) \<and> map_of (po_keys po) v = Some pem \<and>
    b = PDict kvs \<and> map_of kvs ''signature'' = Some (PStr hex) \<and> fromhex hex = Inr sig \<and>
    import_public_key L (utf8_encode pem) = Inr (RsaKey pk) \<and>
    int (length sig) = lib_key_size L pk div 8 \<and>
    lib_verify L pk sig (utf8_encode (json_dumps_sorted (PDict (unsigned_items kvs))))"
proof -
  from assms obtain v pem where v: "select_proposer (effective_height hgt ch) (effective_stakes po vst) = Inr v"
    "header_item b ''validator_id'' = Inr (PStr v)" "map_of (po_keys po) v = Some pem"
    and pk: "getitem b ''public_key'' = Inr (PStr pem)"
    and ver: "verify_block_signature L (po_manager po) b = Inr True"
    by (auto simp: pos_accepted_iff)
  from verify_block_signature_True [OF ver] v pk show ?thesis
    by (auto simp: getitem_def split: option.splits)
qed

theorem accepted_block_authentic_witness:
  "\<exists>b hex. pos_prepare_block sample_rsa 0 sample_pos sample_pos_draft [] = Inr b \<and>
     getitem b ''signature'' = Inr (PStr hex)"
proof -
  obtain b where b: "pos_prepare_block sample_rsa 0 sample_pos sample_pos_draft [] = Inr b"
    using sample_pos_made by blast
  obtain kvs body where d: "sample_pos_draft = PDict kvs" "distinct (map fst kvs)"
      "getitem sample_pos_draft ''tran_body'' = Inr (PDict body)"
    by (simp add: sample_pos_draft_def getitem_def sample_body_def)
  have "pos_validate_block sample_rsa sample_pos (Some [(''v'', 100)]) None b [] = Inr accepted"
    by (rule pos_prepared [OF sample_rsa_laws sample_pos_facts(1,2) b d sample_pos_facts(3)])
  from accepted_block_authentic [OF this] b show ?thesis by (auto simp: getitem_def)
qed

text \<open>
  C18: Without genesis stakes \<open>select_canonical_chain\<close> validates every block against the
  whole chain, so it demands of each of them the slot after the chain's end: a chain whose
  first block has slot 1, as \<open>prepare_block\<close> makes it, is never valid.
\<close>

theorem compat_mode_rejects:
  assumes "ch \<noteq> []" "header_item (hd ch) ''slot'' = Inr (PInt 1)"
  shows "pos_is_chain_valid L po ch \<noteq> Inr True"
proof
  assume "pos_is_chain_valid L po ch = Inr True"
  then have "pos_validate_block L po None None (hd ch) ch = Inr accepted"
    using assms(1) by (cases ch)
      (auto simp: pos_is_chain_valid_def check_then [OF validate_chain_link_valid]
        check_then [OF pos_valid_answer])
  with assms(2) have "1 = effective_height None ch" by (auto simp: pos_accepted_iff)
  with assms(1) show False by (simp add: effective_height_def)
qed

theorem compat_mode_rejects_witness:
  "\<exists>b. pos_prepare_block sample_rsa 0 sample_pos sample_pos_draft [] = Inr b \<and>
     pos_validate_block sample_rsa sample_pos None None b [] = Inr accepted \<and>
     pos_is_chain_valid sample_rsa sample_pos [b] \<noteq> Inr True"
proof -
  obtain b where b: "pos_prepare_block sample_rsa 0 sample_pos sample_pos_draft [] = Inr b"
    using sample_pos_made by blast
  obtain kvs body where d: "sample_pos_draft = PDict kvs" "distinct (map fst kvs)"
      "getitem sample_pos_draft ''tran_body'' = Inr (PDict body)"
    by (simp add: sample_pos_draft_def getitem_def sample_body_def)
  have "pos_validate_block sample_rsa sample_pos (Some [(''v'', 100)]) None b [] = Inr accepted"
    by (rule pos_prepared [OF sample_rsa_laws sample_pos_facts(1,2) b d sample_pos_facts(3)])
  then have acc: "pos_validate_block sample_rsa sample_pos None None b [] = Inr accepted"
    by (simp add: pos_accepted_iff effective_stakes_def sample_pos_def)
  then have "header_item (hd [b]) ''slot'' = Inr (PInt 1)"
    by (auto simp: pos_accepted_iff effective_height_def)
  with compat_mode_rejects [of "[b]"] acc b show ?thesis by blast
qed


lemma sample_stake_block:
  "\<exists>b. header_item b ''prev_hash'' = Inr (PStr ''1'') \<and> getitem b ''block_index'' = Inr (PInt 1) \<and>
     pos_validate_block sample_rsa sample_pos (Some [(''v'', 100)]) (Some 1) b [b] = Inr accepted \<and>
     rewarded_key [(''v'', 100)] b = Inr (Some ''v'')"
proof -
  obtain b where b: "pos_prepare_block sample_rsa 0 sample_pos sample_pos_draft [] = Inr b"
    using sample_pos_made by blast
  obtain kvs body where d: "sample_pos_draft = PDict kvs" "distinct (map fst kvs)"
      "getitem sample_pos_draft ''tran_body'' = Inr (PDict body)"
    by (simp add: sample_pos_draft_def getitem_def sample_body_def)
  note made = pos_prepared [OF sample_rsa_laws sample_pos_facts(1,2) b d sample_pos_facts(3)]
  have prev: "header_item b ''prev_hash'' = Inr (PStr ''1'')"
    using made(2) by (simp add: sample_pos_draft_def header_item_def getitem_def)
  have idx: "getitem b ''block_index'' = Inr (PInt 1)"
    using made(3) [of "''block_index''"] by (simp add: signature_keys_def sample_pos_draft_def getitem_def)
  have acc: "pos_validate_block sample_rsa sample_pos (Some [(''v'', 100)]) (Some 1) b [b] = Inr accepted"
    using made(1) by (simp add: pos_accepted_iff effective_height_def)
  then obtain v where "header_item b ''validator_id'' = Inr (PStr v)" "v \<noteq> []"
    "map_of [(''v'', 100 :: int)] v \<noteq> None" by (auto simp: pos_accepted_iff effective_stakes_def)
  from rewarded_key_registered [OF this] this(3) have "rewarded_key [(''v'', 100)] b = Inr (Some ''v'')"
    by (simp split: if_splits)
  with prev idx acc show ?thesis by blast
qed

text \<open>The example block on its own makes a valid candidate that beats the empty chain.\<close>

lemma sample_candidates:
  "\<exists>b w t. pos_candidate_valid sample_rsa sample_pos (Some [(''v'', 100)]) [b] = Inr True \<and>
     pos_candidate_valid sample_rsa sample_pos (Some [(''v'', 100)]) [] = Inr True \<and>
     pos_score sample_pos (Some [(''v'', 100)]) [b] = Inr (Score 1 w t) \<and>
     pos_score sample_pos (Some [(''v'', 100)]) [] = Inr (Score 0 0 [])"
proof -
  obtain b where b: "header_item b ''prev_hash'' = Inr (PStr ''1'')" "getitem b ''block_index'' = Inr (PInt 1)"
    "pos_validate_block sample_rsa sample_pos (Some [(''v'', 100)]) (Some 1) b [b] = Inr accepted"
    "rewarded_key [(''v'', 100)] b = Inr (Some ''v'')" using sample_stake_block by blast
  have g: "po_genesis_prev_hash sample_pos = ''1''" by (simp add: sample_pos_def)
  have link: "validate_chain_link ''1'' b None (Some ''1'') = Inr accepted"
    using b(1,2) by (simp add: validate_chain_link_first expected_genesis_def num_eq_def)
  have reward: "apply_block_reward (po_settings sample_pos) [(''v'', 100)] b = Inr [(''v'', 110)]"
    using b(4) by (simp add: apply_block_reward_def sample_pos_def default_pos_def)
  have ok: "pos_candidate_valid sample_rsa sample_pos (Some [(''v'', 100)]) [b] = Inr True"
    using link b(3) reward
    by (simp add: pos_candidate_valid_def validate_chain_with_genesis_stakes_def g expected_genesis_def)
  from b(3) obtain h th where h: "getitem b ''block_header'' = Inr h" "getitem h ''tran_hash'' = Inr th"
    by (auto simp: pos_accepted_iff header_item_Inr)
  then have "py_true h" by (cases h) (auto simp: getitem_def py_true_def)
  with h have tip: "tip_text [b] = Inr (py_str th)" by (simp add: tip_text_def known_items)
  have "block_validator_id b = Inr (PStr ''v'')"
    using b(4) by (auto simp: rewarded_key_def res_simps validator_key_Some)
  then have "block_weight [(''v'', 110)] b = Inr 110"
    by (simp add: block_weight_def rewarded_key_def validator_key_def py_true_def)
  with tip reward have "pos_score sample_pos (Some [(''v'', 100)]) [b] = Inr (Score 1 110 (py_str th))"
    by (simp add: pos_score_def compute_validators_from_chain_def stake_weight_def)
  moreover have "pos_score sample_pos (Some [(''v'', 100)]) [] = Inr (Score 0 0 [])"
    by (simp add: pos_score_def compute_validators_from_chain_def stake_weight_def tip_text_def)
  moreover have "pos_candidate_valid sample_rsa sample_pos (Some [(''v'', 100)]) [] = Inr True"
    by (simp add: pos_candidate_valid_def validate_chain_with_genesis_stakes_def)
  ultimately show ?thesis using ok by blast
qed


end
