(* ===== verification/Consensus.thy ===== *)
theory Consensus
  imports Proof_Of_Work Proof_Of_Stake
begin

text \<open>
  The consensus object a chain or a node holds: one of the two classes, with the dynamic
  dispatch of the methods of \<open>ConsensusProtocol\<close>, and \<open>consensus/factory.py\<close>, which
  builds it.
\<close>

record pow_object =
  pw_settings :: pow_settings
  pw_genesis_prev_hash :: string

datatype consensus_obj = PowC pow_object | PosC pos_object

definition new_pow :: "pow_settings \<Rightarrow> pow_object" where
  "new_pow st = \<lparr>pw_settings = st, pw_genesis_prev_hash = DEFAULT_GENESIS_PREV_HASH\<rparr>"

section \<open>Dispatch\<close>

fun consensus_type :: "consensus_obj \<Rightarrow> string" where
  "consensus_type (PowC _) = ''pow''"
| "consensus_type (PosC _) = ''pos''"

fun own_genesis :: "consensus_obj \<Rightarrow> string" where
  "own_genesis (PowC pw) = pw_genesis_prev_hash pw"
| "own_genesis (PosC po) = po_genesis_prev_hash po"

definition c_validate_link ::
    "consensus_obj \<Rightarrow> block \<Rightarrow> block option \<Rightarrow> string \<Rightarrow> validation_result res" where
  "c_validate_link c b prev g = validate_chain_link (own_genesis c) b prev (Some g)"

fun c_validate_block ::
    "rsa_library \<Rightarrow> consensus_obj \<Rightarrow> block \<Rightarrow> chain \<Rightarrow> validation_result res" where
  "c_validate_block L (PowC pw) b ch = pow_validate_block (pw_settings pw) b ch"
| "c_validate_block L (PosC po) b ch = pos_validate_block L po None None b ch"

fun c_prepare_block ::
    "rsa_library \<Rightarrow> nat \<Rightarrow> consensus_obj \<Rightarrow> block \<Rightarrow> chain \<Rightarrow> block res" where
  "c_prepare_block L rnd (PowC pw) b ch = pow_prepare_block (pw_settings pw) b ch"
| "c_prepare_block L rnd (PosC po) b ch = pos_prepare_block L rnd po b ch"

fun c_on_block_added :: "consensus_obj \<Rightarrow> block \<Rightarrow> consensus_obj res" where
  "c_on_block_added (PowC pw) b = Inr (PowC pw)"
| "c_on_block_added (PosC po) b = bindE (pos_on_block_added po b) (\<lambda>po'. Inr (PosC po'))"

fun c_select_canonical_chain ::
    "rsa_library \<Rightarrow> consensus_obj \<Rightarrow> stakes option \<Rightarrow> chain list \<Rightarrow> chain res" where
  "c_select_canonical_chain L (PowC pw) gs candidates =
     pow_select_canonical_chain (pw_settings pw) (pw_genesis_prev_hash pw) candidates"
| "c_select_canonical_chain L (PosC po) gs candidates =
     pos_select_canonical_chain L po gs candidates"

fun c_score_chain :: "consensus_obj \<Rightarrow> chain \<Rightarrow> chain_score res" where
  "c_score_chain (PowC pw) ch = pow_score_chain ch"
| "c_score_chain (PosC po) ch = pos_score_chain po ch"

section \<open>The factory\<close>

text \<open>\<open>genesis_stakes\<close> with the node itself added at the minimum stake.\<close>

definition initial_stakes :: "string option \<Rightarrow> stakes option \<Rightarrow> int \<Rightarrow> stakes" where
  "initial_stakes node_id genesis_stakes minimum =
     (let stakes = (case genesis_stakes of Some g \<Rightarrow> g | None \<Rightarrow> []) in
      case node_id of
        Some v \<Rightarrow>
          if v \<noteq> [] \<and> map_of stakes v = None then AList.update v minimum stakes else stakes
      | None \<Rightarrow> stakes)"

definition create_consensus ::
    "rsa_library \<Rightarrow> consensus_settings \<Rightarrow> string \<Rightarrow> string option \<Rightarrow> signature_manager option
     \<Rightarrow> stakes option \<Rightarrow> consensus_obj res" where
  "create_consensus L cs genesis_prev_hash node_id sm genesis_stakes =
     (case cs_type cs of
        Pow \<Rightarrow> Inr (PowC ((new_pow (cs_pow cs))\<lparr>pw_genesis_prev_hash := genesis_prev_hash\<rparr>))
      | Pos \<Rightarrow>
          bindE (foldE (\<lambda>po (v, stake). register_validator L po v stake None)
              (new_pos (cs_pos cs) node_id sm genesis_stakes)
              (initial_stakes node_id genesis_stakes (min_stake (cs_pos cs)))) (\<lambda>po.
          Inr (PosC (po\<lparr>po_genesis_prev_hash := genesis_prev_hash\<rparr>))))"

section \<open>Facts\<close>

lemma c_valid_answer: "c_validate_block L c b ch = Inr r \<Longrightarrow> valid r \<longleftrightarrow> r = accepted"
  by (cases c) (auto dest: pow_valid_answer pos_valid_answer)

lemma c_link_answer: "c_validate_link c b prev g = Inr r \<Longrightarrow> valid r \<longleftrightarrow> r = accepted"
  by (simp add: c_validate_link_def validate_chain_link_valid)

lemma c_accepted_sealed: "c_validate_block L c b ch = Inr accepted \<Longrightarrow> sealed b"
  by (cases c) (auto dest: pow_accepted_sealed pos_accepted_sealed)

text \<open>Registration fails below the minimum and keeps the other stakes.\<close>

lemma register_validator_Inr:
  assumes "register_validator L po v stake k = Inr po'"
  shows "min_stake (po_settings po) \<le> stake"
    and "po_validators po' = AList.update v stake (po_validators po)"
    and "po_settings po' = po_settings po" "po_genesis po' = po_genesis po"
    and "po_manager po' = po_manager po" "po_node_id po' = po_node_id po"
  using assms by (auto simp: register_validator_def Let_def res_simps)

lemma register_all_validators:
  assumes "foldE (\<lambda>po (v, stake). register_validator L po v stake None) po vs = Inr po'"
  shows "po_validators po' = fold (\<lambda>(v, s). AList.update v s) vs (po_validators po) \<and>
    po_settings po' = po_settings po \<and> po_genesis po' = po_genesis po \<and>
    po_manager po' = po_manager po \<and> po_node_id po' = po_node_id po \<and>
    list_all (\<lambda>(v, s). min_stake (po_settings po) \<le> s) vs"
  using assms
proof (induction vs arbitrary: po)
  case (Cons x vs)
  obtain v s where x: "x = (v, s)" by force
  with Cons.prems obtain po1 where po1: "register_validator L po v s None = Inr po1"
    and r: "foldE (\<lambda>po (v, stake). register_validator L po v stake None) po1 vs = Inr po'"
    by (auto simp: res_simps)
  show ?case using Cons.IH [OF r] register_validator_Inr [OF po1] by (simp add: x)
qed simp

lemma fold_update_fresh:
  "distinct (map fst vs) \<Longrightarrow> fst ` set vs \<inter> fst ` set us = {} \<Longrightarrow>
   fold (\<lambda>(v, s). AList.update v s) vs us = us @ vs"
proof (induction vs arbitrary: us)
  case (Cons x vs)
  then show ?case by (cases x) (auto simp: update_new)
qed simp

end
