(* ===== verification/Chain_Validator.thy ===== *)
theory Chain_Validator
  imports Consensus
begin

text \<open>
  \<open>chain_validator.py\<close>: \<open>verify_chain_integrity\<close> with its two loops, one for proof of
  stake with the stakes of the genesis, one for every other configuration.
\<close>

section \<open>The checks of one position\<close>

text \<open>A check answers \<open>None\<close>, or \<open>Some\<close> reason for the failure.\<close>

definition fault_of :: "validation_result res \<Rightarrow> string option res" where
  "fault_of m = bindE m (\<lambda>r. Inr (if valid r then None else Some (reason r)))"

definition and_then :: "string option res \<Rightarrow> string option res \<Rightarrow> string option res" where
  "and_then m m' = bindE m (\<lambda>f. case f of Some r \<Rightarrow> Inr (Some r) | None \<Rightarrow> m')"

definition genesis_fault :: "block \<Rightarrow> string \<Rightarrow> string option res" where
  "genesis_fault b g =
     bindE (header_item b ''prev_hash'') (\<lambda>p.
     Inr (if py_eq p (PStr g) then None else Some ''genesis prev_hash mismatch''))"

definition first_index_fault :: "block \<Rightarrow> string option res" where
  "first_index_fault b =
     bindE (getitem b ''block_index'') (\<lambda>i.
     Inr (if py_eq i (PInt 1) then None else Some ''first block_index must be 1''))"

definition plain_link_fault :: "block \<Rightarrow> block \<Rightarrow> string option res" where
  "plain_link_fault b pb =
     bindE (header_item pb ''tran_hash'') (\<lambda>prev_tran.
     bindE (header_item b ''prev_hash'') (\<lambda>p.
     if \<not> py_eq p prev_tran then Inr (Some ''prev_hash mismatch'')
     else bindE (getitem b ''block_index'') (\<lambda>i.
     bindE (getitem pb ''block_index'') (\<lambda>j.
     bindE (py_succ j) (\<lambda>k.
     Inr (if py_eq i k then None else Some ''block_index mismatch''))))))"

definition link_fault ::
    "consensus_obj option \<Rightarrow> string \<Rightarrow> block option \<Rightarrow> block \<Rightarrow> string option res" where
  "link_fault co g prev b =
     (case prev of
        Some pb \<Rightarrow>
          (case co of
             Some c \<Rightarrow> fault_of (c_validate_link c b prev g)
           | None \<Rightarrow> plain_link_fault b pb)
      | None \<Rightarrow>
          and_then (genesis_fault b g) (and_then (first_index_fault b)
            (case co of
               Some c \<Rightarrow> fault_of (c_validate_link c b None g)
             | None \<Rightarrow> Inr None)))"

definition legacy_hash_fault :: "block \<Rightarrow> pyval \<Rightarrow> string option res" where
  "legacy_hash_fault b header =
     bindE (getitem b ''tran_body'') (\<lambda>tran_body.
     bindE (getitem header ''prev_hash'') (\<lambda>p.
     bindE (as_str p) (\<lambda>prev.
     bindE (get_default header ''tran_hash'' PNone) (\<lambda>t.
     Inr (if py_eq t (PStr (calc_legacy_tran_hash prev (calc_body_hash tran_body)))
          then None else Some ''legacy tran_hash mismatch'')))))"

definition content_fault ::
    "rsa_library \<Rightarrow> consensus_obj option \<Rightarrow> chain \<Rightarrow> block \<Rightarrow> string option res" where
  "content_fault L co before b =
     bindE (get_default b ''block_header'' (PDict [])) (\<lambda>header.
     bindE (get_default header ''consensus_type'' PNone) (\<lambda>ct.
     case co of
       Some c \<Rightarrow> fault_of (c_validate_block L c b before)
     | None \<Rightarrow>
         if ct = PNone then legacy_hash_fault b header
         else Inr (Some ''consensus_type present but no consensus validator configured'')))"

section \<open>The two loops\<close>

text \<open>\<open>before\<close> is \<open>chain[:index]\<close>, the part already checked.\<close>

definition prev_of :: "chain \<Rightarrow> block option" where
  "prev_of before = (if before = [] then None else Some (last before))"

definition position_fault ::
    "rsa_library \<Rightarrow> consensus_obj option \<Rightarrow> string \<Rightarrow> chain \<Rightarrow> block \<Rightarrow> string option res" where
  "position_fault L co g before b =
     and_then (link_fault co g (prev_of before) b) (content_fault L co before b)"

fun verify_from ::
    "rsa_library \<Rightarrow> consensus_obj option \<Rightarrow> string \<Rightarrow> chain \<Rightarrow> chain \<Rightarrow> chain_verification res" where
  "verify_from L co g before [] = Inr chain_ok"
| "verify_from L co g before (b # bs) =
     bindE (position_fault L co g before b) (\<lambda>f.
     case f of
       Some r \<Rightarrow> Inr (chain_bad (Suc (length before)) r)
     | None \<Rightarrow> verify_from L co g (before @ [b]) bs)"

definition stake_position_fault ::
    "rsa_library \<Rightarrow> pos_object \<Rightarrow> string \<Rightarrow> chain \<Rightarrow> stakes \<Rightarrow> chain \<Rightarrow> block
     \<Rightarrow> string option res" where
  "stake_position_fault L po g full vs before b =
     and_then
       (case prev_of before of
          Some pb \<Rightarrow> fault_of (c_validate_link (PosC po) b (Some pb) g)
        | None \<Rightarrow> and_then (genesis_fault b g) (fault_of (c_validate_link (PosC po) b None g)))
       (fault_of (pos_validate_block L po (Some vs) (Some (int (length before) + 1)) b full))"

fun verify_stakes_from ::
    "rsa_library \<Rightarrow> pos_object \<Rightarrow> string \<Rightarrow> chain \<Rightarrow> stakes \<Rightarrow> chain \<Rightarrow> chain
     \<Rightarrow> chain_verification res" where
  "verify_stakes_from L po g full vs before [] = Inr chain_ok"
| "verify_stakes_from L po g full vs before (b # bs) =
     bindE (stake_position_fault L po g full vs before b) (\<lambda>f.
     case f of
       Some r \<Rightarrow> Inr (chain_bad (Suc (length before)) r)
     | None \<Rightarrow>
         bindE (apply_block_reward (po_settings po) vs b) (\<lambda>vs'.
         verify_stakes_from L po g full vs' (before @ [b]) bs))"

definition verify_chain_integrity ::
    "rsa_library \<Rightarrow> chain \<Rightarrow> consensus_obj option \<Rightarrow> string \<Rightarrow> stakes option
     \<Rightarrow> chain_verification res" where
  "verify_chain_integrity L ch co g genesis_stakes =
     (case (co, genesis_stakes) of
        (Some (PosC po), Some gs) \<Rightarrow> verify_stakes_from L po g ch gs [] ch
      | _ \<Rightarrow> verify_from L co g [] ch)"

section \<open>Passing the checks\<close>

lemma fault_of_None:
  assumes "\<And>r. m = Inr r \<Longrightarrow> valid r \<longleftrightarrow> r = accepted"
  shows "fault_of m = Inr None \<longleftrightarrow> m = Inr accepted"
  using assms by (cases m) (auto simp: fault_of_def)

lemma fault_of_accepted [simp]: "fault_of (Inr accepted) = Inr None"
  by (simp add: fault_of_def)

lemmas answers_None =
  fault_of_None [OF validate_chain_link_valid]
  fault_of_None [OF c_link_answer] fault_of_None [OF c_valid_answer]
  fault_of_None [OF pos_valid_answer]

lemma and_then_None [simp]: "and_then m m' = Inr None \<longleftrightarrow> m = Inr None \<and> m' = Inr None"
  by (auto simp: and_then_def res_simps)

lemma genesis_fault_None:
  "genesis_fault b g = Inr None \<longleftrightarrow> header_item b ''prev_hash'' = Inr (PStr g)"
  by (auto simp: genesis_fault_def bindE_eq_Inr)

lemma first_index_fault_None:
  "first_index_fault b = Inr None \<longleftrightarrow> (\<exists>i. getitem b ''block_index'' = Inr i \<and> py_eq i (PInt 1))"
  by (auto simp: first_index_fault_def bindE_eq_Inr)

text \<open>Every configuration checks the same link between two blocks.\<close>

lemma plain_link_fault_None:
  "plain_link_fault b pb = Inr None \<longleftrightarrow> validate_chain_link sg b (Some pb) g = Inr accepted"
  unfolding validate_chain_link_next by (auto simp: plain_link_fault_def res_simps)

lemma c_validate_link_next:
  "c_validate_link c b (Some pb) g = Inr accepted \<longleftrightarrow>
   validate_chain_link g b (Some pb) (Some g) = Inr accepted"
  by (simp add: c_validate_link_def validate_chain_link_next)

lemma link_fault_None:
  "link_fault co g prev b = Inr None \<Longrightarrow> validate_chain_link g b prev (Some g) = Inr accepted"
  by (auto simp: link_fault_def answers_None c_validate_link_next
      plain_link_fault_None [where sg = g and g = "Some g"]
      genesis_fault_None first_index_fault_None validate_chain_link_first expected_genesis_def
      split: option.splits)

definition accepted_somehow :: "block \<Rightarrow> bool" where
  "accepted_somehow b =
     ((\<exists>L c ch. c_validate_block L c b ch = Inr accepted) \<or>
      (\<exists>L po vst hgt ch. pos_validate_block L po vst hgt b ch = Inr accepted) \<or>
      (\<exists>L ch. content_fault L None ch b = Inr None))"

lemma legacy_accepted_sealed:
  assumes "content_fault L None ch b = Inr None" shows "sealed b"
proof -
  from assms obtain h t p where h: "get_default b ''block_header'' (PDict []) = Inr h"
    and ct: "get_default h ''consensus_type'' PNone = Inr PNone"
    and rest: "getitem b ''tran_body'' = Inr t" "getitem h ''prev_hash'' = Inr (PStr p)"
      "get_default h ''tran_hash'' PNone = Inr (PStr (calc_legacy_tran_hash p (calc_body_hash t)))"
    by (auto simp: content_fault_def legacy_hash_fault_def res_simps split: if_splits)
  then have hb: "getitem b ''block_header'' = Inr h" "getitem h ''tran_hash'' =
      Inr (PStr (calc_legacy_tran_hash p (calc_body_hash t)))"
    by (auto simp: get_default_iff)
  have "header_text b ''consensus_type'' = []"
    using ct hb by (auto simp: header_text_def header_item_def get_default_iff has_key_iff split: sum.splits)
  with hb rest show ?thesis
    by (simp add: sealed_def header_text_def header_item_Inr header_item_def block_body_def block_text_def
        seal_text_def calc_legacy_tran_hash_def)
qed

interpretation accepted_seals: sealing_protocol accepted_somehow
  by unfold_locales
    (auto simp: accepted_somehow_def intro: c_accepted_sealed pos_accepted_sealed legacy_accepted_sealed)

section \<open>Verified chains\<close>

lemma chain_bad_not_ok [simp]: "chain_bad i r \<noteq> chain_ok" "chain_ok \<noteq> chain_bad i r"
  by (simp_all add: chain_ok_def chain_bad_def)

lemma verify_from_snoc:
  "verify_from L co g before (bs @ [b]) = Inr chain_ok \<longleftrightarrow>
   verify_from L co g before bs = Inr chain_ok \<and>
   position_fault L co g (before @ bs) b = Inr None"
  by (induction bs arbitrary: before) (auto simp: res_simps)

text \<open>The height is passed explicitly, so the chain argument of the check is not used.\<close>

lemma pos_validate_height:
  "pos_validate_block L po vst (Some h) b ch = pos_validate_block L po vst (Some h) b ch'"
proof -
  have "effective_height (Some h) ch = effective_height (Some h) ch'"
    by (simp add: effective_height_def)
  then show ?thesis unfolding pos_validate_block_def by (simp only:)
qed

lemma stake_position_fault_full:
  "stake_position_fault L po g full vs before b = stake_position_fault L po g full' vs before b"
  unfolding stake_position_fault_def pos_validate_height [of _ _ _ _ _ full full'] ..

lemma verify_stakes_full:
  "verify_stakes_from L po g full vs before bs = verify_stakes_from L po g full' vs before bs"
  by (induction bs arbitrary: vs before)
    (simp_all add: stake_position_fault_full [of L po g full _ _ _ full'])

lemma verify_stakes_snoc:
  "verify_stakes_from L po g full vs before (bs @ [b]) = Inr chain_ok \<longleftrightarrow>
   verify_stakes_from L po g full vs before bs = Inr chain_ok \<and>
   (\<exists>vs' vs''. compute_validators_from_chain bs vs (po_settings po) = Inr vs' \<and>
      stake_position_fault L po g full vs' (before @ bs) b = Inr None \<and>
      apply_block_reward (po_settings po) vs' b = Inr vs'')"
proof (induction bs arbitrary: vs before)
  case (Cons c bs)
  show ?case unfolding append_Cons verify_stakes_from.simps
    by (auto simp: res_simps Cons.IH compute_validators_from_chain_def)
qed (auto simp: res_simps compute_validators_from_chain_def)

lemma verify_snoc:
  "verify_chain_integrity L (ch @ [b]) co g gs = Inr chain_ok \<longleftrightarrow>
   verify_chain_integrity L ch co g gs = Inr chain_ok \<and>
   (case (co, gs) of
      (Some (PosC po), Some s) \<Rightarrow>
        (\<exists>vs vs'. compute_validators_from_chain ch s (po_settings po) = Inr vs \<and>
           stake_position_fault L po g ch vs ch b = Inr None \<and>
           apply_block_reward (po_settings po) vs b = Inr vs')
    | _ \<Rightarrow> position_fault L co g ch b = Inr None)"
  by (auto simp: verify_chain_integrity_def verify_from_snoc verify_stakes_snoc
      stake_position_fault_full [of L _ g "ch @ [b]" _ _ _ ch] verify_stakes_full [of L _ g "ch @ [b]" _ _ _ ch]
      split: option.splits consensus_obj.splits)

lemma verify_empty [simp]: "verify_chain_integrity L [] co g gs = Inr chain_ok"
  by (auto simp: verify_chain_integrity_def split: option.splits consensus_obj.splits)

lemma verify_prefix:
  "verify_chain_integrity L (xs @ ys) co g gs = Inr chain_ok \<Longrightarrow>
   verify_chain_integrity L xs co g gs = Inr chain_ok"
  by (induction ys rule: rev_induct) (simp_all add: verify_snoc flip: append_assoc)

text \<open>Acceptance of a position links the block to the one before and seals it.\<close>

lemma position_ok:
  assumes "position_fault L co g ch b = Inr None"
  shows "validate_chain_link g b (prev_of ch) (Some g) = Inr accepted" "accepted_somehow b"
proof -
  from assms have l: "link_fault co g (prev_of ch) b = Inr None"
    and c: "content_fault L co ch b = Inr None" by (simp_all add: position_fault_def)
  show "validate_chain_link g b (prev_of ch) (Some g) = Inr accepted" using l by (rule link_fault_None)
  show "accepted_somehow b"
  proof (cases co)
    case None
    with c show ?thesis by (auto simp: accepted_somehow_def)
  next
    case (Some d)
    with c have "c_validate_block L d b ch = Inr accepted"
      by (auto simp: content_fault_def res_simps answers_None)
    then show ?thesis by (auto simp: accepted_somehow_def)
  qed
qed

lemma stake_position_ok:
  assumes "stake_position_fault L po g full vs ch b = Inr None"
  shows "validate_chain_link g b (prev_of ch) (Some g) = Inr accepted" "accepted_somehow b"
    and "pos_validate_block L po (Some vs) (Some (int (length ch) + 1)) b full = Inr accepted"
proof -
  from assms show l: "validate_chain_link g b (prev_of ch) (Some g) = Inr accepted"
    by (auto simp: stake_position_fault_def answers_None c_validate_link_next genesis_fault_None
        split: option.splits)
      (simp add: c_validate_link_def validate_chain_link_first expected_genesis_def)
  from assms show a: "pos_validate_block L po (Some vs) (Some (int (length ch) + 1)) b full = Inr accepted"
    by (simp add: stake_position_fault_def answers_None)
  then show "accepted_somehow b" by (auto simp: accepted_somehow_def)
qed

lemma verified_linked:
  "verify_chain_integrity L ch co g gs = Inr chain_ok \<Longrightarrow>
   linked g None ch \<and> list_all accepted_somehow ch"
proof (induction ch rule: rev_induct)
  case (snoc b ch)
  then have ch: "linked g None ch" "list_all accepted_somehow ch" by (simp_all add: verify_snoc)
  have "validate_chain_link g b (prev_of ch) (Some g) = Inr accepted \<and> accepted_somehow b"
    using snoc.prems position_ok [of L co g ch b] stake_position_ok [of L _ g ch _ ch b]
    by (auto simp: verify_snoc split: option.splits consensus_obj.splits)
  with ch show ?case by (simp add: linked_append prev_of_def)
qed simp

lemma verified_seals:
  "verify_chain_integrity L ch co g gs = Inr chain_ok \<Longrightarrow> seals g ch"
  using verified_linked accepted_seals.linked_seals by blast

section \<open>Failures\<close>

text \<open>The answer names the first position whose checks fail.\<close>

lemma verify_from_bad:
  assumes "verify_from L co g before bs = Inr r" "r \<noteq> chain_ok"
  shows "\<exists>i why. i < length bs \<and> r = chain_bad (Suc (length before + i)) why \<and>
    verify_from L co g before (take i bs) = Inr chain_ok \<and>
    verify_from L co g before (take (Suc i) bs) = Inr r"
  using assms
proof (induction bs arbitrary: before)
  case (Cons b bs)
  from Cons.prems obtain f where f: "position_fault L co g before b = Inr f" by (auto simp: bindE_eq_Inr)
  show ?case
  proof (cases f)
    case (Some why)
    with f Cons.prems show ?thesis by (intro exI [of _ 0] exI [of _ why]) simp
  next
    case None
    with f Cons.prems have "verify_from L co g (before @ [b]) bs = Inr r" by simp
    from Cons.IH [OF this Cons.prems(2)] obtain i why where
      "i < length bs" "r = chain_bad (Suc (length (before @ [b]) + i)) why"
      "verify_from L co g (before @ [b]) (take i bs) = Inr chain_ok"
      "verify_from L co g (before @ [b]) (take (Suc i) bs) = Inr r" by blast
    with f None show ?thesis by (intro exI [of _ "Suc i"] exI [of _ why]) simp
  qed
qed simp

lemma verify_stakes_bad:
  assumes "verify_stakes_from L po g full vs before bs = Inr r" "r \<noteq> chain_ok"
  shows "\<exists>i why. i < length bs \<and> r = chain_bad (Suc (length before + i)) why \<and>
    verify_stakes_from L po g full vs before (take i bs) = Inr chain_ok \<and>
    verify_stakes_from L po g full vs before (take (Suc i) bs) = Inr r"
  using assms
proof (induction bs arbitrary: vs before)
  case (Cons b bs)
  from Cons.prems obtain f where f: "stake_position_fault L po g full vs before b = Inr f"
    by (auto simp: bindE_eq_Inr)
  show ?case
  proof (cases f)
    case (Some why)
    with f Cons.prems show ?thesis by (intro exI [of _ 0] exI [of _ why]) simp
  next
    case None
    with f Cons.prems obtain vs' where vs': "apply_block_reward (po_settings po) vs b = Inr vs'"
      and "verify_stakes_from L po g full vs' (before @ [b]) bs = Inr r" by (auto simp: bindE_eq_Inr)
    from Cons.IH [OF this(2) Cons.prems(2)] obtain i why where
      "i < length bs" "r = chain_bad (Suc (length (before @ [b]) + i)) why"
      "verify_stakes_from L po g full vs' (before @ [b]) (take i bs) = Inr chain_ok"
      "verify_stakes_from L po g full vs' (before @ [b]) (take (Suc i) bs) = Inr r" by blast
    with f None vs' show ?thesis by (intro exI [of _ "Suc i"] exI [of _ why]) simp
  qed
qed simp

section \<open>Block indices\<close>

text \<open>
  \<open>block_index\<close> is compared with Python's \<open>==\<close> and incremented with \<open>+\<close>, so \<open>True\<close> and
  \<open>1.0\<close> pass for 1; up to \<open>2 ^ 53\<close> positions a float index stays exact.
\<close>

lemma py_succ_index:
  assumes "py_eq j (PInt n)" "0 \<le> n" "n < 2 ^ 53"
  shows "\<exists>k. py_succ j = Inr k \<and> (\<forall>i. py_eq i k \<longleftrightarrow> py_eq i (PInt (n + 1)))"
proof (cases j)
  case (PBool x)
  with assms show ?thesis by (auto simp: num_eq_def py_succ_def)
next
  case (PInt m)
  with assms show ?thesis by (simp add: num_eq_def py_succ_def)
next
  case (PFloat f)
  have ex: "float_of_exact (of_int n + 1) = Fin (of_int n + 1)"
    using assms(2,3) float_of_exact_pos [of "of_int (n + 1)" "n + 1"] round_rat_int [of "n + 1"]
    by (simp add: round_rat_def)
  have "float_add f (Fin 1) = Fin (of_int n + 1)"
    using assms PFloat ex
    by (cases f) (auto simp: num_eq_def int_float_eq_def float_add_def)
  then have k: "py_succ j = Inr (PFloat (Fin (of_int n + 1)))" by (simp add: PFloat py_succ_def)
  have eq: "(of_int n + 1 = (of_int m :: rat)) \<longleftrightarrow> n + 1 = m" for m
    by (metis of_int_1 of_int_add of_int_eq_iff)
  have "py_eq i (PFloat (Fin (of_int n + 1))) \<longleftrightarrow> py_eq i (PInt (n + 1))" for i
  proof (cases i)
    case (PFloat g)
    then show ?thesis using assms(2)
      by (cases g) (auto simp: num_eq_def int_float_eq_def float_eq_def)
  qed (auto simp: num_eq_def int_float_eq_def eq)
  with k show ?thesis by blast
qed (use assms in \<open>auto simp: num_eq_def\<close>)

lemma linked_index:
  assumes "linked g None ch" "int (length ch) \<le> 2 ^ 53" "k < length ch"
  shows "\<exists>i. getitem (ch ! k) ''block_index'' = Inr i \<and> py_eq i (PInt (int k + 1))"
  using assms(3)
proof (induction k)
  case 0
  with assms(1) show ?case by (cases ch) (auto simp: validate_chain_link_first)
next
  case (Suc k)
  have "ch \<noteq> []" using Suc.prems by auto
  have split: "ch = take (Suc k) ch @ ch ! Suc k # drop (Suc (Suc k)) ch"
    using Suc.prems by (simp add: id_take_nth_drop)
  have "linked g (Some (last (take (Suc k) ch))) (ch ! Suc k # drop (Suc (Suc k)) ch)"
    using assms(1) Suc.prems \<open>ch \<noteq> []\<close> by (subst (asm) split) (auto simp: linked_append)
  moreover have "last (take (Suc k) ch) = ch ! k"
    using Suc.prems by (simp add: take_Suc_conv_app_nth)
  ultimately have "validate_chain_link g (ch ! Suc k) (Some (ch ! k)) (Some g) = Inr accepted"
    by simp
  then obtain i j s where ij: "getitem (ch ! Suc k) ''block_index'' = Inr i"
    "getitem (ch ! k) ''block_index'' = Inr j" "py_succ j = Inr s" "py_eq i s"
    by (auto simp: validate_chain_link_next)
  with Suc have "py_eq j (PInt (int k + 1))" by simp
  moreover have "int k + 1 < 2 ^ 53" using Suc.prems assms(2) by linarith
  ultimately have "py_eq i (PInt (int k + 1 + 1))"
    using py_succ_index [of j "int k + 1"] ij by auto
  with ij show ?case by (simp add: add.commute)
qed

section \<open>What verification does not read\<close>

fun same_rules :: "consensus_obj option \<Rightarrow> consensus_obj option \<Rightarrow> bool" where
  "same_rules (Some (PosC po)) (Some (PosC po')) =
     (po_settings po' = po_settings po \<and> po_manager po' = po_manager po \<and>
      po_keys po' = po_keys po \<and> po_genesis_prev_hash po' = po_genesis_prev_hash po)"
| "same_rules co co' = (co' = co)"

lemma verify_stakes_core:
  assumes "po_settings po' = po_settings po" "po_manager po' = po_manager po" "po_keys po' = po_keys po"
    "po_genesis_prev_hash po' = po_genesis_prev_hash po"
  shows "verify_stakes_from L po' g full vs before bs = verify_stakes_from L po g full vs before bs"
proof (induction bs arbitrary: vs before)
  case (Cons b bs)
  show ?case
    by (simp only: verify_stakes_from.simps Cons.IH stake_position_fault_def c_validate_link_def
        own_genesis.simps pos_validate_block_core [OF assms(1-3)] assms)
qed simp

lemma verify_same_rules:
  assumes "same_rules co co'" "\<And>po. co = Some (PosC po) \<Longrightarrow> gs \<noteq> None"
  shows "verify_chain_integrity L ch co' g gs = verify_chain_integrity L ch co g gs"
proof (cases "co' = co")
  case False
  with assms(1) obtain po po' where c: "co = Some (PosC po)" "co' = Some (PosC po')"
    by (cases "(co, co')" rule: same_rules.cases) auto
  with assms show ?thesis
    by (auto simp: verify_chain_integrity_def intro!: verify_stakes_core)
qed simp

section \<open>The answer is the positive one or a failure\<close>

lemma verify_from_valid:
  "verify_from L co g before bs = Inr r \<Longrightarrow> cv_valid r \<longleftrightarrow> r = chain_ok"
  by (induction bs arbitrary: before) (auto simp: res_simps)

lemma verify_stakes_valid:
  "verify_stakes_from L po g full vs before bs = Inr r \<Longrightarrow> cv_valid r \<longleftrightarrow> r = chain_ok"
  by (induction bs arbitrary: vs before) (auto simp: res_simps)

section \<open>The properties of verification\<close>

text \<open>A chain without consensus: its blocks are evaluated without computing a hash.\<close>

definition plain_block :: "string \<Rightarrow> int \<Rightarrow> pyval \<Rightarrow> int \<Rightarrow> block" where
  "plain_block prev i tran_body n =
     PDict [(''block_index'', PInt i), (''block_header'', PDict [(''prev_hash'', PStr prev),
        (''tran_hash'', PStr (calc_legacy_tran_hash prev (calc_body_hash tran_body)))]),
      (''tran_counter'', PInt n), (''tran_body'', tran_body)]"

lemma plain_block_verifies:
  "verify_chain_integrity L [plain_block g 1 t n] None g gs = Inr chain_ok"
proof -
  have "position_fault L None g [] (plain_block g 1 t n) = Inr None"
    by (simp add: position_fault_def link_fault_def prev_of_def genesis_fault_None first_index_fault_None
        content_fault_def legacy_hash_fault_def plain_block_def header_item_def getitem_def
        get_default_def as_str_def num_eq_def)
  then show ?thesis by (simp add: verify_chain_integrity_def)
qed

text \<open>
  C3: Tampering shows.  Two chains that verify from the same genesis hash, under any
  configurations, are equally long and end in the same hash, agree in the JSON text of every
  transaction body and in every nonce or validator and slot, or exhibit two different texts
  with the same SHA-256 among those hashed at one of their positions.
\<close>

theorem tamper_evidence:
  assumes "verify_chain_integrity L bs co g gs = Inr chain_ok"
    and "verify_chain_integrity L' cs co' g gs' = Inr chain_ok"
    and "length bs = length cs" "bs \<noteq> []"
    and "header_item (last bs) ''tran_hash'' = header_item (last cs) ''tran_hash''"
  shows "list_all2 same_content bs cs \<or> (\<exists>i. hash_collision bs cs i)"
  using verified_seals [OF assms(1)] verified_seals [OF assms(2)] assms(3-5)
  by (rule seals_equal_tip)

theorem tamper_evidence_witness:
  "list_all2 same_content [plain_block ''1'' 1 sample_body 0] [plain_block ''1'' 1 sample_body 7] \<or>
   (\<exists>i. hash_collision [plain_block ''1'' 1 sample_body 0] [plain_block ''1'' 1 sample_body 7] i)"
  by (rule tamper_evidence [OF plain_block_verifies [of sample_rsa] plain_block_verifies [of sample_rsa]])
    (simp_all add: plain_block_def header_item_def getitem_def)

text \<open>
  C11: A negative answer names the first faulty block: the blocks before it verify, and they
  stop to verify with it, for the same reason.
\<close>

theorem failure_is_first:
  assumes "verify_chain_integrity L ch co g gs = Inr r" "\<not> cv_valid r"
  shows "\<exists>i < length ch. cv_failed_at r = Some (Suc i) \<and>
    verify_chain_integrity L (take i ch) co g gs = Inr chain_ok \<and>
    verify_chain_integrity L (take (Suc i) ch) co g gs = Inr r"
proof -
  have bad: "r \<noteq> chain_ok" using assms(2) by auto
  show ?thesis
  proof (cases "\<exists>po s. co = Some (PosC po) \<and> gs = Some s")
    case True
    then obtain po s where c: "co = Some (PosC po)" "gs = Some s" by blast
    with assms(1) have "verify_stakes_from L po g ch s [] ch = Inr r" by (simp add: verify_chain_integrity_def)
    from verify_stakes_bad [OF this bad] obtain i why where i: "i < length ch" "r = chain_bad (Suc i) why"
      "verify_stakes_from L po g ch s [] (take i ch) = Inr chain_ok"
      "verify_stakes_from L po g ch s [] (take (Suc i) ch) = Inr r" by auto
    with c show ?thesis
      by (intro exI [of _ i])
        (simp add: verify_chain_integrity_def verify_stakes_full [of L po g "take i ch" _ _ _ ch]
          verify_stakes_full [of L po g "take (Suc i) ch" _ _ _ ch])
  next
    case False
    then have v: "verify_chain_integrity L xs co g gs = verify_from L co g [] xs" for xs
      by (auto simp: verify_chain_integrity_def split: option.splits consensus_obj.splits)
    from assms(1) have "verify_from L co g [] ch = Inr r" by (simp add: v)
    from verify_from_bad [OF this bad] show ?thesis by (auto simp: v)
  qed
qed

theorem failure_is_first_witness:
  "\<exists>i < 1. cv_failed_at (chain_bad 1 ''genesis prev_hash mismatch'') = Some (Suc i)"
proof -
  have "verify_chain_integrity sample_rsa [plain_block ''2'' 1 sample_body 0] None ''1'' None =
      Inr (chain_bad 1 ''genesis prev_hash mismatch'')"
    by (simp add: verify_chain_integrity_def position_fault_def link_fault_def prev_of_def and_then_def
        genesis_fault_def plain_block_def header_item_def getitem_def)
  from failure_is_first [OF this] show ?thesis by simp
qed

text \<open>
  In a verified chain the block at position \<open>k\<close> has an index equal, in Python's sense,
  to \<open>k\<close> counted from one.
\<close>

theorem verified_indices:
  assumes "verify_chain_integrity L ch co g gs = Inr chain_ok"
    and "int (length ch) \<le> 2 ^ 53" "k < length ch"
  shows "\<exists>i. getitem (ch ! k) ''block_index'' = Inr i \<and> py_eq i (PInt (int k + 1))"
  using linked_index [OF _ assms(2,3)] verified_linked [OF assms(1)] by blast

theorem verified_indices_witness:
  "\<exists>i. getitem (plain_block ''1'' 1 sample_body 0) ''block_index'' = Inr i \<and> py_eq i (PInt 1)"
  using verified_indices [OF plain_block_verifies [of sample_rsa "''1''" sample_body 0 None], of 0] by simp

text \<open>
  C4: Stake is created by blocks only.  Along a chain that verifies against genesis stakes,
  the set of validators stays the same and the total stake grows by exactly one block
  reward per block.
\<close>

theorem stake_conservation:
  assumes "verify_chain_integrity L ch (Some (PosC po)) g (Some gs) = Inr chain_ok"
    and "distinct (map fst gs)"
  shows "\<exists>vs. compute_validators_from_chain ch gs (po_settings po) = Inr vs \<and>
    map fst vs = map fst gs \<and>
    get_total_stake vs = get_total_stake gs + int (length ch) * block_reward (po_settings po)"
  using assms(1)
proof (induction ch rule: rev_induct)
  case Nil
  show ?case by (simp add: compute_validators_from_chain_def)
next
  case (snoc b ch)
  then obtain vs vs' where vs: "compute_validators_from_chain ch gs (po_settings po) = Inr vs"
    and pos: "stake_position_fault L po g ch vs ch b = Inr None"
    and vs': "apply_block_reward (po_settings po) vs b = Inr vs'"
    by (auto simp: verify_snoc)
  from snoc vs have IH: "map fst vs = map fst gs"
    "get_total_stake vs = get_total_stake gs + int (length ch) * block_reward (po_settings po)"
    by (auto simp: verify_snoc)
  with assms(2) have d: "distinct (map fst vs)" by simp
  from stake_position_ok(3) [OF pos] obtain v where "header_item b ''validator_id'' = Inr (PStr v)"
    "v \<noteq> []" "map_of vs v \<noteq> None" by (auto simp: pos_accepted_iff effective_stakes_def)
  from rewarded_key_registered [OF this] have "rewarded_key vs b = Inr (Some v)" .
  with apply_block_reward_Inr [OF vs' d] IH vs vs' show ?case
    by (simp add: compute_validators_snoc algebra_simps)
qed

lemma sample_stake_chain:
  "\<exists>b. verify_chain_integrity sample_rsa [b] (Some (PosC sample_pos)) ''1'' (Some [(''v'', 100)]) = Inr chain_ok"
proof -
  obtain b where b: "header_item b ''prev_hash'' = Inr (PStr ''1'')" "getitem b ''block_index'' = Inr (PInt 1)"
    "pos_validate_block sample_rsa sample_pos (Some [(''v'', 100)]) (Some 1) b [b] = Inr accepted"
    "rewarded_key [(''v'', 100)] b = Inr (Some ''v'')" using sample_stake_block by blast
  have "\<exists>vs'. apply_block_reward (po_settings sample_pos) [(''v'', 100)] b = Inr vs'"
    using b(4) by (simp add: apply_block_reward_def)
  moreover have "validate_chain_link (po_genesis_prev_hash sample_pos) b None (Some ''1'') = Inr accepted"
    using b by (simp add: validate_chain_link_first expected_genesis_def num_eq_def)
  then have "stake_position_fault sample_rsa sample_pos ''1'' [b] [(''v'', 100)] [] b = Inr None"
    using b by (simp add: stake_position_fault_def prev_of_def genesis_fault_None c_validate_link_def)
  ultimately have "verify_chain_integrity sample_rsa [b] (Some (PosC sample_pos)) ''1'' (Some [(''v'', 100)]) = Inr chain_ok"
    by (auto simp: verify_chain_integrity_def)
  then show ?thesis by blast
qed

theorem stake_conservation_witness:
  "\<exists>b vs. compute_validators_from_chain [b] [(''v'', 100)] (po_settings sample_pos) = Inr vs \<and>
     get_total_stake vs = 110"
proof -
  obtain b where "verify_chain_integrity sample_rsa [b] (Some (PosC sample_pos)) ''1'' (Some [(''v'', 100)]) = Inr chain_ok"
    using sample_stake_chain by blast
  from stake_conservation [OF this] show ?thesis
    by (auto simp: sample_pos_def default_pos_def get_total_stake_def)
qed

end
