(* ===== verification/Block_Chain.thy ===== *)
theory Block_Chain
  imports Chain_Validator
begin

text \<open>
  \<open>blockchain.py\<close>: the class \<open>BlockChain\<close>.  An operation that changes the object returns
  the new object beside its result, so that a change made before an exception stays.  The
  lemmas show that the operations keep a verified chain verified; \<open>chain_step\<close> is the
  transition relation they form.
\<close>

record blockchain =
  bc_chain :: chain
  bc_enable_signature :: bool
  bc_consensus :: "consensus_obj option"
  bc_genesis_prev_hash :: string
  bc_manager :: "signature_manager option"

definition new_blockchain :: "bool \<Rightarrow> consensus_obj option \<Rightarrow> string \<Rightarrow> blockchain" where
  "new_blockchain enable_signature co g =
     \<lparr>bc_chain = [], bc_enable_signature = enable_signature, bc_consensus = co,
      bc_genesis_prev_hash = g,
      bc_manager = (if enable_signature then Some new_manager else None)\<rparr>"

section \<open>Making a block\<close>

text \<open>\<open>len(v)\<close>.\<close>

definition py_len :: "pyval \<Rightarrow> int res" where
  "py_len v =
     (case v of
        PStr s \<Rightarrow> Inr (int (length s))
      | PList xs \<Rightarrow> Inr (int (length xs))
      | PDict kvs \<Rightarrow> Inr (int (length kvs))
      | _ \<Rightarrow> Inl TypeError)"

definition create_new_transaction :: "pyval \<Rightarrow> pyval \<Rightarrow> pyval" where
  "create_new_transaction input_data output_data =
     PDict [(''input_data'', input_data), (''output_data'', output_data)]"

definition draft_header :: "consensus_obj option \<Rightarrow> pyval \<Rightarrow> pyval \<Rightarrow> pyval res" where
  "draft_header co prev_hash transaction =
     (case co of
        Some c \<Rightarrow> Inr (PDict [(''prev_hash'', prev_hash),
          (''consensus_type'', PStr (consensus_type c)), (''tran_hash'', PStr [])])
      | None \<Rightarrow>
          bindE (as_str prev_hash) (\<lambda>prev.
          Inr (PDict [(''prev_hash'', prev_hash),
            (''tran_hash'', PStr (calc_legacy_tran_hash prev (calc_body_hash transaction)))])))"

definition draft_block :: "datetime \<Rightarrow> blockchain \<Rightarrow> pyval \<Rightarrow> pyval \<Rightarrow> block res" where
  "draft_block now bc input_data output_data =
     (let transaction = create_new_transaction input_data output_data in
      bindE (if bc_chain bc = [] then Inr (PStr (bc_genesis_prev_hash bc))
             else header_item (last (bc_chain bc)) ''tran_hash'') (\<lambda>prev_hash.
      bindE (draft_header (bc_consensus bc) prev_hash transaction) (\<lambda>header.
      bindE (py_len input_data) (\<lambda>m.
      bindE (py_len output_data) (\<lambda>n.
      Inr (PDict [(''block_index'', PInt (int (length (bc_chain bc)) + 1)),
        (''block_item'', PStr (strftime now)), (''block_header'', header),
        (''tran_counter'', PInt (m + n)), (''tran_body'', transaction)]))))))"

text \<open>The consensus prepares the block, or the chain's own key signs it.\<close>

definition finish_block :: "rsa_library \<Rightarrow> nat \<Rightarrow> blockchain \<Rightarrow> block \<Rightarrow> block res" where
  "finish_block L rnd bc b =
     (case bc_consensus bc of
        Some c \<Rightarrow> c_prepare_block L rnd c b (bc_chain bc)
      | None \<Rightarrow>
          (case (bc_enable_signature bc, bc_manager bc) of
             (True, Some m) \<Rightarrow>
               if sm_private m = None then Inl ValueError else sign_block L rnd m b
           | _ \<Rightarrow> Inr b))"

text \<open>\<open>self.chain.append(block)\<close> and the hook of the consensus.\<close>

definition append_block :: "blockchain \<Rightarrow> block \<Rightarrow> blockchain \<times> unit res" where
  "append_block bc b =
     (let bc1 = bc\<lparr>bc_chain := bc_chain bc @ [b]\<rparr> in
      case bc_consensus bc of
        None \<Rightarrow> (bc1, Inr ())
      | Some c \<Rightarrow>
          (case c_on_block_added c b of
             Inl e \<Rightarrow> (bc1, Inl e)
           | Inr c' \<Rightarrow> (bc1\<lparr>bc_consensus := Some c'\<rparr>, Inr ())))"

definition add_new_block ::
    "rsa_library \<Rightarrow> nat \<Rightarrow> datetime \<Rightarrow> pyval \<Rightarrow> pyval \<Rightarrow> blockchain \<Rightarrow> blockchain \<times> block res" where
  "add_new_block L rnd now input_data output_data bc =
     (case bindE (draft_block now bc input_data output_data) (finish_block L rnd bc) of
        Inl e \<Rightarrow> (bc, Inl e)
      | Inr b \<Rightarrow>
          (case append_block bc b of
             (bc', Inl e) \<Rightarrow> (bc', Inl e)
           | (bc', Inr _) \<Rightarrow> (bc', Inr b)))"

section \<open>Receiving a block\<close>

text \<open>The checks of \<open>add_block\<close> for a chain without consensus.\<close>

definition admit_plain :: "blockchain \<Rightarrow> block \<Rightarrow> bool res" where
  "admit_plain bc b =
     bindE (case prev_of (bc_chain bc) of
         Some pb \<Rightarrow>
           bindE (header_item b ''prev_hash'') (\<lambda>p.
           bindE (header_item pb ''tran_hash'') (\<lambda>prev_tran.
           if \<not> py_eq p prev_tran then Inr False
           else bindE (get_default b ''block_index'' PNone) (\<lambda>i.
             bindE (getitem pb ''block_index'') (\<lambda>j.
             bindE (py_succ j) (\<lambda>k. Inr (py_eq i k))))))
       | None \<Rightarrow>
           bindE (header_item b ''prev_hash'') (\<lambda>p.
           Inr (py_eq p (PStr (bc_genesis_prev_hash bc))))) (\<lambda>linked_ok.
     if \<not> linked_ok then Inr False
     else bindE (get_default b ''tran_body'' PNone) (\<lambda>tran_body.
       if tran_body = PNone then Inr False
       else bindE (getitem b ''block_header'') (\<lambda>header.
         bindE (getitem header ''prev_hash'') (\<lambda>p.
         bindE (as_str p) (\<lambda>prev.
         bindE (get_default header ''tran_hash'' PNone) (\<lambda>t.
         Inr (py_eq t (PStr (calc_legacy_tran_hash prev (calc_body_hash tran_body))))))))))"

text \<open>The check by the consensus; with genesis stakes the stakes are recomputed first.\<close>

definition consensus_check ::
    "rsa_library \<Rightarrow> consensus_obj \<Rightarrow> stakes option \<Rightarrow> block \<Rightarrow> chain \<Rightarrow> validation_result res" where
  "consensus_check L c gs b ch =
     (case (c, gs) of
        (PosC po, Some s) \<Rightarrow>
          bindE (compute_validators_from_chain ch s (po_settings po)) (\<lambda>vs.
          pos_validate_block L po (Some vs) None b ch)
      | _ \<Rightarrow> c_validate_block L c b ch)"

definition admit_block :: "rsa_library \<Rightarrow> blockchain \<Rightarrow> stakes option \<Rightarrow> block \<Rightarrow> bool res" where
  "admit_block L bc gs b =
     bindE (if bc_chain bc = []
            then bindE (get_default b ''block_index'' PNone) (\<lambda>i. Inr (py_eq i (PInt 1)))
            else Inr True) (\<lambda>first_ok.
     if \<not> first_ok then Inr False
     else case bc_consensus bc of
       None \<Rightarrow> admit_plain bc b
     | Some c \<Rightarrow>
         bindE (c_validate_link c b (prev_of (bc_chain bc)) (bc_genesis_prev_hash bc)) (\<lambda>link.
         if \<not> valid link then Inr False
         else bindE (consensus_check L c gs b (bc_chain bc)) (\<lambda>r. Inr (valid r))))"

definition add_block ::
    "rsa_library \<Rightarrow> block \<Rightarrow> bool \<Rightarrow> stakes option \<Rightarrow> blockchain \<Rightarrow> blockchain \<times> bool res" where
  "add_block L b validate gs bc =
     (case (if validate then admit_block L bc gs b else Inr True) of
        Inl e \<Rightarrow> (bc, Inl e)
      | Inr False \<Rightarrow> (bc, Inr False)
      | Inr True \<Rightarrow>
          (case append_block bc b of
             (bc', Inl e) \<Rightarrow> (bc', Inl e)
           | (bc', Inr _) \<Rightarrow> (bc', Inr True)))"

section \<open>Whole chains\<close>

definition verify_chain ::
    "rsa_library \<Rightarrow> blockchain \<Rightarrow> stakes option \<Rightarrow> chain_verification res" where
  "verify_chain L bc gs =
     verify_chain_integrity L (bc_chain bc) (bc_consensus bc) (bc_genesis_prev_hash bc) gs"

definition replace_chain ::
    "rsa_library \<Rightarrow> chain \<Rightarrow> stakes option \<Rightarrow> blockchain \<Rightarrow> blockchain \<times> bool res" where
  "replace_chain L new_chain gs bc =
     (case verify_chain_integrity L new_chain (bc_consensus bc) (bc_genesis_prev_hash bc) gs of
        Inl e \<Rightarrow> (bc, Inl e)
      | Inr v \<Rightarrow>
          if \<not> cv_valid v then (bc, Inr False)
          else let bc1 = bc\<lparr>bc_chain := new_chain\<rparr> in
            case (bc_consensus bc, gs) of
              (Some (PosC po), Some s) \<Rightarrow>
                (case sync_validators_from_chain po new_chain s of
                   Inl e \<Rightarrow> (bc1, Inl e)
                 | Inr po' \<Rightarrow> (bc1\<lparr>bc_consensus := Some (PosC po')\<rparr>, Inr True))
            | _ \<Rightarrow> (bc1, Inr True))"

definition get_blocks_from :: "blockchain \<Rightarrow> int \<Rightarrow> int option \<Rightarrow> chain" where
  "get_blocks_from bc from_height limit =
     (let start = (if from_height < 1 then 1 else from_height);
          blocks = slice_from (bc_chain bc) (start - 1)
      in case limit of Some n \<Rightarrow> slice_upto blocks n | None \<Rightarrow> blocks)"

section \<open>Signatures of the blocks\<close>

text \<open>\<open>"signature" in block\<close>.\<close>

definition py_in :: "string \<Rightarrow> pyval \<Rightarrow> bool res" where
  "py_in k v =
     (case v of
        PDict kvs \<Rightarrow> Inr (map_of kvs k \<noteq> None)
      | PList xs \<Rightarrow> Inr (list_ex (\<lambda>x. py_eq x (PStr k)) xs)
      | PStr s \<Rightarrow> Inr (list_ex (\<lambda>i. take (length k) (drop i s) = k) [0..<Suc (length s)])
      | _ \<Rightarrow> Inl TypeError)"

definition bc_generate_key_pair :: "rsa_library \<Rightarrow> nat \<Rightarrow> blockchain \<Rightarrow> blockchain res" where
  "bc_generate_key_pair L rnd bc =
     (case (bc_enable_signature bc, bc_manager bc) of
        (True, Some m) \<Rightarrow>
          bindE (generate_key_pair L rnd 2048 m) (\<lambda>m'. Inr (bc\<lparr>bc_manager := Some m'\<rparr>))
      | _ \<Rightarrow> Inr bc)"

definition bc_verify_block_signature :: "rsa_library \<Rightarrow> blockchain \<Rightarrow> int \<Rightarrow> bool res" where
  "bc_verify_block_signature L bc block_index =
     (case (bc_enable_signature bc, bc_manager bc) of
        (True, Some m) \<Rightarrow>
          if block_index < 1 \<or> int (length (bc_chain bc)) < block_index then Inr False
          else let b = bc_chain bc ! nat (block_index - 1) in
            bindE (py_in ''signature'' b) (\<lambda>present.
            if \<not> present then Inr False else verify_block_signature L m b)
      | _ \<Rightarrow> Inr False)"

definition verify_all_signatures ::
    "rsa_library \<Rightarrow> blockchain \<Rightarrow> (string \<times> bool option) list res" where
  "verify_all_signatures L bc =
     (case (bc_enable_signature bc, bc_manager bc) of
        (True, Some m) \<Rightarrow>
          mapE (\<lambda>(i, b). bindE (py_in ''signature'' b) (\<lambda>present.
            if present
            then bindE (verify_block_signature L m b) (\<lambda>ok. Inr (''block_'' @ show_nat i, Some ok))
            else Inr (''block_'' @ show_nat i, None)))
            (zip [1..<Suc (length (bc_chain bc))] (bc_chain bc))
      | _ \<Rightarrow> Inr [])"

definition bc_export_public_key :: "rsa_library \<Rightarrow> blockchain \<Rightarrow> bytes option res" where
  "bc_export_public_key L bc =
     (case (bc_enable_signature bc, bc_manager bc) of
        (True, Some m) \<Rightarrow> bindE (export_public_key L m ''pem'') (\<lambda>k. Inr (Some k))
      | _ \<Rightarrow> Inr None)"

section \<open>Appending\<close>

lemma append_block_chain:
  assumes "append_block bc b = (bc', r)"
  shows "bc_chain bc' = bc_chain bc @ [b]" "bc_genesis_prev_hash bc' = bc_genesis_prev_hash bc"
    and "same_rules (bc_consensus bc) (bc_consensus bc')"
proof -
  have "bc_chain bc' = bc_chain bc @ [b] \<and> bc_genesis_prev_hash bc' = bc_genesis_prev_hash bc \<and>
      same_rules (bc_consensus bc) (bc_consensus bc')"
  proof (cases "bc_consensus bc")
    case None
    with assms show ?thesis by (auto simp: append_block_def)
  next
    case (Some c)
    show ?thesis
    proof (cases c)
      case (PowC pw)
      with assms Some show ?thesis by (auto simp: append_block_def)
    next
      case (PosC po)
      with assms Some show ?thesis
        by (cases "pos_on_block_added po b")
          (auto simp: append_block_def Let_def pos_on_block_added_def res_simps)
    qed
  qed
  then show "bc_chain bc' = bc_chain bc @ [b]" "bc_genesis_prev_hash bc' = bc_genesis_prev_hash bc"
    "same_rules (bc_consensus bc) (bc_consensus bc')" by simp_all
qed

text \<open>
  The configurations the node builds: the consensus has the genesis hash of the chain, and
  proof of stake verifies against the stakes of the genesis.
\<close>

definition configured :: "blockchain \<Rightarrow> stakes option \<Rightarrow> bool" where
  "configured bc gs =
     (case bc_consensus bc of
        None \<Rightarrow> True
      | Some (PowC pw) \<Rightarrow> pw_genesis_prev_hash pw = bc_genesis_prev_hash bc
      | Some (PosC po) \<Rightarrow> po_genesis_prev_hash po = bc_genesis_prev_hash bc \<and> gs \<noteq> None)"

lemma configured_same:
  assumes "configured bc gs" "bc_genesis_prev_hash bc' = bc_genesis_prev_hash bc"
    and "same_rules (bc_consensus bc) (bc_consensus bc')"
  shows "configured bc' gs"
proof (cases "\<exists>po. bc_consensus bc = Some (PosC po)")
  case True
  then obtain po where "bc_consensus bc = Some (PosC po)" by blast
  with assms show ?thesis
    by (cases "bc_consensus bc'" rule: option.exhaust)
      (auto simp: configured_def split: consensus_obj.splits)
next
  case False
  then have "bc_consensus bc' = bc_consensus bc"
    using assms(3) by (cases "(bc_consensus bc, bc_consensus bc')" rule: same_rules.cases) auto
  with assms show ?thesis by (simp add: configured_def cong: option.case_cong consensus_obj.case_cong)
qed

lemma configured_verify:
  assumes "configured bc gs" "append_block bc b = (bc', r)"
  shows "verify_chain L bc' gs =
    verify_chain_integrity L (bc_chain bc @ [b]) (bc_consensus bc) (bc_genesis_prev_hash bc) gs"
proof -
  have "gs \<noteq> None" if "bc_consensus bc = Some (PosC po)" for po
    using assms(1) that by (simp add: configured_def)
  with append_block_chain [OF assms(2)] show ?thesis
    by (simp add: verify_chain_def verify_same_rules)
qed

lemma configured_link:
  assumes "configured bc gs" "bc_consensus bc = Some c"
  shows "c_validate_link c b prev (bc_genesis_prev_hash bc) =
    validate_chain_link (bc_genesis_prev_hash bc) b prev (Some (bc_genesis_prev_hash bc))"
  using assms by (auto simp: configured_def c_validate_link_def split: consensus_obj.splits)

text \<open>With a consensus, a position is accepted when the link and the block are.\<close>

lemma link_fault_consensus:
  assumes "configured bc gs" "bc_consensus bc = Some c"
  shows "link_fault (Some c) (bc_genesis_prev_hash bc) prev b = Inr None \<longleftrightarrow>
    c_validate_link c b prev (bc_genesis_prev_hash bc) = Inr accepted"
  using configured_link [OF assms]
  by (cases prev)
    (auto simp: link_fault_def answers_None genesis_fault_None first_index_fault_None
      validate_chain_link_first expected_genesis_def)

lemma content_fault_consensus:
  assumes "c_validate_block L c b ch = Inr accepted"
  shows "content_fault L (Some c) ch b = Inr None"
proof -
  have "\<exists>h ct. getitem b ''block_header'' = Inr h \<and> getitem h ''consensus_type'' = Inr ct"
    using assms by (cases c) (auto simp: pow_accepted_iff pos_accepted_iff header_item_Inr)
  with assms show ?thesis by (auto simp: content_fault_def known_items answers_None)
qed

text \<open>The rewards after an accepted block can be computed.\<close>

lemma accepted_rewarded:
  assumes "pos_validate_block L po (Some vs) h b ch = Inr accepted"
  shows "\<exists>v. rewarded_key vs b = Inr (Some v)"
    and "\<exists>vs'. apply_block_reward st vs b = Inr vs'"
proof -
  from assms obtain v where "header_item b ''validator_id'' = Inr (PStr v)" "v \<noteq> []"
    "map_of vs v \<noteq> None"
    by (auto simp: pos_accepted_iff effective_stakes_def)
  from rewarded_key_registered [OF this] show "\<exists>v. rewarded_key vs b = Inr (Some v)" by blast
  then show "\<exists>vs'. apply_block_reward st vs b = Inr vs'" by (auto simp: apply_block_reward_def)
qed

lemma extend_verified:
  assumes cfg: "configured bc gs" and co: "bc_consensus bc = Some c"
    and ver: "verify_chain L bc gs = Inr chain_ok"
    and link: "c_validate_link c b (prev_of (bc_chain bc)) (bc_genesis_prev_hash bc) = Inr accepted"
    and acc: "consensus_check L c gs b (bc_chain bc) = Inr accepted"
  shows "verify_chain_integrity L (bc_chain bc @ [b]) (Some c) (bc_genesis_prev_hash bc) gs
    = Inr chain_ok"
proof (cases c)
  case (PowC pw)
  with acc have "c_validate_block L c b (bc_chain bc) = Inr accepted"
    by (simp add: consensus_check_def)
  then have "position_fault L (Some c) (bc_genesis_prev_hash bc) (bc_chain bc) b = Inr None"
    using link_fault_consensus [OF cfg co] link
    by (simp add: position_fault_def content_fault_consensus)
  with ver co PowC show ?thesis by (simp add: verify_snoc verify_chain_def)
next
  case (PosC po)
  with cfg co obtain s where s: "gs = Some s" by (auto simp: configured_def)
  with acc PosC obtain vs where vs: "compute_validators_from_chain (bc_chain bc) s (po_settings po) = Inr vs"
    and v: "pos_validate_block L po (Some vs) None b (bc_chain bc) = Inr accepted"
    by (auto simp: consensus_check_def res_simps)
  have "pos_validate_block L po (Some vs) (Some (int (length (bc_chain bc)) + 1)) b (bc_chain bc) = Inr accepted"
    using v by (simp add: pos_accepted_iff effective_height_def)
  moreover have "header_item b ''prev_hash'' = Inr (PStr (bc_genesis_prev_hash bc))" if "bc_chain bc = []"
    using link that configured_link [OF cfg co] by (simp add: prev_of_def validate_chain_link_first expected_genesis_def)
  ultimately have "stake_position_fault L po (bc_genesis_prev_hash bc) (bc_chain bc) vs (bc_chain bc) b = Inr None"
    using link PosC by (auto simp: stake_position_fault_def answers_None genesis_fault_None prev_of_def)
  with ver co PosC s vs accepted_rewarded(2) [OF v] show ?thesis
    by (simp add: verify_snoc verify_chain_def)
qed

lemma consensus_check_answer:
  "consensus_check L c gs b ch = Inr r \<Longrightarrow> valid r \<longleftrightarrow> r = accepted"
  by (auto simp: consensus_check_def res_simps pos_valid_answer c_valid_answer
      dest: c_valid_answer pow_valid_answer pos_valid_answer
      split: consensus_obj.splits option.splits)

lemma py_succ_not_None: "py_succ j = Inr k \<Longrightarrow> k \<noteq> PNone"
  by (auto simp: py_succ_def split: pyval.splits)

text \<open>A chain without consensus: what \<open>add_block\<close> tests, besides the field it does not look at.\<close>

lemma admit_plain_position:
  assumes none: "bc_consensus bc = None" and adm: "admit_block L bc gs b = Inr True"
    and ct: "header_item b ''consensus_type'' \<in> {Inl KeyError, Inr PNone}"
  shows "position_fault L None (bc_genesis_prev_hash bc) (bc_chain bc) b = Inr None"
proof -
  from adm none have plain: "admit_plain bc b = Inr True"
    and first: "bc_chain bc = [] \<Longrightarrow> \<exists>i. getitem b ''block_index'' = Inr i \<and> py_eq i (PInt 1)"
    by (auto simp: admit_block_def res_simps get_default_iff split: if_splits)
  then obtain t h p where t: "getitem b ''tran_body'' = Inr t" and h: "getitem b ''block_header'' = Inr h"
    and p: "getitem h ''prev_hash'' = Inr (PStr p)"
    and th: "getitem h ''tran_hash'' = Inr (PStr (calc_legacy_tran_hash p (calc_body_hash t)))"
    by (auto simp: admit_plain_def bindE_eq_Inr get_default_iff if_eq_Inr as_str_Inr)
  have "content_fault L None (bc_chain bc) b = Inr None"
    using ct h t p th
    by (auto simp: content_fault_def legacy_hash_fault_def known_items header_item_def get_default_iff
        has_key_iff res_simps as_str_def)
  moreover have "link_fault None (bc_genesis_prev_hash bc) (prev_of (bc_chain bc)) b = Inr None"
  proof (cases "bc_chain bc = []")
    case True
    with plain first show ?thesis
      by (auto simp: link_fault_def prev_of_def genesis_fault_None first_index_fault_None
          admit_plain_def res_simps)
  next
    case False
    with plain obtain i j k q s where "header_item b ''prev_hash'' = Inr q"
      "header_item (last (bc_chain bc)) ''tran_hash'' = Inr s" "py_eq q s"
      "getitem b ''block_index'' = Inr i" "getitem (last (bc_chain bc)) ''block_index'' = Inr j"
      "py_succ j = Inr k" "py_eq i k"
      by (auto simp: admit_plain_def prev_of_def bindE_eq_Inr get_default_iff if_eq_Inr py_succ_not_None)
    with False show ?thesis
      by (simp add: link_fault_def prev_of_def plain_link_fault_def)
  qed
  ultimately show ?thesis by (simp add: position_fault_def)
qed

section \<open>A block the chain makes itself\<close>

definition tip_hash :: "blockchain \<Rightarrow> pyval res" where
  "tip_hash bc =
     (if bc_chain bc = [] then Inr (PStr (bc_genesis_prev_hash bc))
      else header_item (last (bc_chain bc)) ''tran_hash'')"

lemma draft_block_items:
  assumes "draft_block now bc i o' = Inr b"
  shows "\<exists>kvs h p. b = PDict kvs \<and> distinct (map fst kvs) \<and>
    getitem b ''block_index'' = Inr (PInt (int (length (bc_chain bc)) + 1)) \<and>
    getitem b ''block_item'' = Inr (PStr (strftime now)) \<and>
    getitem b ''tran_body'' = Inr (create_new_transaction i o') \<and>
    tip_hash bc = Inr p \<and> draft_header (bc_consensus bc) p (create_new_transaction i o') = Inr h \<and>
    header_item b ''prev_hash'' = Inr p \<and> getitem b ''block_header'' = Inr h"
  using assms
  by (auto simp: draft_block_def Let_def bindE_eq_Inr tip_hash_def getitem_def header_item_def)
    (auto simp: draft_header_def bindE_eq_Inr getitem_def split: option.splits)

lemma seals_sealed: "seals g ch \<Longrightarrow> b \<in> set ch \<Longrightarrow> sealed b"
  by (induction g ch rule: seals.induct) auto

lemma own_link:
  assumes ver: "verify_chain L bc gs = Inr chain_ok" and len: "int (length (bc_chain bc)) < 2 ^ 53"
    and idx: "getitem b ''block_index'' = Inr (PInt (int (length (bc_chain bc)) + 1))"
    and prev: "tip_hash bc = Inr p" "header_item b ''prev_hash'' = Inr p"
  shows "validate_chain_link (bc_genesis_prev_hash bc) b (prev_of (bc_chain bc))
    (Some (bc_genesis_prev_hash bc)) = Inr accepted"
proof (cases "bc_chain bc = []")
  case True
  with idx prev show ?thesis
    by (simp add: prev_of_def validate_chain_link_first expected_genesis_def tip_hash_def num_eq_def)
next
  case False
  let ?ch = "bc_chain bc"
  from ver have links: "linked (bc_genesis_prev_hash bc) None ?ch" and seal: "seals (bc_genesis_prev_hash bc) ?ch"
    by (auto simp: verify_chain_def verified_linked verified_seals)
  have "sealed (last ?ch)" using seal False by (simp add: seals_sealed)
  then have p: "py_eq p p" using prev False by (auto simp: tip_hash_def sealed_def)
  have k: "length ?ch - 1 < length ?ch" "int (length ?ch - 1) + 1 = int (length ?ch)"
    using False by (simp_all add: Suc_leI of_nat_diff)
  from linked_index [OF links _ k(1)] len k(2) False obtain j where
    j: "getitem (last ?ch) ''block_index'' = Inr j" "py_eq j (PInt (int (length ?ch)))"
    by (auto simp: last_conv_nth)
  have "py_eq (PInt n) (PInt n)" for n by (simp add: num_eq_def)
  with py_succ_index [OF j(2)] len obtain s where
    "py_succ j = Inr s" "py_eq (PInt (int (length ?ch) + 1)) s"
    by (metis of_nat_0_le_iff)
  with False idx prev p j show ?thesis
    by (auto simp: prev_of_def validate_chain_link_next tip_hash_def)
qed

text \<open>The clock has not gone back behind the last block.\<close>

definition clock_ok :: "datetime \<Rightarrow> chain \<Rightarrow> bool" where
  "clock_ok now ch =
     (valid_datetime now \<and> 1000 \<le> dt_year now \<and>
      (ch = [] \<or>
       (case getitem (last ch) ''block_item'' of
          Inr v \<Rightarrow> (case opt_datetime v of Some t \<Rightarrow> dt_seconds t \<le> dt_seconds now | None \<Rightarrow> True)
        | Inl _ \<Rightarrow> True)))"

text \<open>What a chain needs to extend itself with a block it will verify.\<close>

definition ready :: "rsa_library \<Rightarrow> blockchain \<Rightarrow> stakes option \<Rightarrow> datetime \<Rightarrow> bool" where
  "ready L bc gs now =
     (rsa_laws L \<and> configured bc gs \<and> int (length (bc_chain bc)) < 2 ^ 53 \<and>
      (case bc_consensus bc of
         None \<Rightarrow> True
       | Some (PowC pw) \<Rightarrow> clock_ok now (bc_chain bc)
       | Some (PosC po) \<Rightarrow>
           manager_ok L (po_manager po) \<and> own_key_registered L po \<and> po_genesis po = gs))"

lemma pow_own_block_time:
  assumes ver: "verify_chain L bc gs = Inr chain_ok" and pw: "bc_consensus bc = Some (PowC pw)"
    and clock: "clock_ok now (bc_chain bc)" and item: "getitem b ''block_item'' = Inr (PStr (strftime now))"
  shows "pow_time_fault b (bc_chain bc) = Inr None"
proof (cases "bc_chain bc" rule: rev_cases)
  case Nil
  with clock item show ?thesis by (auto simp: pow_time_fault_None clock_ok_def strptime_strftime)
next
  case (snoc ch lb)
  from ver pw have "position_fault L (Some (PowC pw)) (bc_genesis_prev_hash bc) ch lb = Inr None"
    by (simp add: verify_chain_def snoc verify_snoc)
  then have "pow_validate_block (pw_settings pw) lb ch = Inr accepted"
    by (auto simp: position_fault_def content_fault_def bindE_eq_Inr fault_of_None [OF pow_valid_answer])
  then obtain s t where "getitem lb ''block_item'' = Inr (PStr s)" "strptime s = Inr t"
    by (auto simp: pow_accepted_iff pow_time_fault_None)
  with clock item show ?thesis
    by (auto simp: pow_time_fault_None clock_ok_def snoc opt_datetime_def strptime_strftime)
qed

lemma pow_own_block:
  assumes ver: "verify_chain L bc gs = Inr chain_ok" and rdy: "ready L bc gs now"
    and pw: "bc_consensus bc = Some (PowC pw)"
    and d: "draft_block now bc i o' = Inr d" and b: "c_prepare_block L rnd (PowC pw) d (bc_chain bc) = Inr b"
  shows "verify_chain_integrity L (bc_chain bc @ [b]) (Some (PowC pw)) (bc_genesis_prev_hash bc) gs
    = Inr chain_ok"
proof -
  from draft_block_items [OF d] obtain p where items:
    "getitem d ''block_index'' = Inr (PInt (int (length (bc_chain bc)) + 1))"
    "getitem d ''block_item'' = Inr (PStr (strftime now))" "tip_hash bc = Inr p"
    "header_item d ''prev_hash'' = Inr p" by blast
  from b have "mine_block (pw_settings pw) d (bc_chain bc) = Inr b" by (simp add: pow_prepare_block_def)
  note mined = mine_block_Inr [OF this]
  then have same: "getitem b k = getitem d k" if "k \<noteq> ''block_header''" for k using that by blast
  have prev: "header_item b ''prev_hash'' = Inr p"
    using mined items(4) by (auto simp: header_item_def)
  have "pow_time_fault b (bc_chain bc) = Inr None"
    using rdy pw items(2) by (intro pow_own_block_time [OF ver pw]) (simp_all add: ready_def same)
  with mined same [of "''tran_body''"] have acc: "pow_validate_block (pw_settings pw) b (bc_chain bc) = Inr accepted"
    by (auto simp: pow_accepted_iff header_item_Inr mine_loop_Inr py_int_def)
  have cfg: "configured bc gs" using rdy by (simp add: ready_def)
  have "validate_chain_link (bc_genesis_prev_hash bc) b (prev_of (bc_chain bc))
      (Some (bc_genesis_prev_hash bc)) = Inr accepted"
    using rdy items same by (intro own_link [OF ver _ _ items(3) prev]) (simp_all add: ready_def)
  with extend_verified [OF cfg pw ver] acc configured_link [OF cfg pw] show ?thesis
    by (simp add: consensus_check_def)
qed

lemma pos_own_block:
  assumes ver: "verify_chain L bc gs = Inr chain_ok" and rdy: "ready L bc gs now"
    and po: "bc_consensus bc = Some (PosC po)"
    and d: "draft_block now bc i o' = Inr d" and b: "c_prepare_block L rnd (PosC po) d (bc_chain bc) = Inr b"
  shows "verify_chain_integrity L (bc_chain bc @ [b]) (Some (PosC po)) (bc_genesis_prev_hash bc) gs
    = Inr chain_ok"
proof -
  from rdy po obtain s where cfg: "configured bc gs" "gs = Some s" "po_genesis po = gs" "rsa_laws L"
    "manager_ok L (po_manager po)" "own_key_registered L po"
    by (auto simp: ready_def configured_def)
  from draft_block_items [OF d] obtain kvs p where items:
    "getitem d ''block_index'' = Inr (PInt (int (length (bc_chain bc)) + 1))"
    "getitem d ''tran_body'' = Inr (create_new_transaction i o')" "tip_hash bc = Inr p"
    "header_item d ''prev_hash'' = Inr p" "d = PDict kvs" "distinct (map fst kvs)" by blast
  from b have prep: "pos_prepare_block L rnd po d (bc_chain bc) = Inr b" by simp
  then obtain vs where vs: "proposal_validators po (bc_chain bc) = Inr vs"
    by (auto simp: pos_prepare_block_def Let_def bindE_eq_Inr)
  note made = pos_prepared [OF cfg(4-6) prep items(5,6) items(2) [unfolded create_new_transaction_def] vs]
  have "compute_validators_from_chain (bc_chain bc) s (po_settings po) = Inr vs"
    using vs cfg by (simp add: proposal_validators_def)
  then have acc: "consensus_check L (PosC po) gs b (bc_chain bc) = Inr accepted"
    using made(1) cfg(2) by (simp add: consensus_check_def)
  have idx: "getitem b ''block_index'' = Inr (PInt (int (length (bc_chain bc)) + 1))"
    using made(3) [of "''block_index''"] items(1) by (simp add: signature_keys_def)
  have "validate_chain_link (bc_genesis_prev_hash bc) b (prev_of (bc_chain bc))
      (Some (bc_genesis_prev_hash bc)) = Inr accepted"
    using rdy made(2) items(4) by (intro own_link [OF ver _ idx items(3)]) (simp_all add: ready_def)
  with extend_verified [OF cfg(1) po ver _ acc] configured_link [OF cfg(1) po] show ?thesis by simp
qed

lemma plain_own_block:
  assumes ver: "verify_chain L bc gs = Inr chain_ok" and rdy: "ready L bc gs now"
    and none: "bc_consensus bc = None"
    and d: "draft_block now bc i o' = Inr d" and b: "finish_block L rnd bc d = Inr b"
  shows "verify_chain_integrity L (bc_chain bc @ [b]) None (bc_genesis_prev_hash bc) gs = Inr chain_ok"
proof -
  from draft_block_items [OF d] obtain p h where items:
    "getitem d ''block_index'' = Inr (PInt (int (length (bc_chain bc)) + 1))"
    "getitem d ''tran_body'' = Inr (create_new_transaction i o')" "tip_hash bc = Inr p"
    "draft_header None p (create_new_transaction i o') = Inr h" "getitem d ''block_header'' = Inr h"
    unfolding none by blast
  have "rsa_laws L" using rdy by (simp add: ready_def)
  then have same: "getitem b k = getitem d k" if "k \<notin> signature_keys" for k
    using b none that sign_block_items [of L rnd _ d b k]
    by (auto simp: finish_block_def split: bool.splits option.splits if_splits)
  have keys: "''block_index'' \<notin> signature_keys" "''tran_body'' \<notin> signature_keys"
    "''block_header'' \<notin> signature_keys" by (simp_all add: signature_keys_def)
  note b_items = keys [THEN same]
  from items(4) obtain q where h: "p = PStr q" "h = PDict [(''prev_hash'', p),
      (''tran_hash'', PStr (calc_legacy_tran_hash q (calc_body_hash (create_new_transaction i o'))))]"
    by (auto simp: draft_header_def bindE_eq_Inr as_str_Inr)
  have prev: "header_item b ''prev_hash'' = Inr p"
    using b_items(3) items(5) h by (simp add: header_item_def) (simp add: getitem_def)
  have link: "validate_chain_link (bc_genesis_prev_hash bc) b (prev_of (bc_chain bc))
      (Some (bc_genesis_prev_hash bc)) = Inr accepted"
    using rdy items b_items by (intro own_link [OF ver _ _ items(3) prev]) (simp_all add: ready_def)
  have "content_fault L None (bc_chain bc) b = Inr None"
  proof -
    have "get_default h ''consensus_type'' PNone = Inr PNone" "getitem h ''prev_hash'' = Inr (PStr q)"
      "get_default h ''tran_hash'' PNone =
        Inr (PStr (calc_legacy_tran_hash q (calc_body_hash (create_new_transaction i o'))))"
      by (simp_all add: h get_default_def getitem_def)
    then show ?thesis using b_items items(2,5)
      by (simp add: content_fault_def legacy_hash_fault_def known_items as_str_def)
  qed
  moreover have "link_fault None (bc_genesis_prev_hash bc) (prev_of (bc_chain bc)) b = Inr None"
    using link
    by (cases "prev_of (bc_chain bc)")
      (auto simp: link_fault_def plain_link_fault_None [where sg = "bc_genesis_prev_hash bc"
        and g = "Some (bc_genesis_prev_hash bc)"] genesis_fault_None first_index_fault_None
        validate_chain_link_first expected_genesis_def)
  ultimately have "position_fault L None (bc_genesis_prev_hash bc) (bc_chain bc) b = Inr None"
    by (simp add: position_fault_def)
  with ver none show ?thesis by (simp add: verify_chain_def verify_snoc)
qed

section \<open>The incremental check and the full verification\<close>

lemma admit_consensus:
  assumes "bc_consensus bc = Some c"
  shows "admit_block L bc gs b = Inr True \<longleftrightarrow>
    c_validate_link c b (prev_of (bc_chain bc)) (bc_genesis_prev_hash bc) = Inr accepted \<and>
    consensus_check L c gs b (bc_chain bc) = Inr accepted"
  (is "?l \<longleftrightarrow> ?r")
proof
  show "?l \<Longrightarrow> ?r"
    using assms
    by (auto simp: admit_block_def bindE_eq_Inr if_eq_Inr c_link_answer consensus_check_answer)
  assume r: ?r
  have "bc_chain bc = [] \<Longrightarrow> \<exists>i. getitem b ''block_index'' = Inr i \<and> py_eq i (PInt 1)"
    using r by (auto simp: prev_of_def c_validate_link_def validate_chain_link_first)
  with r assms show ?l by (auto simp: admit_block_def known_items)
qed

lemma check_verified_position:
  assumes cfg: "configured bc gs" and co: "bc_consensus bc = Some c"
    and ver: "verify_chain_integrity L (bc_chain bc @ [b]) (Some c) (bc_genesis_prev_hash bc) gs
      = Inr chain_ok"
  shows "c_validate_link c b (prev_of (bc_chain bc)) (bc_genesis_prev_hash bc) = Inr accepted"
    and "consensus_check L c gs b (bc_chain bc) = Inr accepted"
proof -
  have "c_validate_link c b (prev_of (bc_chain bc)) (bc_genesis_prev_hash bc) = Inr accepted \<and>
    consensus_check L c gs b (bc_chain bc) = Inr accepted"
  proof (cases c)
    case (PowC pw)
    with ver have "position_fault L (Some c) (bc_genesis_prev_hash bc) (bc_chain bc) b = Inr None"
      by (simp add: verify_snoc)
    then show ?thesis using link_fault_consensus [OF cfg co] PowC
      by (auto simp: position_fault_def content_fault_def bindE_eq_Inr consensus_check_def
          fault_of_None [OF pow_valid_answer])
  next
    case (PosC po)
    with cfg co obtain s where s: "gs = Some s" by (auto simp: configured_def)
    with ver PosC obtain vs where vs: "compute_validators_from_chain (bc_chain bc) s (po_settings po) = Inr vs"
      and f: "stake_position_fault L po (bc_genesis_prev_hash bc) (bc_chain bc) vs (bc_chain bc) b = Inr None"
      by (auto simp: verify_snoc)
    from f have "pos_validate_block L po (Some vs) None b (bc_chain bc) = Inr accepted"
      by (auto simp: stake_position_fault_def answers_None pos_accepted_iff effective_height_def)
    moreover have "c_validate_link c b (prev_of (bc_chain bc)) (bc_genesis_prev_hash bc) = Inr accepted"
      using f PosC by (auto simp: stake_position_fault_def answers_None split: option.splits)
    ultimately show ?thesis using PosC s vs by (simp add: consensus_check_def)
  qed
  then show "c_validate_link c b (prev_of (bc_chain bc)) (bc_genesis_prev_hash bc) = Inr accepted"
    "consensus_check L c gs b (bc_chain bc) = Inr accepted" by simp_all
qed

lemma accepted_hook:
  assumes "consensus_check L c gs b ch = Inr accepted" shows "\<exists>c'. c_on_block_added c b = Inr c'"
proof (cases c)
  case (PosC po)
  with assms obtain vst h where "pos_validate_block L po vst h b ch = Inr accepted"
    by (cases gs) (auto simp: consensus_check_def bindE_eq_Inr)
  then obtain v hd where "getitem b ''block_header'' = Inr hd" "getitem hd ''validator_id'' = Inr (PStr v)" "v \<noteq> []"
    by (auto simp: pos_accepted_iff header_item_Inr)
  moreover from this have "py_true hd" by (cases hd) (auto simp: getitem_def py_true_def)
  ultimately have "block_validator_id b = Inr (PStr v)" by (simp add: block_validator_id_def known_items)
  with PosC show ?thesis
    by (auto simp: pos_on_block_added_def apply_block_reward_def rewarded_key_def py_true_def validator_key_def)
qed simp

lemma append_accepted:
  assumes "bc_consensus bc = Some c" "consensus_check L c gs b (bc_chain bc) = Inr accepted"
  shows "\<exists>bc'. append_block bc b = (bc', Inr ())"
  using accepted_hook [OF assms(2)] assms(1) by (auto simp: append_block_def)

section \<open>The operations as a transition relation\<close>

text \<open>
  One call on the chain: making a block when the chain is ready to, receiving one, or
  receiving a whole chain.  The result of the call, an exception included, is not part of
  the step.  A chain without consensus receives blocks without a consensus type.
\<close>

inductive chain_step :: "rsa_library \<Rightarrow> stakes option \<Rightarrow> blockchain \<Rightarrow> blockchain \<Rightarrow> bool"
  for L gs where
  make: "ready L bc gs now \<Longrightarrow> add_new_block L rnd now i o' bc = (bc', r) \<Longrightarrow> chain_step L gs bc bc'"
| receive: "(bc_consensus bc = None \<Longrightarrow> header_item b ''consensus_type'' \<in> {Inl KeyError, Inr PNone}) \<Longrightarrow>
    add_block L b True gs bc = (bc', r) \<Longrightarrow> chain_step L gs bc bc'"
| replace: "replace_chain L ch gs bc = (bc', r) \<Longrightarrow> chain_step L gs bc bc'"

inductive_cases chain_stepE: "chain_step L gs bc bc'"

inductive chain_reachable :: "rsa_library \<Rightarrow> stakes option \<Rightarrow> blockchain \<Rightarrow> blockchain \<Rightarrow> bool"
  for L gs bc0 where
  start: "chain_reachable L gs bc0 bc0"
| step: "chain_reachable L gs bc0 bc \<Longrightarrow> chain_step L gs bc bc' \<Longrightarrow> chain_reachable L gs bc0 bc'"

definition verified_state :: "rsa_library \<Rightarrow> stakes option \<Rightarrow> blockchain \<Rightarrow> bool" where
  "verified_state L gs bc = (configured bc gs \<and> verify_chain L bc gs = Inr chain_ok)"

lemma append_verified:
  assumes st: "verified_state L gs bc" and app: "append_block bc b = (bc', r)"
    and ver: "verify_chain_integrity L (bc_chain bc @ [b]) (bc_consensus bc) (bc_genesis_prev_hash bc) gs
      = Inr chain_ok"
  shows "verified_state L gs bc'"
proof -
  have cfg: "configured bc gs" using st by (simp add: verified_state_def)
  have "configured bc' gs" using configured_same [OF cfg] append_block_chain [OF app] by blast
  with configured_verify [OF cfg app] ver show ?thesis by (simp add: verified_state_def)
qed

lemma add_new_block_cases:
  assumes "add_new_block L rnd now i o' bc = (bc', r)"
  shows "bc' = bc \<or> (\<exists>d b r'. draft_block now bc i o' = Inr d \<and> finish_block L rnd bc d = Inr b \<and>
    append_block bc b = (bc', r'))"
  using assms by (auto simp: add_new_block_def res_simps split: sum.splits prod.splits)

lemma own_block_verifies:
  assumes "verify_chain L bc gs = Inr chain_ok" "ready L bc gs now"
    and "draft_block now bc i o' = Inr d" "finish_block L rnd bc d = Inr b"
  shows "verify_chain_integrity L (bc_chain bc @ [b]) (bc_consensus bc) (bc_genesis_prev_hash bc) gs
    = Inr chain_ok"
proof (cases "bc_consensus bc")
  case None
  with assms plain_own_block show ?thesis by metis
next
  case (Some c)
  then have "c_prepare_block L rnd c d (bc_chain bc) = Inr b" using assms(4) by (simp add: finish_block_def)
  with Some assms pow_own_block pos_own_block show ?thesis by (cases c) metis+
qed

lemma add_new_block_verified:
  assumes "verified_state L gs bc" "ready L bc gs now" "add_new_block L rnd now i o' bc = (bc', r)"
  shows "verified_state L gs bc'"
  using add_new_block_cases [OF assms(3)]
proof
  assume "\<exists>d b r'. draft_block now bc i o' = Inr d \<and> finish_block L rnd bc d = Inr b \<and>
    append_block bc b = (bc', r')"
  then obtain d b r' where "draft_block now bc i o' = Inr d" "finish_block L rnd bc d = Inr b"
    "append_block bc b = (bc', r')" by blast
  with assms(1,2) own_block_verifies append_verified show ?thesis
    by (metis verified_state_def)
qed (use assms in simp)

lemma add_block_cases:
  assumes "add_block L b validate gs bc = (bc', r)"
  shows "bc' = bc \<or> ((if validate then admit_block L bc gs b else Inr True) = Inr True \<and>
    (\<exists>r'. append_block bc b = (bc', r')))"
  using assms unfolding add_block_def
  by (cases "if validate then admit_block L bc gs b else Inr True")
    (auto split: bool.splits prod.splits sum.splits)

lemma add_block_verified:
  assumes st: "verified_state L gs bc" and add: "add_block L b True gs bc = (bc', r)"
    and ct: "bc_consensus bc = None \<Longrightarrow> header_item b ''consensus_type'' \<in> {Inl KeyError, Inr PNone}"
  shows "verified_state L gs bc'"
  using add_block_cases [OF add]
proof
  assume a: "(if True then admit_block L bc gs b else Inr True) = Inr True \<and>
    (\<exists>r'. append_block bc b = (bc', r'))"
  have "verify_chain_integrity L (bc_chain bc @ [b]) (bc_consensus bc) (bc_genesis_prev_hash bc) gs
    = Inr chain_ok"
  proof (cases "bc_consensus bc")
    case None
    with a ct admit_plain_position [of bc L gs b] st show ?thesis
      by (simp add: verify_snoc verified_state_def verify_chain_def)
  next
    case (Some c)
    with a st extend_verified [of bc gs c L b] show ?thesis
      by (simp add: admit_consensus verified_state_def)
  qed
  with a st append_verified show ?thesis by blast
qed (use st in simp)

lemma replace_chain_verified:
  assumes st: "verified_state L gs bc" and rep: "replace_chain L ch gs bc = (bc', r)"
  shows "verified_state L gs bc' \<and> (bc' = bc \<or> bc_chain bc' = ch)"
proof (cases "bc' = bc")
  case False
  have sync: "same_rules (Some (PosC po)) (Some (PosC po'))"
    if "sync_validators_from_chain po c s = Inr po'" for po po' c s
    using that by (auto simp: sync_validators_from_chain_def bindE_eq_Inr)
  from rep False obtain v where v: "verify_chain_integrity L ch (bc_consensus bc) (bc_genesis_prev_hash bc) gs = Inr v"
    "cv_valid v"
    by (auto simp: replace_chain_def split: sum.splits if_splits)
  then have ok: "v = chain_ok"
    by (auto simp: verify_chain_integrity_def verify_stakes_valid verify_from_valid
        split: option.splits consensus_obj.splits)
  from rep False v have same: "bc_chain bc' = ch" "bc_genesis_prev_hash bc' = bc_genesis_prev_hash bc"
    "same_rules (bc_consensus bc) (bc_consensus bc')"
    by (auto simp: replace_chain_def Let_def dest!: sync
        split: sum.splits if_splits option.splits consensus_obj.splits)
  have cfg: "configured bc gs" using st by (simp add: verified_state_def)
  have "configured bc' gs" using configured_same [OF cfg] same by blast
  moreover have "gs \<noteq> None" if "bc_consensus bc = Some (PosC po)" for po
    using cfg that by (simp add: configured_def)
  ultimately show ?thesis
    using v ok same verify_same_rules [OF same(3), of gs L] by (simp add: verified_state_def verify_chain_def)
qed (use st in simp)

lemma reachable_verified_state:
  "chain_reachable L gs bc0 bc \<Longrightarrow> verified_state L gs bc0 \<Longrightarrow> verified_state L gs bc"
  by (induction rule: chain_reachable.induct)
    (auto elim!: chain_stepE intro: add_new_block_verified add_block_verified
      dest: replace_chain_verified)

section \<open>The properties of the chain object\<close>


definition sample_plain_chain :: blockchain where
  "sample_plain_chain = (new_blockchain False None ''1'')
     \<lparr>bc_chain := [plain_block ''1'' 1 sample_body 0]\<rparr>"

lemma sample_received:
  "chain_reachable sample_rsa None (new_blockchain False None ''1'') sample_plain_chain"
proof (rule chain_reachable.step [OF chain_reachable.start])
  let ?b = "plain_block ''1'' 1 sample_body 0" and ?bc = "new_blockchain False None ''1''"
  have "admit_block sample_rsa ?bc None ?b = Inr True"
    by (simp add: admit_block_def admit_plain_def new_blockchain_def prev_of_def plain_block_def
        get_default_def header_item_def getitem_def as_str_def num_eq_def sample_body_def)
  then have add: "add_block sample_rsa ?b True None ?bc = (sample_plain_chain, Inr True)"
    by (simp add: add_block_def append_block_def new_blockchain_def Let_def sample_plain_chain_def)
  have "header_item ?b ''consensus_type'' \<in> {Inl KeyError, Inr PNone}"
    by (simp add: plain_block_def header_item_def getitem_def)
  then show "chain_step sample_rsa None ?bc sample_plain_chain"
    by (rule chain_step.receive [OF _ add])
qed


text \<open>
  C2: Under a consensus the incremental check of a received block agrees with the full
  verification: \<open>add_block\<close> takes a block exactly when the chain with the block at its end
  verifies.
\<close>

theorem incremental_check_agrees:
  assumes "configured bc gs" "bc_consensus bc = Some c" "verify_chain L bc gs = Inr chain_ok"
  shows "(\<exists>bc'. add_block L b True gs bc = (bc', Inr True) \<and> bc_chain bc' = bc_chain bc @ [b]) \<longleftrightarrow>
    verify_chain_integrity L (bc_chain bc @ [b]) (Some c) (bc_genesis_prev_hash bc) gs = Inr chain_ok"
  (is "?l \<longleftrightarrow> ?r")
proof
  assume ?l
  then obtain bc' where add: "add_block L b True gs bc = (bc', Inr True)" by blast
  then have "admit_block L bc gs b = Inr True"
    by (auto simp: add_block_def split: sum.splits bool.splits)
  then show ?r using extend_verified [OF assms] by (simp add: admit_consensus [OF assms(2)])
next
  assume ?r
  note checks = check_verified_position [OF assms(1,2) this]
  then have "admit_block L bc gs b = Inr True" by (simp add: admit_consensus [OF assms(2)])
  moreover obtain bc' where "append_block bc b = (bc', Inr ())"
    using append_accepted [OF assms(2) checks(2)] by blast
  moreover from this have "bc_chain bc' = bc_chain bc @ [b]" by (rule append_block_chain)
  ultimately show ?l by (simp add: add_block_def)
qed

definition sample_pow_chain :: blockchain where
  "sample_pow_chain = new_blockchain False
     (Some (PowC \<lparr>pw_settings = sample_pow, pw_genesis_prev_hash = ''1''\<rparr>)) ''1''"

lemma sample_pow_chain_facts:
  "configured sample_pow_chain None" "bc_chain sample_pow_chain = []"
  "bc_consensus sample_pow_chain = Some (PowC \<lparr>pw_settings = sample_pow, pw_genesis_prev_hash = ''1''\<rparr>)"
  "bc_genesis_prev_hash sample_pow_chain = ''1''"
  "verify_chain L sample_pow_chain None = Inr chain_ok"
  by (simp_all add: sample_pow_chain_def new_blockchain_def configured_def verify_chain_def)

theorem incremental_check_agrees_witness:
  "verify_chain_integrity sample_rsa [sample_block]
     (Some (PowC \<lparr>pw_settings = sample_pow, pw_genesis_prev_hash = ''1''\<rparr>)) ''1'' None = Inr chain_ok"
proof -
  have "admit_block sample_rsa sample_pow_chain None sample_block = Inr True"
    by (simp add: admit_consensus [OF sample_pow_chain_facts(3)] sample_pow_chain_facts prev_of_def
        c_validate_link_def sample_link consensus_check_def sample_accepted)
  then have "\<exists>bc'. add_block sample_rsa sample_block True None sample_pow_chain = (bc', Inr True) \<and>
      bc_chain bc' = bc_chain sample_pow_chain @ [sample_block]"
    by (simp add: add_block_def append_block_def sample_pow_chain_facts Let_def)
  then show ?thesis
    using incremental_check_agrees [OF sample_pow_chain_facts(1,3,5)] sample_pow_chain_facts(2,4) by simp
qed


lemma verify_stakes_compute:
  "verify_stakes_from L po g full vs before bs = Inr chain_ok \<Longrightarrow>
   \<exists>vs'. compute_validators_from_chain bs vs (po_settings po) = Inr vs'"
  by (induction bs arbitrary: vs before)
    (auto simp: res_simps compute_validators_from_chain_def)

lemma replace_chain_cases:
  assumes "replace_chain L ch gs bc = (bc', r)"
  shows "(r = Inr True \<and> bc_chain bc' = ch \<and>
      verify_chain_integrity L ch (bc_consensus bc) (bc_genesis_prev_hash bc) gs = Inr chain_ok \<and>
      (\<forall>po s. bc_consensus bc = Some (PosC po) \<longrightarrow> gs = Some s \<longrightarrow>
        (\<exists>po'. bc_consensus bc' = Some (PosC po') \<and> po_genesis po' = Some s \<and>
          compute_validators_from_chain ch s (po_settings po) = Inr (po_validators po')))) \<or>
    (r = Inr False \<and> bc' = bc \<and>
      verify_chain_integrity L ch (bc_consensus bc) (bc_genesis_prev_hash bc) gs \<noteq> Inr chain_ok) \<or>
    (\<exists>e. r = Inl e \<and> bc' = bc \<and>
      verify_chain_integrity L ch (bc_consensus bc) (bc_genesis_prev_hash bc) gs = Inl e)"
proof (cases "verify_chain_integrity L ch (bc_consensus bc) (bc_genesis_prev_hash bc) gs")
  case (Inl e)
  with assms show ?thesis by (auto simp: replace_chain_def)
next
  case (Inr v)
  then have v: "cv_valid v \<longleftrightarrow> v = chain_ok"
    by (auto simp: verify_chain_integrity_def verify_stakes_valid verify_from_valid
        split: option.splits consensus_obj.splits)
  show ?thesis
  proof (cases "v = chain_ok")
    case False
    with assms Inr v show ?thesis by (auto simp: replace_chain_def)
  next
    case True
    have "\<exists>vs. compute_validators_from_chain ch s (po_settings po) = Inr vs"
      if "bc_consensus bc = Some (PosC po)" "gs = Some s" for po s
      using Inr that True by (auto simp: verify_chain_integrity_def dest: verify_stakes_compute)
    then have no: "compute_validators_from_chain ch s (po_settings po) \<noteq> Inl e"
      if "bc_consensus bc = Some (PosC po)" "gs = Some s" for po s e
      using that by fastforce
    from True assms Inr show ?thesis
      by (cases "\<exists>po s. bc_consensus bc = Some (PosC po) \<and> gs = Some s")
        (auto dest: no simp: replace_chain_def Let_def sync_validators_from_chain_def bindE_eq_Inl bindE_eq_Inr
          split: sum.splits option.splits consensus_obj.splits)
  qed
qed

lemma replace_chain_returned: "replace_chain L ch gs bc = (bc', r) \<Longrightarrow> r = Inr True \<or> bc' = bc"
  using replace_chain_cases by blast

text \<open>A block that belongs after a verified chain is appended without an exception.\<close>

lemma append_returned:
  assumes "verified_state L gs bc" "append_block bc b = (bc', r)"
    and "verify_chain_integrity L (bc_chain bc @ [b]) (bc_consensus bc) (bc_genesis_prev_hash bc) gs = Inr chain_ok"
  shows "r = Inr ()"
proof (cases "bc_consensus bc")
  case (Some c)
  with assms check_verified_position(2) [of bc gs c L b] append_accepted [OF Some, of L gs b]
  show ?thesis by (auto simp: verified_state_def)
qed (use assms(2) in \<open>simp add: append_block_def Let_def\<close>)

lemma add_block_returned:
  assumes "bc_consensus bc \<noteq> None" "add_block L b True gs bc = (bc', r)"
  shows "r = Inr True \<or> bc' = bc"
proof (cases "admit_block L bc gs b = Inr True")
  case True
  from assms(1) obtain c where c: "bc_consensus bc = Some c" by blast
  with True have "consensus_check L c gs b (bc_chain bc) = Inr accepted" by (simp add: admit_consensus)
  from append_accepted [OF c this] assms(2) True show ?thesis by (auto simp: add_block_def)
next
  case False
  then have "admit_block L bc gs b = Inr False \<or> (\<exists>e. admit_block L bc gs b = Inl e)"
    by (cases "admit_block L bc gs b") auto
  with assms(2) show ?thesis by (auto simp: add_block_def)
qed

lemma add_new_block_returned:
  assumes "verified_state L gs bc" "ready L bc gs now" "add_new_block L rnd now i o' bc = (bc', r)"
  shows "(\<exists>b. r = Inr b) \<or> bc' = bc"
proof (cases "bindE (draft_block now bc i o') (finish_block L rnd bc)")
  case (Inr b)
  then obtain d where d: "draft_block now bc i o' = Inr d" "finish_block L rnd bc d = Inr b" by (auto simp: bindE_eq_Inr)
  have "verify_chain L bc gs = Inr chain_ok" using assms(1) by (simp add: verified_state_def)
  note own = own_block_verifies [OF this assms(2) d]
  obtain bc1 r1 where app: "append_block bc b = (bc1, r1)" by fastforce
  from append_returned [OF assms(1) this own] have "r1 = Inr ()" .
  with app Inr assms(3) have "r = Inr b" by (simp add: add_new_block_def)
  then show ?thesis by simp
qed (use assms(3) in \<open>simp add: add_new_block_def\<close>)

text \<open>
  C12: \<open>replace_chain\<close> is all or nothing: it answers yes after installing exactly the given
  chain, verified, with the stakes recomputed from it; every other outcome, an exception of
  the verification included, leaves the object as it was.
\<close>

theorem replace_chain_outcome:
  assumes "replace_chain L ch gs bc = (bc', r)"
  shows "(r = Inr True \<and> bc_chain bc' = ch \<and>
      verify_chain_integrity L ch (bc_consensus bc) (bc_genesis_prev_hash bc) gs = Inr chain_ok \<and>
      (\<forall>po s. bc_consensus bc = Some (PosC po) \<longrightarrow> gs = Some s \<longrightarrow>
        (\<exists>po'. bc_consensus bc' = Some (PosC po') \<and> po_genesis po' = Some s \<and>
          compute_validators_from_chain ch s (po_settings po) = Inr (po_validators po')))) \<or>
    (r = Inr False \<and> bc' = bc \<and>
      verify_chain_integrity L ch (bc_consensus bc) (bc_genesis_prev_hash bc) gs \<noteq> Inr chain_ok) \<or>
    (\<exists>e. r = Inl e \<and> bc' = bc \<and>
      verify_chain_integrity L ch (bc_consensus bc) (bc_genesis_prev_hash bc) gs = Inl e)"
  using assms by (rule replace_chain_cases)

theorem replace_chain_outcome_witness:
  "\<exists>bc'. replace_chain sample_rsa [plain_block ''1'' 1 sample_body 0] None (new_blockchain False None ''1'')
     = (bc', Inr True) \<and> bc_chain bc' = [plain_block ''1'' 1 sample_body 0]"
proof -
  let ?bc = "new_blockchain False None ''1''"
  have "replace_chain sample_rsa [plain_block ''1'' 1 sample_body 0] None ?bc
     = (?bc\<lparr>bc_chain := [plain_block ''1'' 1 sample_body 0]\<rparr>, Inr True)"
    by (simp add: replace_chain_def new_blockchain_def plain_block_verifies Let_def)
  with replace_chain_outcome [OF this] show ?thesis by auto
qed

end
