(* ===== verification/Peer_Auth.thy ===== *)
theory Peer_Auth
  imports Signature
begin

text \<open>
  \<open>network/peer_auth.py\<close>: the signed HELLO.  A payload is a dict; \<open>now\<close> is the wall clock
  in seconds, a float.  The lemmas show that a HELLO a node builds is accepted within the
  permitted clock skew, and that acceptance rests on a signature over the signed fields.
\<close>

section \<open>The signed fields\<close>

definition pitem :: "pydict \<Rightarrow> string \<Rightarrow> pyval res" where
  "pitem payload k = getitem (PDict payload) k"

definition hello_signing_payload :: "pydict \<Rightarrow> pydict res" where
  "hello_signing_payload payload =
     bindE (pitem payload ''node_id'') (\<lambda>node_id.
     bindE (pitem payload ''consensus_type'') (\<lambda>ct.
     bindE (pitem payload ''genesis_hash'') (\<lambda>gh.
     bindE (pitem payload ''chain_height'') (\<lambda>height.
     bindE (pitem payload ''timestamp'') (\<lambda>ts.
     bindE (py_int ts) (\<lambda>t.
     Inr ([(''node_id'', node_id), (''consensus_type'', ct), (''genesis_hash'', gh),
           (''chain_height'', height), (''timestamp'', PInt t)] @
         (case map_of payload ''advertised_url'' of
            None \<Rightarrow> []
          | Some u \<Rightarrow> [(''advertised_url'', PStr (py_str u))]))))))))"

section \<open>Building\<close>

definition hello_base ::
    "string \<Rightarrow> string \<Rightarrow> int \<Rightarrow> string \<Rightarrow> int \<Rightarrow> string option \<Rightarrow> pydict" where
  "hello_base node_id ct height gh timestamp url =
     [(''node_id'', PStr node_id), (''consensus_type'', PStr ct), (''chain_height'', PInt height),
      (''genesis_hash'', PStr gh), (''timestamp'', PInt timestamp)] @
     (case url of
        Some u \<Rightarrow> if u = [] then [] else [(''advertised_url'', PStr u)]
      | None \<Rightarrow> [])"

text \<open>\<open>timestamp\<close> is \<open>int(time.time())\<close>.\<close>

definition build_hello_payload ::
    "rsa_library \<Rightarrow> nat \<Rightarrow> int \<Rightarrow> string \<Rightarrow> string \<Rightarrow> int \<Rightarrow> string \<Rightarrow> signature_manager
     \<Rightarrow> string option \<Rightarrow> pydict res" where
  "build_hello_payload L rnd timestamp node_id ct height gh m url =
     (let base = hello_base node_id ct height gh timestamp url in
      bindE (hello_signing_payload base) (\<lambda>signing.
      bindE (sign_data L rnd m (PDict signing)) (\<lambda>sig.
      bindE (export_public_key L m ''pem'') (\<lambda>pem.
      bindE (ascii_decode pem) (\<lambda>txt.
      Inr (base @ [(''public_key'', PStr txt), (''signature'', PStr (bytes_hex sig))]))))))"

section \<open>Verification\<close>

definition hello_required :: "string list" where
  "hello_required = [''node_id'', ''consensus_type'', ''chain_height'', ''genesis_hash'',
     ''timestamp'', ''public_key'', ''signature'']"

text \<open>\<open>abs(f) > n\<close> for a float and an int.\<close>

definition float_abs_gt :: "pyfloat \<Rightarrow> int \<Rightarrow> bool" where
  "float_abs_gt f n =
     (case f of
        Fin x \<Rightarrow> of_int n < \<bar>x\<bar>
      | NegZero \<Rightarrow> n < 0
      | NaN \<Rightarrow> False
      | _ \<Rightarrow> True)"

definition height_ok :: "pyval \<Rightarrow> bool" where
  "height_ok v = (case v of PInt n \<Rightarrow> 0 \<le> n | _ \<Rightarrow> False)"

text \<open>The \<open>try\<close> block around the import of the key and the verification.\<close>

definition hello_signature_ok ::
    "rsa_library \<Rightarrow> pydict \<Rightarrow> bytes \<Rightarrow> bytes \<Rightarrow> bool res" where
  "hello_signature_ok L payload sig pem =
     catchE
       (bindE (import_public_key L pem) (\<lambda>k.
        case k of
          OtherKey \<Rightarrow> Inr False
        | RsaKey pk \<Rightarrow>
            bindE (hello_signing_payload payload) (\<lambda>signing.
            verify_signature L new_manager (PDict signing) sig (Some k))))
       [ValueError, TypeError, UnsupportedAlgorithm] (Inr False)"

definition verify_hello ::
    "rsa_library \<Rightarrow> peer_auth_settings \<Rightarrow> pyfloat \<Rightarrow> pydict \<Rightarrow> bool res" where
  "verify_hello L st now payload =
     (if \<not> list_all (\<lambda>k. map_of payload k \<noteq> None) hello_required then Inr False
      else bindE (pitem payload ''chain_height'') (\<lambda>height.
      if \<not> height_ok height then Inr False
      else bindE (pitem payload ''timestamp'') (\<lambda>tv.
      case py_int tv of
        Inl _ \<Rightarrow> Inr False
      | Inr timestamp \<Rightarrow>
      bindE (float_of_int timestamp) (\<lambda>t.
      if float_abs_gt (float_sub now t) (pa_max_skew_seconds st) then Inr False
      else bindE (pitem payload ''signature'') (\<lambda>sv.
      bindE (pitem payload ''public_key'') (\<lambda>kv.
      case fromhex (py_str sv) of
        Inl _ \<Rightarrow> Inr False
      | Inr sig \<Rightarrow> hello_signature_ok L payload sig (utf8_encode (py_str kv))))))))"

section \<open>Facts\<close>

lemma pitem_map_of [simp]: "pitem kvs k = Inr v \<longleftrightarrow> map_of kvs k = Some v"
  by (auto simp: pitem_def getitem_def split: option.splits)

lemma signing_payload_append:
  assumes "\<And>k. k \<in> {''node_id'', ''consensus_type'', ''genesis_hash'', ''chain_height'',
    ''timestamp'', ''advertised_url''} \<Longrightarrow> map_of extra k = None"
  shows "hello_signing_payload (base @ extra) = hello_signing_payload base"
proof -
  have "map_of (base @ extra) k = map_of base k" if "k \<in> {''node_id'', ''consensus_type'',
    ''genesis_hash'', ''chain_height'', ''timestamp'', ''advertised_url''}" for k
    using assms [OF that] by (simp add: map_add_def split: option.splits)
  then show ?thesis by (simp add: hello_signing_payload_def pitem_def getitem_def)
qed

lemma hello_base_signing:
  "\<exists>signing. hello_signing_payload (hello_base node_id ct height gh ts url) = Inr signing"
  by (simp add: hello_signing_payload_def hello_base_def pitem_def getitem_def py_int_def)

lemma build_hello_Inr:
  assumes "rsa_laws L" "build_hello_payload L rnd ts node_id ct height gh m url = Inr payload"
  shows "\<exists>signing sig pk. hello_signing_payload (hello_base node_id ct height gh ts url) = Inr signing \<and>
    sign_data L rnd m (PDict signing) = Inr sig \<and> sm_public m = Some pk \<and>
    payload = hello_base node_id ct height gh ts url @
      [(''public_key'', PStr (lib_public_pem L pk)), (''signature'', PStr (bytes_hex sig))]"
  using assms
  by (auto simp: build_hello_payload_def Let_def bindE_eq_Inr export_public_key_def lower_char_def
      import_exported_key(2) split: option.splits)

lemma py_str_PStr [simp]: "py_str (PStr s) = s"
  by (simp add: py_str_def)

text \<open>Only the items of a payload matter, not their order.\<close>

lemma verify_hello_items:
  assumes "map_of p = map_of q"
  shows "verify_hello L st now p = verify_hello L st now q"
proof -
  have item: "pitem p k = pitem q k" for k by (simp add: pitem_def getitem_def assms)
  then have "hello_signing_payload p = hello_signing_payload q" by (simp add: hello_signing_payload_def assms)
  then have "hello_signature_ok L p sig pem = hello_signature_ok L q sig pem" for sig pem
    by (simp only: hello_signature_ok_def)
  then show ?thesis unfolding verify_hello_def by (simp only: item assms)
qed

lemma built_hello_verifies:
  assumes "rsa_laws L" "manager_ok L m" "0 \<le> height"
    and "build_hello_payload L rnd ts node_id ct height gh m url = Inr payload"
    and "float_of_int ts = Inr t" "\<not> float_abs_gt (float_sub now t) (pa_max_skew_seconds st)"
    and "map_of q = map_of payload"
  shows "verify_hello L st now q = Inr True"
proof -
  let ?base = "hello_base node_id ct height gh ts url"
  from build_hello_Inr [OF assms(1,4)] obtain signing sig pk where
    s: "hello_signing_payload ?base = Inr signing" "sign_data L rnd m (PDict signing) = Inr sig"
      "sm_public m = Some pk"
    and p: "payload = ?base @ [(''public_key'', PStr (lib_public_pem L pk)), (''signature'', PStr (bytes_hex sig))]"
    by blast
  have base: "map_of ?base ''node_id'' = Some (PStr node_id)" "map_of ?base ''consensus_type'' = Some (PStr ct)"
    "map_of ?base ''chain_height'' = Some (PInt height)" "map_of ?base ''genesis_hash'' = Some (PStr gh)"
    "map_of ?base ''timestamp'' = Some (PInt ts)" "map_of ?base ''public_key'' = None"
    "map_of ?base ''signature'' = None"
    by (auto simp: hello_base_def split: option.splits)
  have req: "list_all (\<lambda>k. map_of payload k \<noteq> None) hello_required"
    by (simp add: hello_required_def p base map_add_def)
  have items: "map_of payload ''chain_height'' = Some (PInt height)" "map_of payload ''timestamp'' = Some (PInt ts)"
    "map_of payload ''signature'' = Some (PStr (bytes_hex sig))"
    "map_of payload ''public_key'' = Some (PStr (lib_public_pem L pk))"
    by (simp_all add: p base map_add_def)
  have signing: "hello_signing_payload payload = Inr signing"
    unfolding p s(1) [symmetric] by (rule signing_payload_append) auto
  have "verify_signature L new_manager (PDict signing) sig (Some (RsaKey pk)) = Inr True"
    using verify_own_signature [OF assms(1,2) s(2)] s(3) by auto
  then have "hello_signature_ok L payload sig (utf8_encode (lib_public_pem L pk)) = Inr True"
    by (simp add: hello_signature_ok_def import_exported_key [OF assms(1)] signing)
  then have "verify_hello L st now payload = Inr True"
    using items req assms(3,5,6)
    by (simp add: verify_hello_def pitem_def getitem_def height_ok_def py_int_def)
  then show ?thesis using verify_hello_items [OF assms(7)] by simp
qed


definition sample_manager :: signature_manager where
  "sample_manager = \<lparr>sm_private = Some ''k'', sm_public = Some ''k''\<rparr>"

lemma sample_builds:
  "\<exists>payload. build_hello_payload sample_rsa rnd ts node_id ct height gh \<lparr>sm_private = Some k, sm_public = Some k\<rparr> url = Inr payload"
proof -
  obtain signing where "hello_signing_payload (hello_base node_id ct height gh ts url) = Inr signing"
    using hello_base_signing by blast
  moreover have "sign_data sample_rsa rnd \<lparr>sm_private = Some k, sm_public = Some k\<rparr> v = Inr (checksum k (utf8_encode (signing_text v)))" for v
    by (simp add: sign_data_def sample_rsa_def)
  moreover have "export_public_key sample_rsa \<lparr>sm_private = Some k, sm_public = Some k\<rparr> ''pem'' = Inr (lib_public_pem sample_rsa k)"
    by (simp add: export_public_key_def lower_char_def)
  ultimately show ?thesis
    by (simp add: build_hello_payload_def Let_def import_exported_key(2) [OF sample_rsa_laws])
qed

lemma sample_hello:
  "\<exists>payload. build_hello_payload sample_rsa 0 0 ''n'' ''pow'' 3 ''1'' sample_manager None = Inr payload"
  unfolding sample_manager_def by (rule sample_builds)

lemma sample_clock:
  "manager_ok sample_rsa sample_manager" "float_of_int 0 = Inr (Fin 0)"
  "\<not> float_abs_gt (float_sub (Fin 120) (Fin 0)) (pa_max_skew_seconds default_peer_auth)"
proof -
  show "manager_ok sample_rsa sample_manager" by (simp add: manager_ok_def sample_manager_def sample_rsa_def)
  show "float_of_int 0 = Inr (Fin 0)" using float_of_int_small [of 0] by simp
  have "float_sub (Fin 120) (Fin 0) = Fin 120"
    using float_of_exact_pos [of 120 120] round_rat_int [of 120]
    by (simp add: float_sub_def float_neg_def float_add_def round_rat_def)
  then show "\<not> float_abs_gt (float_sub (Fin 120) (Fin 0)) (pa_max_skew_seconds default_peer_auth)"
    by (simp add: float_abs_gt_def default_peer_auth_def)
qed


text \<open>
  C16: A HELLO is accepted only with a signature that verifies, under the RSA key it carries,
  over the JSON text of exactly the signed fields, and with a time stamp within the skew.
\<close>

theorem accepted_hello_signed:
  assumes "verify_hello L st now payload = Inr True"
  shows "\<exists>signing hex sig kv pk ts t. hello_signing_payload payload = Inr signing \<and>
    map_of payload ''signature'' = Some hex \<and> fromhex (py_str hex) = Inr sig \<and>
    map_of payload ''public_key'' = Some kv \<and>
    import_public_key L (utf8_encode (py_str kv)) = Inr (RsaKey pk) \<and>
    lib_verify L pk sig (utf8_encode (json_dumps_sorted (PDict signing))) \<and>
    map_of signing ''timestamp'' = Some (PInt ts) \<and> float_of_int ts = Inr t \<and>
    \<not> float_abs_gt (float_sub now t) (pa_max_skew_seconds st)"
proof -
  from assms obtain tv ts t hex kv sig where
    p: "map_of payload ''timestamp'' = Some tv" "py_int tv = Inr ts" "float_of_int ts = Inr t"
      "\<not> float_abs_gt (float_sub now t) (pa_max_skew_seconds st)"
      "map_of payload ''signature'' = Some hex" "map_of payload ''public_key'' = Some kv"
      "fromhex (py_str hex) = Inr sig"
    and ok: "hello_signature_ok L payload sig (utf8_encode (py_str kv)) = Inr True"
    by (auto simp: verify_hello_def res_simps)
  from ok obtain pk signing where k: "import_public_key L (utf8_encode (py_str kv)) = Inr (RsaKey pk)"
    "hello_signing_payload payload = Inr signing"
    and v: "verify_signature L new_manager (PDict signing) sig (Some (RsaKey pk)) = Inr True"
    by (auto simp: hello_signature_ok_def res_simps)
  from v have "lib_verify L pk sig (utf8_encode (json_dumps_sorted (PDict signing)))"
    by (auto simp: verify_signature_def signing_text_def split: if_splits)
  moreover from k(2) p(1,2) have "map_of signing ''timestamp'' = Some (PInt ts)"
    by (auto simp: hello_signing_payload_def bindE_eq_Inr)
  ultimately show ?thesis using p k by blast
qed

theorem accepted_hello_signed_witness:
  "\<exists>payload signing. build_hello_payload sample_rsa 0 0 ''n'' ''pow'' 3 ''1'' sample_manager None = Inr payload \<and>
     hello_signing_payload payload = Inr signing"
proof -
  obtain payload where p: "build_hello_payload sample_rsa 0 0 ''n'' ''pow'' 3 ''1'' sample_manager None = Inr payload"
    using sample_hello by blast
  from build_hello_Inr [OF sample_rsa_laws p] obtain signing sig where
    s: "hello_signing_payload (hello_base ''n'' ''pow'' 3 ''1'' 0 None) = Inr signing"
      "sign_data sample_rsa 0 sample_manager (PDict signing) = Inr sig"
    and payload: "payload = hello_base ''n'' ''pow'' 3 ''1'' 0 None @
      [(''public_key'', PStr (lib_public_pem sample_rsa ''k'')), (''signature'', PStr (bytes_hex sig))]"
    by (auto simp: sample_manager_def)
  have sg: "hello_signing_payload payload = Inr signing"
    unfolding payload s(1) [symmetric] by (rule signing_payload_append) auto
  have "verify_signature sample_rsa new_manager (PDict signing) sig (Some (RsaKey ''k'')) = Inr True"
    using verify_own_signature [OF sample_rsa_laws _ s(2)]
    by (simp add: manager_ok_def sample_manager_def sample_rsa_def)
  then have "hello_signature_ok sample_rsa payload sig (utf8_encode (lib_public_pem sample_rsa ''k'')) = Inr True"
    by (simp add: hello_signature_ok_def import_exported_key [OF sample_rsa_laws] sg)
  moreover have "float_of_int 0 = Inr (Fin 0)" using float_of_int_small [of 0] by simp
  moreover have "\<not> float_abs_gt (float_sub (Fin 0) (Fin 0)) 300"
    by (simp add: float_sub_def float_neg_def float_add_def float_of_exact_def round_rat_def float_abs_gt_def
        float_limit_def)
  ultimately have "verify_hello sample_rsa default_peer_auth (Fin 0) payload = Inr True"
    by (simp add: verify_hello_def payload hello_base_def hello_required_def pitem_def getitem_def height_ok_def
        py_int_def default_peer_auth_def)
  from accepted_hello_signed [OF this] p sg show ?thesis by blast
qed

end
