(* ===== verification/Py_Json.thy ===== *)
theory Py_Json
  imports Py_Text
begin

text \<open>
  \<open>json.loads\<close>, and \<open>json.dumps\<close> with any layout.  The scanner follows CPython's: numbers by
  the longest match, \<open>NaN\<close> and \<open>Infinity\<close> accepted, control characters refused in strings, the
  last of two equal keys kept in the place of the first.  The scanner's recursion is bounded
  by a number of steps that the length of the text makes sufficient (\<open>json_loads_steps\<close>).
  A \<open>\u\<close> escape above U+00FF is outside the model and answered by \<open>UnmodelledText\<close>.
  The main fact is that loading a dumped value gives the value back (\<open>json_loads_layout\<close>).
\<close>

section \<open>Numbers\<close>

definition json_space :: "char \<Rightarrow> bool" where
  "json_space c = (code c \<in> {9, 10, 13, 32})"

definition skip_ws :: "string \<Rightarrow> string" where
  "skip_ws s = dropWhile json_space s"

text \<open>\<open>-?(0|[1-9]\d*)\<close>: the digits and the rest.\<close>

definition json_int_part :: "string \<Rightarrow> (string \<times> string) option" where
  "json_int_part s =
     (case s of
        [] \<Rightarrow> None
      | c # cs \<Rightarrow>
          if c = CHR ''0'' then Some (''0'', cs)
          else if is_digit c then Some (takeWhile is_digit s, dropWhile is_digit s)
          else None)"

text \<open>\<open>(\.\d+)?\<close>\<close>

definition json_frac_part :: "string \<Rightarrow> string \<times> string" where
  "json_frac_part s =
     (case s of
        c # d # cs \<Rightarrow>
          if c = CHR ''.'' \<and> is_digit d
          then (takeWhile is_digit (d # cs), dropWhile is_digit (d # cs))
          else ([], s)
      | _ \<Rightarrow> ([], s))"

text \<open>\<open>([eE][-+]?\d+)?\<close>\<close>

definition json_exp_part :: "string \<Rightarrow> int option \<times> string" where
  "json_exp_part s =
     (case s of
        c # cs \<Rightarrow>
          if c \<in> {CHR ''e'', CHR ''E''}
          then (let neg = (cs \<noteq> [] \<and> hd cs = CHR ''-'');
                    ds = (if cs \<noteq> [] \<and> hd cs \<in> {CHR ''-'', CHR ''+''} then tl cs else cs);
                    n = int (parse_nat (takeWhile is_digit ds))
                in if ds \<noteq> [] \<and> is_digit (hd ds)
                   then (Some (if neg then - n else n), dropWhile is_digit ds)
                   else (None, s))
          else (None, s)
      | [] \<Rightarrow> (None, s))"

text \<open>\<open>float(text)\<close> of a matched number: the exact decimal value, rounded once.\<close>

definition decimal_float :: "bool \<Rightarrow> string \<Rightarrow> int \<Rightarrow> pyfloat" where
  "decimal_float neg digits e =
     (let x = of_nat (parse_nat digits) * pow10 e in
      if x = 0 then signed_zero neg else float_of_exact (if neg then - x else x))"

definition json_number :: "string \<Rightarrow> (pyval \<times> string) res" where
  "json_number s =
     (let neg = (s \<noteq> [] \<and> hd s = CHR ''-'') in
      case json_int_part (if neg then tl s else s) of
        None \<Rightarrow> Inl JSONDecodeError
      | Some (ds, s1) \<Rightarrow>
          let (fs, s2) = json_frac_part s1; (ex, s3) = json_exp_part s2 in
          if fs = [] \<and> ex = None
          then (if 4300 < length ds then Inl ValueError
                else Inr (PInt (if neg then - int (parse_nat ds) else int (parse_nat ds)), s3))
          else Inr (PFloat (decimal_float neg (ds @ fs)
                 ((case ex of None \<Rightarrow> 0 | Some e \<Rightarrow> e) - int (length fs))), s3))"

section \<open>Strings\<close>

definition hex4 :: "char \<Rightarrow> char \<Rightarrow> char \<Rightarrow> char \<Rightarrow> nat option" where
  "hex4 a b c d =
     (case (hex_val a, hex_val b, hex_val c, hex_val d) of
        (Some i, Some j, Some k, Some l) \<Rightarrow> Some (4096 * i + 256 * j + 16 * k + l)
      | _ \<Rightarrow> None)"

definition json_simple_escape :: "char \<Rightarrow> char option" where
  "json_simple_escape c =
     (if c \<in> {CHR ''\"'', backslash, CHR ''/''} then Some c
      else if c = CHR ''b'' then Some (char_of (8::nat))
      else if c = CHR ''f'' then Some (char_of (12::nat))
      else if c = CHR ''n'' then Some (char_of (10::nat))
      else if c = CHR ''r'' then Some (char_of (13::nat))
      else if c = CHR ''t'' then Some (char_of (9::nat))
      else None)"

text \<open>The character an escape stands for, from the text after the backslash.\<close>

definition json_escape_char :: "string \<Rightarrow> (char \<times> string) res" where
  "json_escape_char s =
     (case s of
        [] \<Rightarrow> Inl JSONDecodeError
      | e # es \<Rightarrow>
          (case json_simple_escape e of
             Some d \<Rightarrow> Inr (d, es)
           | None \<Rightarrow>
               if e \<noteq> CHR ''u'' then Inl JSONDecodeError
               else (case es of
                   h1 # h2 # h3 # h4 # rest \<Rightarrow>
                     (case hex4 h1 h2 h3 h4 of
                        None \<Rightarrow> Inl JSONDecodeError
                      | Some n \<Rightarrow> if 255 < n then Inl UnmodelledText else Inr (char_of n, rest))
                 | _ \<Rightarrow> Inl JSONDecodeError)))"

lemma escape_char_shorter: "json_escape_char s = Inr (d, r) \<Longrightarrow> length r < length s"
  by (auto simp: json_escape_char_def split: list.splits option.splits if_splits)

lemma escape_char_errors:
  "json_escape_char s = Inl e \<Longrightarrow> e \<in> {JSONDecodeError, UnmodelledText}"
  by (auto simp: json_escape_char_def split: list.splits option.splits if_splits)

text \<open>The contents of a string after its opening quote.\<close>

function json_scan_string :: "string \<Rightarrow> (string \<times> string) res" where
  "json_scan_string [] = Inl JSONDecodeError"
| "json_scan_string (c # cs) =
     (if c = CHR ''\"'' then Inr ([], cs)
      else if c = backslash then
        bindE (json_escape_char cs) (\<lambda>(d, rest).
        bindE (json_scan_string rest) (\<lambda>(t, r). Inr (d # t, r)))
      else if code c < 32 then Inl JSONDecodeError
      else bindE (json_scan_string cs) (\<lambda>(t, r). Inr (c # t, r)))"
  by pat_completeness auto

termination
  by (relation "measure length") (auto dest!: escape_char_shorter)

section \<open>Values\<close>

text \<open>The literal words, in the order the scanner tries them.\<close>

definition json_words :: "(string \<times> pyval) list" where
  "json_words = [(''null'', PNone), (''true'', PBool True), (''false'', PBool False),
     (''NaN'', PFloat NaN), (''Infinity'', PFloat PosInf), (''-Infinity'', PFloat NegInf)]"

definition json_word :: "string \<Rightarrow> (pyval \<times> string) option" where
  "json_word s =
     (case filter (\<lambda>(w, v). take (length w) s = w) json_words of
        [] \<Rightarrow> None
      | (w, v) # _ \<Rightarrow> Some (v, drop (length w) s))"

text \<open>
  Punctuation: \<open>json_open\<close> after an opening bracket or brace says whether the closing one
  follows; \<open>json_next\<close> after an element or member says whether another one follows;
  \<open>json_key\<close> reads the name of a member with its colon.
\<close>

definition json_open :: "char \<Rightarrow> string \<Rightarrow> (bool \<times> string) res" where
  "json_open close s =
     (case skip_ws s of
        [] \<Rightarrow> Inl JSONDecodeError
      | c # cs \<Rightarrow> if c = close then Inr (True, cs) else Inr (False, c # cs))"

definition json_next :: "char \<Rightarrow> string \<Rightarrow> (bool \<times> string) res" where
  "json_next close s =
     (case skip_ws s of
        [] \<Rightarrow> Inl JSONDecodeError
      | c # cs \<Rightarrow>
          if c = close then Inr (False, cs)
          else if c = CHR '','' then Inr (True, skip_ws cs)
          else Inl JSONDecodeError)"

definition json_key :: "string \<Rightarrow> (string \<times> string) res" where
  "json_key s =
     (case s of
        [] \<Rightarrow> Inl JSONDecodeError
      | q # qs \<Rightarrow>
          if q \<noteq> CHR ''\"'' then Inl JSONDecodeError
          else bindE (json_scan_string qs) (\<lambda>(k, r).
            case skip_ws r of
              [] \<Rightarrow> Inl JSONDecodeError
            | c # cs \<Rightarrow> if c \<noteq> CHR '':'' then Inl JSONDecodeError else Inr (k, skip_ws cs)))"

text \<open>
  \<open>json_elems n acc s\<close> reads the elements of an array up to its bracket, \<open>json_members n acc s\<close>
  the members of an object up to its brace; the first element or member is still to come.
\<close>

fun json_value :: "nat \<Rightarrow> string \<Rightarrow> (pyval \<times> string) res"
and json_elems :: "nat \<Rightarrow> pyval list \<Rightarrow> string \<Rightarrow> (pyval \<times> string) res"
and json_members :: "nat \<Rightarrow> pydict \<Rightarrow> string \<Rightarrow> (pyval \<times> string) res" where
  "json_value 0 s = Inl RuntimeError"
| "json_value (Suc n) s =
     (case s of
        [] \<Rightarrow> Inl JSONDecodeError
      | c # cs \<Rightarrow>
          if c = CHR ''\"'' then bindE (json_scan_string cs) (\<lambda>(t, r). Inr (PStr t, r))
          else if c = CHR ''{'' then
            bindE (json_open CHR ''}'' cs) (\<lambda>(closed, r).
            if closed then Inr (PDict [], r) else json_members n [] r)
          else if c = CHR ''['' then
            bindE (json_open CHR '']'' cs) (\<lambda>(closed, r).
            if closed then Inr (PList [], r) else json_elems n [] r)
          else (case json_word s of Some r \<Rightarrow> Inr r | None \<Rightarrow> json_number s))"
| "json_elems 0 acc s = Inl RuntimeError"
| "json_elems (Suc n) acc s =
     bindE (json_value n s) (\<lambda>(v, r).
     bindE (json_next CHR '']'' r) (\<lambda>(more, r').
     if more then json_elems n (acc @ [v]) r' else Inr (PList (acc @ [v]), r')))"
| "json_members 0 acc s = Inl RuntimeError"
| "json_members (Suc n) acc s =
     bindE (json_key s) (\<lambda>(k, r1).
     bindE (json_value n r1) (\<lambda>(v, r2).
     bindE (json_next CHR ''}'' r2) (\<lambda>(more, r').
     if more then json_members n (AList.update k v acc) r'
     else Inr (PDict (AList.update k v acc), r'))))"

text \<open>\<open>json.loads(s)\<close>.\<close>

definition json_loads :: "string \<Rightarrow> pyval res" where
  "json_loads s =
     bindE (json_value (2 * length s + 1) (skip_ws s)) (\<lambda>(v, r).
     if skip_ws r = [] then Inr v else Inl JSONDecodeError)"

section \<open>The steps are sufficient\<close>

lemma skip_ws_length: "length (skip_ws s) \<le> length s"
  by (simp add: skip_ws_def length_dropWhile_le)

lemma scan_string_shorter: "json_scan_string s = Inr (t, r) \<Longrightarrow> length r < length s"
proof (induction s arbitrary: t r rule: json_scan_string.induct)
  case (2 c cs)
  show ?case
  proof (cases "c \<noteq> CHR ''\"'' \<and> c = backslash")
    case True
    with "2.prems" obtain d rest t' where *: "json_escape_char cs = Inr (d, rest)"
      "json_scan_string rest = Inr (t', r)"
      by (auto simp: bindE_eq_Inr)
    with escape_char_shorter [OF *(1)] "2.IH"(1) [of "(d, rest)" d rest t' r] True
    show ?thesis by auto
  next
    case False
    with "2.prems" "2.IH"(2) show ?thesis
      by (fastforce simp: bindE_eq_Inr split: if_splits)
  qed
qed simp

lemma scan_string_errors:
  "json_scan_string s = Inl e \<Longrightarrow> e \<in> {JSONDecodeError, UnmodelledText}"
proof (induction s rule: json_scan_string.induct)
  case (2 c cs)
  show ?case
  proof (cases "c \<noteq> CHR ''\"'' \<and> c = backslash")
    case True
    with "2.prems" "2.IH"(1) show ?thesis
      by (auto simp: bindE_eq_Inl dest: escape_char_errors)
  next
    case False
    with "2.prems" "2.IH"(2) show ?thesis
      by (auto simp: bindE_eq_Inl split: if_splits)
  qed
qed simp

lemma json_int_part_shorter: "json_int_part s = Some (ds, r) \<Longrightarrow> length r < length s"
  by (auto simp: json_int_part_def split: list.splits if_splits
      intro: le_imp_less_Suc length_dropWhile_le)

lemma json_frac_part_shorter: "json_frac_part s = (ds, r) \<Longrightarrow> length r \<le> length s"
  by (auto simp: json_frac_part_def split: list.splits if_splits
      intro: le_SucI length_dropWhile_le)

lemma json_exp_part_shorter: "json_exp_part s = (ex, r) \<Longrightarrow> length r \<le> length s"
proof -
  assume *: "json_exp_part s = (ex, r)"
  have "length (dropWhile is_digit (tl cs)) \<le> Suc (length cs)"
    "length (dropWhile is_digit cs) \<le> Suc (length cs)" for cs
    using length_dropWhile_le [of is_digit "tl cs"] length_dropWhile_le [of is_digit cs]
    by simp_all
  with * show ?thesis
    by (auto simp: json_exp_part_def Let_def split: list.splits if_splits)
qed

lemma json_number_shorter: "json_number s = Inr (v, r) \<Longrightarrow> length r < length s"
proof -
  assume "json_number s = Inr (v, r)"
  then obtain ds s1 fs s2 ex where "json_int_part (if s \<noteq> [] \<and> hd s = CHR ''-'' then tl s else s) = Some (ds, s1)"
    "json_frac_part s1 = (fs, s2)" "json_exp_part s2 = (ex, r)"
    by (simp add: json_number_def Let_def split: option.splits prod.splits if_splits)
  then show ?thesis
    by (auto dest!: json_int_part_shorter json_frac_part_shorter json_exp_part_shorter split: if_splits)
qed

lemma json_number_errors: "json_number s = Inl e \<Longrightarrow> e \<in> {JSONDecodeError, ValueError}"
  by (auto simp: json_number_def Let_def split: option.splits prod.splits if_splits)

lemma json_word_shorter: "json_word s = Some (v, r) \<Longrightarrow> length r < length s"
  by (cases s) (auto simp: json_word_def json_words_def split: if_splits)

lemma json_open_shorter: "json_open close s = Inr (b, r) \<Longrightarrow> length r \<le> length s"
proof -
  assume "json_open close s = Inr (b, r)"
  then have "r = skip_ws s \<or> skip_ws s = close # r"
    by (auto simp: json_open_def split: list.split_asm if_split_asm)
  then show ?thesis using skip_ws_length [of s] by auto
qed

lemma json_next_shorter: "json_next close s = Inr (b, r) \<Longrightarrow> length r < length s"
proof -
  assume "json_next close s = Inr (b, r)"
  then obtain c cs where "skip_ws s = c # cs" "r \<in> {cs, skip_ws cs}"
    by (auto simp: json_next_def split: list.splits if_splits)
  then show ?thesis using skip_ws_length [of s] skip_ws_length [of cs] by auto
qed

lemma json_key_inv:
  assumes "json_key s = Inr (k, r)"
  obtains qs u cs where "s = CHR ''\"'' # qs" "json_scan_string qs = Inr (k, u)"
    "skip_ws u = CHR '':'' # cs" "r = skip_ws cs"
proof (cases s)
  case (Cons q qs)
  with assms obtain k' u where q: "q = CHR ''\"''" and u: "json_scan_string qs = Inr (k', u)"
    and r: "(case skip_ws u of [] \<Rightarrow> Inl JSONDecodeError
        | c # cs \<Rightarrow> if c \<noteq> CHR '':'' then Inl JSONDecodeError else Inr (k', skip_ws cs)) = Inr (k, r)"
    by (cases "q = CHR ''\"''") (auto simp: json_key_def bindE_eq_Inr)
  show ?thesis
  proof (cases "skip_ws u")
    case (Cons c cs)
    with r have "c = CHR '':''" "k' = k" "r = skip_ws cs" by (simp_all split: if_splits)
    with that [of qs u cs] \<open>s = q # qs\<close> q u Cons show ?thesis by simp
  qed (use r in simp)
qed (use assms in \<open>simp add: json_key_def\<close>)

lemma json_key_shorter: "json_key s = Inr (k, r) \<Longrightarrow> length r + 2 \<le> length s"
proof (erule json_key_inv)
  fix qs u cs
  assume "s = CHR ''\"'' # qs" "json_scan_string qs = Inr (k, u)"
    "skip_ws u = CHR '':'' # cs" "r = skip_ws cs"
  then show ?thesis
    using scan_string_shorter [of qs k u] skip_ws_length [of u] skip_ws_length [of cs] by simp
qed

lemma json_open_errors: "json_open close s = Inl e \<Longrightarrow> e = JSONDecodeError"
  by (auto simp: json_open_def split: list.splits if_splits)

lemma json_next_errors: "json_next close s = Inl e \<Longrightarrow> e = JSONDecodeError"
  by (auto simp: json_next_def split: list.splits if_splits)

lemma json_key_errors: "json_key s = Inl e \<Longrightarrow> e \<in> {JSONDecodeError, UnmodelledText}"
  by (cases s) (auto simp: json_key_def bindE_def dest: scan_string_errors
      split: list.split_asm if_split_asm sum.split_asm)

lemmas json_text_errors = json_open_errors json_next_errors json_key_errors scan_string_errors
  json_number_errors

text \<open>Every value that is read takes at least one character.\<close>

lemma json_shorter:
  "json_value n s = Inr (v, r) \<Longrightarrow> length r < length s"
  "json_elems n es s = Inr (v, r) \<Longrightarrow> length r < length s"
  "json_members n ms s = Inr (v, r) \<Longrightarrow> length r < length s"
proof (induction n arbitrary: s v r es ms)
  case (Suc n)
  {
    case 1
    then obtain c cs where s: "s = c # cs" by (cases s) simp_all
    from 1 [unfolded s] show ?case
      using Suc.IH(2,3) [of "[]" _ v r] json_number_shorter [of s v r] json_word_shorter [of s v r]
      by (fastforce simp: s bindE_eq_Inr split: if_splits option.splits
          dest: scan_string_shorter json_open_shorter)
  next
    case 2
    then obtain x u more w where "json_value n s = Inr (x, u)" "json_next CHR '']'' u = Inr (more, w)"
      "w = r \<or> json_elems n (es @ [x]) w = Inr (v, r)"
      by (auto simp: bindE_eq_Inr split: if_splits)
    then show ?case
      using Suc.IH(1) [of s x u] Suc.IH(2) [of "es @ [x]" w v r] json_next_shorter [of "CHR '']''" u more w]
      by auto
  next
    case 3
    then obtain k q x u more w where "json_key s = Inr (k, q)" "json_value n q = Inr (x, u)"
      "json_next CHR ''}'' u = Inr (more, w)"
      "w = r \<or> json_members n (AList.update k x ms) w = Inr (v, r)"
      by (auto simp: bindE_eq_Inr split: if_splits)
    then show ?case
      using json_key_shorter [of s k q] Suc.IH(1) [of q x u] Suc.IH(3) [of "AList.update k x ms" w v r]
        json_next_shorter [of "CHR ''}''" u more w] by auto
  }
qed simp_all

text \<open>With two steps for each character the bound is never reached.\<close>

lemma json_steps_enough:
  "2 * length s + 1 \<le> n \<Longrightarrow> json_value n s \<noteq> Inl RuntimeError"
  "2 * length s + 2 \<le> n \<Longrightarrow> json_elems n es s \<noteq> Inl RuntimeError"
  "2 * length s + 2 \<le> n \<Longrightarrow> json_members n ms s \<noteq> Inl RuntimeError"
proof (induction n arbitrary: s es ms)
  case (Suc n)
  {
    case 1
    show ?case
    proof (cases s)
      case (Cons c cs)
      have "json_members n [] r \<noteq> Inl RuntimeError" "json_elems n [] r \<noteq> Inl RuntimeError"
        if "json_open close cs = Inr (b, r)" for close b r
        using Suc.IH(2,3) [of r "[]"] json_open_shorter [OF that] 1 Cons by simp_all
      with Cons show ?thesis
        by (auto simp: bindE_eq_Inl split: option.splits dest!: json_text_errors)
    qed simp
  next
    case 2
    have "json_value n s \<noteq> Inl RuntimeError" using Suc.IH(1) [of s] 2 by simp
    moreover have "json_elems n (es @ [x]) w \<noteq> Inl RuntimeError"
      if "json_value n s = Inr (x, u)" "json_next CHR '']'' u = Inr (more, w)" for x u more w
      using Suc.IH(2) [of w] json_shorter(1) [OF that(1)] json_next_shorter [OF that(2)] 2 by simp
    ultimately show ?case by (auto simp: bindE_eq_Inl dest!: json_text_errors)
  next
    case 3
    have "json_value n q \<noteq> Inl RuntimeError" if "json_key s = Inr (k, q)" for k q
      using Suc.IH(1) [of q] json_key_shorter [OF that] 3 by simp
    moreover have "json_members n (AList.update k x ms) w \<noteq> Inl RuntimeError"
      if "json_key s = Inr (k, q)" "json_value n q = Inr (x, u)"
        "json_next CHR ''}'' u = Inr (more, w)" for k q x u more w
      using Suc.IH(3) [of w] json_key_shorter [OF that(1)] json_shorter(1) [OF that(2)]
        json_next_shorter [OF that(3)] 3 by simp
    ultimately show ?case by (auto simp: bindE_eq_Inl dest!: json_text_errors)
  }
qed simp_all

text \<open>More steps give the same answer: \<open>agrees m m'\<close> when \<open>m\<close> did not run out of steps.\<close>

definition agrees :: "'a res \<Rightarrow> 'a res \<Rightarrow> bool" where
  "agrees m m' \<longleftrightarrow> m \<noteq> Inl RuntimeError \<longrightarrow> m' = m"

lemma agrees_refl [simp]: "agrees m m" "agrees (Inl RuntimeError) m"
  by (simp_all add: agrees_def)

lemma agrees_bind [intro]:
  "agrees m m' \<Longrightarrow> (\<And>y. m = Inr y \<Longrightarrow> agrees (f y) (f' y)) \<Longrightarrow> agrees (bindE m f) (bindE m' f')"
  by (cases m) (auto simp: agrees_def)

lemma agrees_if [intro]:
  "(c \<Longrightarrow> agrees m m') \<Longrightarrow> (\<not> c \<Longrightarrow> agrees u u') \<Longrightarrow> agrees (if c then m else u) (if c then m' else u')"
  by simp

lemma agrees_pair [intro]:
  "(\<And>x y. p = (x, y) \<Longrightarrow> agrees (f x y) (f' x y)) \<Longrightarrow>
   agrees (case p of (x, y) \<Rightarrow> f x y) (case p of (x, y) \<Rightarrow> f' x y)"
  by (cases p) simp

lemma json_one_more_step:
  "agrees (json_value n s) (json_value (Suc n) s)"
  "agrees (json_elems n es s) (json_elems (Suc n) es s)"
  "agrees (json_members n ms s) (json_members (Suc n) ms s)"
proof (induction n arbitrary: s es ms)
  case (Suc n)
  {
    case 1
    show ?case
    proof (cases s)
      case (Cons c cs)
      show ?thesis
        unfolding Cons json_value.simps(2) list.case
        by (intro agrees_bind agrees_if agrees_pair agrees_refl Suc.IH)
    qed simp
  next
    case 2
    show ?case
      unfolding json_elems.simps(2) [of "Suc n" es s] json_elems.simps(2) [of n es s]
      by (intro agrees_bind agrees_if agrees_pair agrees_refl Suc.IH)
  next
    case 3
    show ?case
      unfolding json_members.simps(2) [of "Suc n" ms s] json_members.simps(2) [of n ms s]
      by (intro agrees_bind agrees_if agrees_pair agrees_refl Suc.IH)
  }
qed simp_all

lemma agrees_more:
  fixes f :: "nat \<Rightarrow> 'a res"
  assumes "\<And>n. agrees (f n) (f (Suc n))" "f n \<noteq> Inl RuntimeError" "n \<le> m"
  shows "f m = f n"
  using assms(3)
proof (induction m rule: dec_induct)
  case (step m)
  then show ?case using assms(1) [of m] assms(2) by (simp add: agrees_def)
qed simp

lemmas json_more_steps =
  agrees_more [where f = "\<lambda>n. json_value n s" for s, OF json_one_more_step(1)]
  agrees_more [where f = "\<lambda>n. json_elems n es s" for es s, OF json_one_more_step(2)]
  agrees_more [where f = "\<lambda>n. json_members n ms s" for ms s, OF json_one_more_step(3)]

lemma json_loads_steps:
  assumes "json_value n (skip_ws s) = Inr (v, r)" "skip_ws r = []"
  shows "json_loads s = Inr v"
proof -
  let ?N = "2 * length s + 1"
  have "json_value ?N (skip_ws s) \<noteq> Inl RuntimeError"
    by (rule json_steps_enough) (simp add: skip_ws_length)
  then have "json_value ?N (skip_ws s) = json_value (max n ?N) (skip_ws s)"
    using json_more_steps(1) [of ?N _ "max n ?N"] by simp
  also have "\<dots> = Inr (v, r)" using json_more_steps(1) [of n _ "max n ?N"] assms(1) by simp
  finally show ?thesis using assms(2) by (simp add: json_loads_def)
qed

section \<open>Dumping with any layout\<close>

text \<open>
  \<open>json.dumps\<close> with its parameters \<open>ensure_ascii\<close> and \<open>indent\<close>: \<open>nl l\<close> is the text that
  starts a line at depth \<open>l\<close>, \<open>sep\<close> follows a comma.  Without \<open>indent\<close> there are no lines
  and a blank follows the comma; with \<open>indent=2\<close> every item starts a line.
\<close>

fun json_layout :: "bool \<Rightarrow> (nat \<Rightarrow> string) \<Rightarrow> string \<Rightarrow> nat \<Rightarrow> pyval \<Rightarrow> string" where
  "json_layout ascii nl sep l PNone = ''null''"
| "json_layout ascii nl sep l (PBool b) = (if b then ''true'' else ''false'')"
| "json_layout ascii nl sep l (PInt n) = show_int n"
| "json_layout ascii nl sep l (PFloat f) = json_float f"
| "json_layout ascii nl sep l (PStr s) = json_string ascii s"
| "json_layout ascii nl sep l (PList xs) =
     (if xs = [] then ''[]''
      else ''['' @ nl (Suc l) @
        join (CHR '','' # sep @ nl (Suc l)) (map (json_layout ascii nl sep (Suc l)) xs) @
        nl l @ '']'')"
| "json_layout ascii nl sep l (PDict kvs) =
     (if kvs = [] then ''{}''
      else ''{'' @ nl (Suc l) @
        join (CHR '','' # sep @ nl (Suc l))
          (map (\<lambda>(k, v). json_string ascii k @ '': '' @ json_layout ascii nl sep (Suc l) v) kvs) @
        nl l @ ''}'')"

definition no_lines :: "nat \<Rightarrow> string" where
  "no_lines l = []"

definition indent_lines :: "nat \<Rightarrow> string" where
  "indent_lines l = char_of (10::nat) # replicate (2 * l) CHR '' ''"

text \<open>\<open>json.dumps(v, indent=2, ensure_ascii=False)\<close>.\<close>

definition json_dumps_indent :: "pyval \<Rightarrow> string" where
  "json_dumps_indent v = json_layout False indent_lines [] 0 v"

lemma json_encode_plain: "json_encode ascii v = json_layout ascii (\<lambda>l. []) '' '' l v"
proof (induction v arbitrary: l)
  case (PList xs)
  then show ?case by (simp cong: map_cong)
next
  case (PDict kvs)
  then have "map (\<lambda>(k, v). json_string ascii k @ '': '' @ json_encode ascii v) kvs
      = map (\<lambda>(k, v). json_string ascii k @ '': '' @ json_layout ascii (\<lambda>l. []) '' '' (Suc l) v) kvs"
    by (fastforce simp: snds.simps)
  then have "join '', '' (map (\<lambda>(k, v). json_string ascii k @ '': '' @ json_encode ascii v) kvs)
      = join '', '' (map (\<lambda>(k, v). json_string ascii k @ '': '' @ json_layout ascii (\<lambda>l. []) '' '' (Suc l) v) kvs)"
    by (rule arg_cong)
  then show ?case by (cases "kvs = []") simp_all
qed simp_all

lemma json_encode_layout: "json_encode ascii v = json_layout ascii no_lines '' '' l v"
  unfolding no_lines_def [abs_def] by (rule json_encode_plain)

section \<open>Loading a dumped value\<close>

subsection \<open>Strings\<close>

lemma hex4_byte: "hex4 CHR ''0'' CHR ''0'' (hex_digit (code c div 16)) (hex_digit (code c mod 16)) = Some (code c)"
  by (simp add: hex4_def hex_val_digit) (simp add: hex_val_def)

lemma code_bound: "\<not> 255 < code c"
proof -
  have "code c < 256" by simp
  then show ?thesis by linarith
qed

lemma json_scan_escape:
  "json_scan_string (json_escape ascii c @ u) = bindE (json_scan_string u) (\<lambda>(t, r). Inr (c # t, r))"
proof -
  have simple: "json_scan_string (backslash # e # u) = bindE (json_scan_string u) (\<lambda>(t, r). Inr (c # t, r))"
    if "json_simple_escape e = Some c" for e
    using that by (simp add: json_escape_char_def backslash_def)
  have hex: "json_scan_string (backslash # ''u00'' @ hex_byte c @ u)
      = bindE (json_scan_string u) (\<lambda>(t, r). Inr (c # t, r))"
    using code_bound [of c]
    by (simp add: json_escape_char_def backslash_def json_simple_escape_def hex_byte_def hex4_byte)
  show ?thesis
    using simple hex
    by (auto simp: json_escape_def json_simple_escape_def backslash_def char_of_code)
qed

lemma json_scan_contents:
  "json_scan_string (concat (map (json_escape ascii) s) @ CHR ''\"'' # r) = Inr (s, r)"
  by (induction s) (simp_all add: json_scan_escape)

subsection \<open>Numbers\<close>

lemma show_nat_hd: "n \<noteq> 0 \<Longrightarrow> hd (show_nat n) \<noteq> CHR ''0''"
proof (induction n rule: show_nat.induct)
  case (1 n)
  show ?case
  proof (cases "n < 10")
    case True
    then have "digit_val (digit_char n) = n" by simp
    with 1 True show ?thesis by (auto simp: show_nat.simps [of n] digit_val_def)
  next
    case False
    with 1 show ?thesis by (simp add: show_nat.simps [of n])
  qed
qed

lemma json_int_part_show:
  assumes "r = [] \<or> \<not> is_digit (hd r)"
  shows "json_int_part (show_nat n @ r) = Some (show_nat n, r)"
proof (cases "n = 0")
  case True
  have "digit_char 0 = CHR ''0''" by code_simp
  with True show ?thesis by (simp add: json_int_part_def show_nat.simps [of 0])
next
  case False
  obtain c cs where c: "show_nat n = c # cs" by (cases "show_nat n") simp_all
  have d: "list_all is_digit (c # cs)" using show_nat_digits [of n] c by simp
  have "takeWhile is_digit r = []" "dropWhile is_digit r = r" using assms by (cases r; simp)+
  then have "takeWhile is_digit ((c # cs) @ r) = c # cs" "dropWhile is_digit ((c # cs) @ r) = r"
    unfolding takeWhile_all_append [OF d] dropWhile_all_append [OF d] by simp_all
  then show ?thesis using show_nat_hd [OF False] d by (simp add: c json_int_part_def)
qed

text \<open>The texts that may follow a number.\<close>

definition json_stop :: "string \<Rightarrow> bool" where
  "json_stop r = (r = [] \<or> \<not> is_digit (hd r) \<and> hd r \<notin> {CHR ''.'', CHR ''e'', CHR ''E''})"

lemma json_stop_parts:
  assumes "json_stop r"
  shows "json_frac_part r = ([], r)" "json_exp_part r = (None, r)"
  using assms by (auto simp: json_stop_def json_frac_part_def json_exp_part_def split: list.splits)

lemma digit_not_minus: "is_digit c \<Longrightarrow> c \<noteq> CHR ''-''"
  by (auto simp: is_digit_def)

lemma json_number_show:
  assumes "length (show_nat (nat \<bar>n\<bar>)) \<le> 4300" "json_stop r"
  shows "json_number (show_int n @ r) = Inr (PInt n, r)"
proof -
  have p: "json_int_part (show_nat k @ r) = Some (show_nat k, r)" for k
    using assms(2) by (intro json_int_part_show) (auto simp: json_stop_def)
  have "hd (show_nat k @ r) \<noteq> CHR ''-''" for k
    using show_nat_digits [of k] by (cases "show_nat k") (auto dest: digit_not_minus)
  with p assms show ?thesis
    by (cases "n < 0") (simp_all add: json_number_def show_int_def json_stop_parts)
qed

lemma json_word_digit:
  assumes "is_digit c"
  shows "json_word (c # cs) = None" "json_word (CHR ''-'' # c # cs) = None"
proof -
  have "c \<noteq> CHR ''n''" "c \<noteq> CHR ''t''" "c \<noteq> CHR ''f''" "c \<noteq> CHR ''N''" "c \<noteq> CHR ''I''" "c \<noteq> CHR ''-''"
    using assms by (auto simp: is_digit_def)
  then show "json_word (c # cs) = None" "json_word (CHR ''-'' # c # cs) = None"
    by (simp_all add: json_word_def json_words_def)
qed

subsection \<open>Values\<close>

text \<open>
  The values a round trip preserves: ints that Python prints, no finite floats, and distinct
  keys, which every dict has.
\<close>

fun json_plain :: "pyval \<Rightarrow> bool" where
  "json_plain (PInt n) = (length (show_nat (nat \<bar>n\<bar>)) \<le> 4300)"
| "json_plain (PFloat f) = (f \<in> {NaN, PosInf, NegInf})"
| "json_plain (PList xs) = list_all json_plain xs"
| "json_plain (PDict kvs) = (distinct (map fst kvs) \<and> list_all (\<lambda>(k, v). json_plain v) kvs)"
| "json_plain v = True"

lemma skip_ws_append [simp]: "list_all json_space w \<Longrightarrow> skip_ws (w @ u) = skip_ws u"
  by (simp add: skip_ws_def dropWhile_all_append)

lemma skip_ws_Cons [simp]: "\<not> json_space c \<Longrightarrow> skip_ws (c # cs) = c # cs"
  by (simp add: skip_ws_def)

lemma json_space_chars [simp]:
  "\<not> json_space CHR '',''" "\<not> json_space CHR '':''" "\<not> json_space CHR '']''"
  "\<not> json_space CHR ''}''" "\<not> json_space CHR ''\"''" "json_space CHR '' ''"
  by (simp_all add: json_space_def)

lemma json_stop_chars [simp]: "json_stop (CHR '','' # r)" "json_stop (CHR '']'' # r)"
  "json_stop (CHR ''}'' # r)" "json_stop []"
  by (simp_all add: json_stop_def is_digit_def)

lemma json_stop_ws: "list_all json_space w \<Longrightarrow> json_stop u \<Longrightarrow> json_stop (w @ u)"
  by (cases w) (auto simp: json_stop_def json_space_def is_digit_def)

text \<open>A dumped value starts with a character that is neither blank nor a closing bracket.\<close>

lemma json_layout_start:
  assumes "json_plain v"
  shows "\<exists>c cs. json_layout ascii nl sep l v = c # cs \<and> \<not> json_space c \<and> c \<notin> {CHR '']'', CHR ''}''}"
proof (cases v)
  case (PInt n)
  obtain c cs where c: "show_nat (nat \<bar>n\<bar>) = c # cs" by (cases "show_nat (nat \<bar>n\<bar>)") simp_all
  with show_nat_digits [of "nat \<bar>n\<bar>"] have "is_digit c" by simp
  then have "\<not> json_space c \<and> c \<notin> {CHR '']'', CHR ''}''}" by (auto simp: json_space_def is_digit_def)
  with c PInt show ?thesis by (cases "n < 0") (simp_all add: show_int_def json_space_def)
next
  case (PFloat f)
  with assms show ?thesis by (auto simp: json_float_def json_space_def)
next
  case (PStr s)
  then show ?thesis by (simp add: json_string_def)
qed (simp_all add: json_space_def)

lemma json_value_string: "json_value (Suc n) (json_string ascii s @ r) = Inr (PStr s, r)"
  by (simp add: json_string_def json_scan_contents [simplified])

lemma json_key_string:
  "json_key (json_string ascii k @ '': '' @ u) = Inr (k, skip_ws u)"
  by (simp add: json_key_def json_string_def json_scan_contents [simplified]) (simp add: skip_ws_def)

lemma json_next_close:
  "list_all json_space w \<Longrightarrow> \<not> json_space close \<Longrightarrow> json_next close (w @ close # r) = Inr (False, r)"
  by (simp add: json_next_def)

lemma json_next_comma:
  "close \<noteq> CHR '','' \<Longrightarrow> json_next close (CHR '','' # u) = Inr (True, skip_ws u)"
  by (simp add: json_next_def)

text \<open>The elements of an array and the members of an object, given the values in them.\<close>

lemma json_elems_layout:
  assumes ws: "list_all json_space w" "list_all json_space nl"
    and val: "\<And>x u. x \<in> set xs \<Longrightarrow> json_stop u \<Longrightarrow> \<exists>n. json_value n (lay x @ u) = Inr (x, u)"
    and start: "\<And>x u. x \<in> set xs \<Longrightarrow> skip_ws (lay x @ u) = lay x @ u"
    and ne: "xs \<noteq> []"
  shows "\<exists>n. json_elems n acc (join (CHR '','' # w) (map lay xs) @ nl @ CHR '']'' # r)
    = Inr (PList (acc @ xs), r)"
  using val start ne
proof (induction xs arbitrary: acc)
  case (Cons x xs)
  show ?case
  proof (cases xs)
    case Nil
    obtain n where "json_value n (lay x @ nl @ CHR '']'' # r) = Inr (x, nl @ CHR '']'' # r)"
      using Cons.prems(1) [of x "nl @ CHR '']'' # r"] ws json_stop_ws by auto
    then have "json_elems (Suc n) acc (lay x @ nl @ CHR '']'' # r) = Inr (PList (acc @ [x]), r)"
      by (simp add: json_next_close [OF ws(2)])
    with Nil show ?thesis by (intro exI [of _ "Suc n"]) simp
  next
    case (Cons y ys)
    let ?J = "join (CHR '','' # w) (map lay xs)"
    let ?rest = "?J @ nl @ CHR '']'' # r"
    obtain m where m: "json_elems m (acc @ [x]) ?rest = Inr (PList ((acc @ [x]) @ xs), r)"
      using Cons.IH [of "acc @ [x]"] Cons.prems \<open>xs = y # ys\<close> by auto
    have "json_stop (CHR '','' # w @ ?rest)" by simp
    then obtain n where n: "json_value n (lay x @ CHR '','' # w @ ?rest) = Inr (x, CHR '','' # w @ ?rest)"
      using Cons.prems(1) [of x] by fastforce
    let ?k = "max n m"
    have "json_value ?k (lay x @ CHR '','' # w @ ?rest) = Inr (x, CHR '','' # w @ ?rest)"
      "json_elems ?k (acc @ [x]) ?rest = Inr (PList ((acc @ [x]) @ xs), r)"
      using json_more_steps(1) [of n _ ?k] json_more_steps(2) [of m _ _ ?k] n m by simp_all
    moreover have "skip_ws (w @ ?rest) = ?rest"
      using Cons.prems(2) [of y "drop (length (lay y)) ?rest"] ws(1) \<open>xs = y # ys\<close>
      by (cases ys) simp_all
    ultimately have "json_elems (Suc ?k) acc (lay x @ CHR '','' # w @ ?rest) = Inr (PList (acc @ x # xs), r)"
      by (simp add: json_next_comma)
    with Cons show ?thesis by (intro exI [of _ "Suc ?k"]) simp
  qed
qed simp

lemma json_members_layout:
  assumes ws: "list_all json_space w" "list_all json_space nl"
    and val: "\<And>k x u. (k, x) \<in> set kvs \<Longrightarrow> json_stop u \<Longrightarrow> \<exists>n. json_value n (lay x @ u) = Inr (x, u)"
    and start: "\<And>k x u. (k, x) \<in> set kvs \<Longrightarrow> skip_ws (lay x @ u) = lay x @ u"
    and ne: "kvs \<noteq> []" and dist: "distinct (map fst kvs)" "fst ` set kvs \<inter> fst ` set acc = {}"
  shows "\<exists>n. json_members n acc
      (join (CHR '','' # w) (map (\<lambda>(k, v). json_string ascii k @ '': '' @ lay v) kvs) @ nl @ CHR ''}'' # r)
    = Inr (PDict (acc @ kvs), r)"
  using val start ne dist
proof (induction kvs arbitrary: acc)
  case (Cons kx kvs)
  obtain k x where kx: "kx = (k, x)" by force
  let ?mem = "\<lambda>(k, v). json_string ascii k @ '': '' @ lay v"
  have up: "AList.update k x acc = acc @ [(k, x)]"
    using Cons.prems(5) kx by (intro update_new) auto
  have key: "json_key (json_string ascii k @ CHR '':'' # CHR '' '' # lay x @ u) = Inr (k, lay x @ u)" for u
    using json_key_string [of ascii k "lay x @ u"] Cons.prems(2) [of k x u] kx by simp
  show ?case
  proof (cases kvs)
    case Nil
    obtain n where "json_value n (lay x @ nl @ CHR ''}'' # r) = Inr (x, nl @ CHR ''}'' # r)"
      using Cons.prems(1) [of k x "nl @ CHR ''}'' # r"] ws json_stop_ws kx by auto
    then have "json_members (Suc n) acc (?mem (k, x) @ nl @ CHR ''}'' # r) = Inr (PDict (acc @ [(k, x)]), r)"
      by (simp add: json_next_close [OF ws(2)] key up)
    with Nil kx show ?thesis by (intro exI [of _ "Suc n"]) simp
  next
    case (Cons y ys)
    let ?rest = "join (CHR '','' # w) (map ?mem kvs) @ nl @ CHR ''}'' # r"
    have "\<exists>m. json_members m (acc @ [(k, x)]) ?rest = Inr (PDict ((acc @ [(k, x)]) @ kvs), r)"
    proof (rule Cons.IH)
      show "(k', x') \<in> set kvs \<Longrightarrow> json_stop u \<Longrightarrow> \<exists>n. json_value n (lay x' @ u) = Inr (x', u)" for k' x' u
        using Cons.prems(1) by (meson list.set_intros(2))
      show "(k', x') \<in> set kvs \<Longrightarrow> skip_ws (lay x' @ u) = lay x' @ u" for k' x' u
        using Cons.prems(2) by (meson list.set_intros(2))
    qed (use Cons.prems(4,5) kx \<open>kvs = y # ys\<close> in auto)
    then obtain m where m: "json_members m (acc @ [(k, x)]) ?rest = Inr (PDict ((acc @ [(k, x)]) @ kvs), r)"
      by blast
    have "json_stop (CHR '','' # w @ ?rest)" by simp
    then obtain n where n: "json_value n (lay x @ CHR '','' # w @ ?rest) = Inr (x, CHR '','' # w @ ?rest)"
      using Cons.prems(1) [of k x] kx by fastforce
    let ?k = "max n m"
    have "json_value ?k (lay x @ CHR '','' # w @ ?rest) = Inr (x, CHR '','' # w @ ?rest)"
      "json_members ?k (acc @ [(k, x)]) ?rest = Inr (PDict ((acc @ [(k, x)]) @ kvs), r)"
      using json_more_steps(1) [of n _ ?k] json_more_steps(3) [of m _ _ ?k] n m by simp_all
    moreover have "skip_ws (w @ ?rest) = ?rest"
      using ws(1) \<open>kvs = y # ys\<close> by (cases ys) (auto simp: json_string_def split: prod.splits)
    ultimately have "json_members (Suc ?k) acc (?mem (k, x) @ CHR '','' # w @ ?rest)
        = Inr (PDict (acc @ (k, x) # kvs), r)"
      by (simp add: json_next_comma key up)
    with Cons kx show ?thesis by (intro exI [of _ "Suc ?k"]) simp
  qed
qed simp

lemma json_value_layout:
  assumes ws: "\<And>l. list_all json_space (nl l)" "list_all json_space sep"
    and "json_plain v" "json_stop r"
  shows "\<exists>n. json_value n (json_layout ascii nl sep l v @ r) = Inr (v, r)"
  using assms(3,4)
proof (induction v arbitrary: l r)
  case (PInt n)
  obtain c cs where c: "show_nat (nat \<bar>n\<bar>) = c # cs" by (cases "show_nat (nat \<bar>n\<bar>)") simp_all
  with show_nat_digits [of "nat \<bar>n\<bar>"] have d: "is_digit c" by simp
  then have ne: "c \<noteq> CHR ''\"''" "c \<noteq> CHR ''{''" "c \<noteq> CHR ''[''" by (auto simp: is_digit_def)
  have num: "json_number (show_int n @ r) = Inr (PInt n, r)"
    using PInt by (intro json_number_show) simp_all
  have "json_value (Suc 0) (show_int n @ r) = Inr (PInt n, r)"
  proof (cases "n < 0")
    case True
    with c have s: "show_int n = CHR ''-'' # c # cs" by (simp add: show_int_def)
    with num d show ?thesis by (simp add: json_word_digit)
  next
    case False
    with c have s: "show_int n = c # cs" by (simp add: show_int_def)
    with num d ne show ?thesis by (simp add: json_word_digit)
  qed
  then show ?case by (intro exI [of _ "Suc 0"]) simp
next
  case (PStr s)
  show ?case unfolding json_layout.simps by (rule exI, rule json_value_string)
next
  case (PList xs)
  show ?case
  proof (cases "xs = []")
    case True
    then show ?thesis by (intro exI [of _ "Suc 0"]) (simp add: json_open_def)
  next
    case False
    let ?lay = "json_layout ascii nl sep (Suc l)"
    let ?rest = "join (CHR '','' # sep @ nl (Suc l)) (map ?lay xs) @ nl l @ CHR '']'' # r"
    have plain: "x \<in> set xs \<Longrightarrow> json_plain x" for x using PList.prems(1) by (simp add: list_all_iff)
    have start: "x \<in> set xs \<Longrightarrow> skip_ws (?lay x @ u) = ?lay x @ u" for x u
      using json_layout_start [OF plain, of x ascii nl sep "Suc l"] by auto
    have "\<exists>n. json_elems n [] ?rest = Inr (PList ([] @ xs), r)"
      by (rule json_elems_layout) (use PList.IH plain start False ws in auto)
    then obtain n where n: "json_elems n [] ?rest = Inr (PList xs, r)" by auto
    obtain c cs where "?rest = c # cs" "\<not> json_space c" "c \<noteq> CHR '']''"
      using False json_layout_start [OF plain, of "hd xs" ascii nl sep "Suc l"]
      by (cases xs; cases "tl xs") auto
    then have "json_open CHR '']'' (nl (Suc l) @ ?rest) = Inr (False, ?rest)"
      using ws(1) [of "Suc l"] by (simp add: json_open_def)
    with n False show ?thesis by (intro exI [of _ "Suc n"]) simp
  qed
next
  case (PDict kvs)
  show ?case
  proof (cases "kvs = []")
    case True
    then show ?thesis by (intro exI [of _ "Suc 0"]) (simp add: json_open_def)
  next
    case False
    let ?lay = "json_layout ascii nl sep (Suc l)"
    let ?rest = "join (CHR '','' # sep @ nl (Suc l))
      (map (\<lambda>(k, v). json_string ascii k @ '': '' @ ?lay v) kvs) @ nl l @ CHR ''}'' # r"
    have plain: "(k, x) \<in> set kvs \<Longrightarrow> json_plain x" for k x
      using PDict.prems(1) by (auto simp: list_all_iff)
    have start: "(k, x) \<in> set kvs \<Longrightarrow> skip_ws (?lay x @ u) = ?lay x @ u" for k x u
      using json_layout_start [OF plain, of k x ascii nl sep "Suc l"] by auto
    have "\<exists>n. json_members n [] ?rest = Inr (PDict ([] @ kvs), r)"
      by (rule json_members_layout)
        (use PDict.IH PDict.prems(1) plain start False ws in \<open>auto simp: snds.simps\<close>)
    then obtain n where n: "json_members n [] ?rest = Inr (PDict kvs, r)" by auto
    obtain cs where "?rest = CHR ''\"'' # cs"
      using False by (cases kvs; cases "tl kvs") (auto simp: json_string_def split: prod.splits)
    then have "json_open CHR ''}'' (nl (Suc l) @ ?rest) = Inr (False, ?rest)"
      using ws(1) [of "Suc l"] by (simp add: json_open_def)
    with n False show ?thesis by (intro exI [of _ "Suc n"]) simp
  qed
qed (auto intro!: exI [of _ "Suc 0"] simp: json_word_def json_words_def json_float_def)

lemma json_loads_layout:
  assumes "\<And>l. list_all json_space (nl l)" "list_all json_space sep" "json_plain v"
  shows "json_loads (json_layout ascii nl sep l v) = Inr v"
proof -
  obtain n where "json_value n (json_layout ascii nl sep l v) = Inr (v, [])"
    using json_value_layout [where nl = nl, OF assms, of "[]" ascii l] by auto
  moreover have "skip_ws (json_layout ascii nl sep l v) = json_layout ascii nl sep l v"
    using json_layout_start [OF assms(3)] by (metis skip_ws_Cons)
  ultimately show ?thesis by (intro json_loads_steps [of n]) (auto simp: skip_ws_def)
qed

lemma json_loads_dumps: "json_plain v \<Longrightarrow> json_loads (json_encode ascii v) = Inr v"
  unfolding json_encode_layout [of _ _ 0]
  by (rule json_loads_layout) (simp_all add: no_lines_def)

lemma json_loads_indent: "json_plain v \<Longrightarrow> json_loads (json_dumps_indent v) = Inr v"
  unfolding json_dumps_indent_def
  by (rule json_loads_layout) (auto simp: indent_lines_def json_space_def list_all_iff)

end
