(* ===== verification/Messages.thy ===== *)
theory Messages
  imports Py_Json
begin

text \<open>
  \<open>network/messages.py\<close>: the message types and their text form.  A payload is a dict; the type
  travels in the item \<open>type\<close>.  Decoding an encoded message gives type and payload back, the
  keys of every dict sorted.
\<close>

datatype message_type = HELLO | PEERS | GET_CHAIN | CHAIN_RESPONSE | NEW_BLOCK | PING | PONG

fun type_name :: "message_type \<Rightarrow> string" where
  "type_name HELLO = ''HELLO''"
| "type_name PEERS = ''PEERS''"
| "type_name GET_CHAIN = ''GET_CHAIN''"
| "type_name CHAIN_RESPONSE = ''CHAIN_RESPONSE''"
| "type_name NEW_BLOCK = ''NEW_BLOCK''"
| "type_name PING = ''PING''"
| "type_name PONG = ''PONG''"

definition message_types :: "message_type list" where
  "message_types = [HELLO, PEERS, GET_CHAIN, CHAIN_RESPONSE, NEW_BLOCK, PING, PONG]"

text \<open>\<open>MessageType(v)\<close>: the member whose value equals \<open>v\<close>.\<close>

definition message_type_of :: "pyval \<Rightarrow> message_type res" where
  "message_type_of v =
     (case filter (\<lambda>t. py_eq v (PStr (type_name t))) message_types of
        [] \<Rightarrow> Inl ValueError
      | t # _ \<Rightarrow> Inr t)"

definition encode_message :: "message_type \<Rightarrow> pydict \<Rightarrow> string" where
  "encode_message t payload =
     json_dumps_sorted (PDict (AList.update ''type'' (PStr (type_name t)) payload))"

definition decode_message :: "string \<Rightarrow> (message_type \<times> pydict) res" where
  "decode_message raw =
     (case json_loads raw of
        Inl e \<Rightarrow> Inl (if e = JSONDecodeError then MessageDecodeError else e)
      | Inr data \<Rightarrow>
          (case data of
             PDict items \<Rightarrow>
               (case map_of items ''type'' of
                  None \<Rightarrow> Inl MessageDecodeError
                | Some v \<Rightarrow>
                    (case message_type_of v of
                       Inl _ \<Rightarrow> Inl MessageDecodeError
                     | Inr t \<Rightarrow> Inr (t, filter (\<lambda>(k, _). k \<noteq> ''type'') items)))
           | _ \<Rightarrow> Inl MessageDecodeError))"

section \<open>Facts\<close>

lemma py_eq_texts [simp]: "py_eq (PStr a) (PStr b) \<longleftrightarrow> a = b"
  by auto

lemma message_type_of_name [simp]: "message_type_of (PStr (type_name t)) = Inr t"
  by (cases t) (simp_all add: message_type_of_def message_types_def)

lemma type_name_inject: "type_name s = type_name t \<longleftrightarrow> s = t"
  by (metis message_type_of_name sum.inject(2))

text \<open>Sorting the keys changes the order of the items only.\<close>

lemma distinct_sort_key: "distinct (map fst kvs) \<Longrightarrow> distinct (map fst (sort_key fst kvs))"
  by (simp add: distinct_map)

lemma map_of_sort_key:
  assumes "distinct (map fst kvs)"
  shows "map_of (sort_key fst kvs) = map_of kvs"
proof (rule map_of_eqI)
  show "set (map fst (sort_key fst kvs)) = set (map fst kvs)" by simp
  show "\<forall>k \<in> set (map fst (sort_key fst kvs)). map_of (sort_key fst kvs) k = map_of kvs k"
  proof
    fix k assume "k \<in> set (map fst (sort_key fst kvs))"
    then obtain v where v: "(k, v) \<in> set kvs" by auto
    have "distinct (map fst (sort_key fst kvs))"
      using assms by (rule distinct_sort_key)
    with v assms show "map_of (sort_key fst kvs) k = map_of kvs k"
      by (simp add: map_of_is_SomeI)
  qed
qed

definition sorted_payload :: "pydict \<Rightarrow> pydict" where
  "sorted_payload kvs = sort_key fst (map (\<lambda>(k, v). (k, sort_keys v)) kvs)"

lemma sort_keys_PDict: "sort_keys (PDict kvs) = PDict (sorted_payload kvs)"
  by (simp add: sorted_payload_def)

lemma map_fst_sorted_values: "map fst (map (\<lambda>(k, v). (k, sort_keys v)) kvs) = map fst kvs"
  by (induction kvs) auto

lemma map_of_sorted_payload:
  assumes "distinct (map fst kvs)"
  shows "map_of (sorted_payload kvs) k = map_option sort_keys (map_of kvs k)"
proof -
  have "map_of (sorted_payload kvs) = map_of (map (\<lambda>(k, v). (k, sort_keys v)) kvs)"
    unfolding sorted_payload_def
    by (rule map_of_sort_key) (simp only: map_fst_sorted_values assms)
  then show ?thesis by (simp add: map_of_map)
qed

lemma json_plain_sort_keys: "json_plain v \<Longrightarrow> json_plain (sort_keys v)"
proof (induction v)
  case (PDict kvs)
  then have "distinct (map fst kvs)" "\<And>k v. (k, v) \<in> set kvs \<Longrightarrow> json_plain (sort_keys v)"
    by (auto simp: list_all_iff snds.simps)
  moreover have "distinct (map fst (sorted_payload kvs))"
    unfolding sorted_payload_def
    by (rule distinct_sort_key) (simp only: map_fst_sorted_values calculation)
  ultimately show ?case
    unfolding sort_keys_PDict by (auto simp: list_all_iff sorted_payload_def)
qed (simp_all add: list_all_iff)

lemma decode_encode_message:
  assumes "json_plain (PDict payload)" "''type'' \<notin> fst ` set payload"
  shows "decode_message (encode_message t payload) = Inr (t, sorted_payload payload)"
proof -
  let ?v = "PStr (type_name t)"
  let ?items = "payload @ [(''type'', ?v)]"
  have dist: "distinct (map fst ?items)" using assms by auto
  have plain: "json_plain (PDict ?items)" using assms by auto
  have "encode_message t payload = json_encode True (sort_keys (PDict ?items))"
    by (simp add: encode_message_def json_dumps_sorted_def update_new [OF assms(2)])
  then have load: "json_loads (encode_message t payload) = Inr (PDict (sorted_payload ?items))"
    using json_loads_dumps [OF json_plain_sort_keys [OF plain]] by (simp only: sort_keys_PDict)
  have item: "map_of (sorted_payload ?items) ''type'' = Some ?v"
    using map_of_sorted_payload [OF dist, of "''type''"] assms(2)
    by (simp add: map_add_def map_of_eq_None_iff [THEN iffD2] split: option.splits)
  have "filter (\<lambda>(k, _). k \<noteq> ''type'') (sorted_payload ?items)
      = sort_key fst (filter (\<lambda>(k, _). k \<noteq> ''type'') (map (\<lambda>(k, v). (k, sort_keys v)) ?items))"
    by (simp add: sorted_payload_def filter_sort)
  also have "filter (\<lambda>(k, _). k \<noteq> ''type'') (map (\<lambda>(k, v). (k, sort_keys v)) ?items)
      = map (\<lambda>(k, v). (k, sort_keys v)) payload"
    using assms(2) by (force simp: filter_id_conv)
  finally have rest: "filter (\<lambda>(k, _). k \<noteq> ''type'') (sorted_payload ?items) = sorted_payload payload"
    by (simp add: sorted_payload_def)
  show ?thesis by (simp add: decode_message_def load item rest)
qed



end
