(* ===== verification/Float_Order.thy ===== *)
theory Float_Order
  imports Py_Float
begin

text \<open>
  Rounding to the nearest double is monotone, so the differences of a fixed float from
  increasing times are increasing.  The comparison of floats other than NaN is the order of
  their values with the infinities at the ends (\<open>float_lt_rank\<close>).
\<close>

section \<open>Rounding is monotone\<close>

lemma round_half_even_mono: "x \<le> y \<Longrightarrow> round_half_even x \<le> round_half_even y"
proof -
  assume le: "x \<le> y"
  then have fl: "\<lfloor>x\<rfloor> \<le> \<lfloor>y\<rfloor>" by (rule floor_mono)
  have up: "round_half_even z \<le> \<lfloor>z\<rfloor> + 1" "\<lfloor>z\<rfloor> \<le> round_half_even z" for z
    by (auto simp: round_half_even_def Let_def)
  show ?thesis
  proof (cases "\<lfloor>x\<rfloor> = \<lfloor>y\<rfloor>")
    case True
    with le show ?thesis by (auto simp: round_half_even_def Let_def)
  next
    case False
    with fl up [of x] up [of y] show ?thesis by linarith
  qed
qed

lemma pow2_mono: "a \<le> b \<Longrightarrow> pow2 a \<le> pow2 b"
proof -
  assume ab: "a \<le> b"
  show ?thesis
  proof (cases "0 \<le> a")
    case True
    then have "nat a \<le> nat b" using ab by simp
    with True ab show ?thesis by (simp add: pow2_def power_increasing)
  next
    case False
    show ?thesis
    proof (cases "0 \<le> b")
      case True
      have "1 \<le> (2::rat) ^ nat b" "1 \<le> (2::rat) ^ nat (- a)" by (rule one_le_power, simp)+
      then have "1 / (2::rat) ^ nat (- a) \<le> 2 ^ nat b"
        by (meson divide_le_eq_1 dual_order.trans less_le_trans zero_less_one)
      with False True show ?thesis by (simp add: pow2_def)
    next
      case b: False
      have "(2::rat) ^ nat (- b) \<le> 2 ^ nat (- a)" using ab by (intro power_increasing) simp_all
      with False b show ?thesis by (simp add: pow2_def frac_le)
    qed
  qed
qed

lemma pow2_add_nat: "0 \<le> k \<Longrightarrow> pow2 (e + k) = 2 ^ nat k * pow2 e"
proof -
  assume k: "0 \<le> k"
  consider "0 \<le> e" | "e < 0" "0 \<le> e + k" | "e < 0" "e + k < 0" by linarith
  then show ?thesis
  proof cases
    case 1
    with k show ?thesis by (simp add: pow2_def nat_add_distrib power_add)
  next
    case 2
    then have "nat k = nat (e + k) + nat (- e)" by linarith
    then have "(2::rat) ^ nat k = 2 ^ nat (e + k) * 2 ^ nat (- e)" by (simp only: power_add)
    with 2 show ?thesis by (simp add: pow2_def)
  next
    case 3
    with k have "nat (- e) = nat k + nat (- (e + k))" by linarith
    then have "(2::rat) ^ nat (- e) = 2 ^ nat k * 2 ^ nat (- (e + k))" by (simp only: power_add)
    with 3 show ?thesis by (simp add: pow2_def)
  qed
qed

lemma rat_log2_mono: "0 < x \<Longrightarrow> x \<le> y \<Longrightarrow> rat_log2 x \<le> rat_log2 y"
proof (rule ccontr)
  assume x: "0 < x" and xy: "x \<le> y" and "\<not> rat_log2 x \<le> rat_log2 y"
  then have "rat_log2 y + 1 \<le> rat_log2 x" by simp
  then have "pow2 (rat_log2 y + 1) \<le> pow2 (rat_log2 x)" by (rule pow2_mono)
  with rat_log2_bounds(1) [OF x] rat_log2_bounds(2) [of y] x xy show False by linarith
qed

lemma round_pos_mono:
  assumes "0 < x" "x \<le> y"
  shows "round_pos x \<le> round_pos y"
proof (cases "ulp_exp x = ulp_exp y")
  case True
  have "x / pow2 (ulp_exp y) \<le> y / pow2 (ulp_exp y)" using assms(2) by (simp add: divide_right_mono)
  then have "round_half_even (x / pow2 (ulp_exp y)) \<le> round_half_even (y / pow2 (ulp_exp y))"
    by (rule round_half_even_mono)
  then show ?thesis unfolding round_pos_def True by (simp add: mult_right_mono)
next
  case False
  let ?e = "ulp_exp y" let ?d = "ulp_exp x"
  from assms False have lt: "?d < ?e" using rat_log2_mono [of x y]
    by (auto simp: ulp_exp_def max_def split: if_splits)
  then have e: "rat_log2 y = ?e + 52" by (simp add: ulp_exp_def max_def split: if_splits)
  have p: "pow2 (?e + 52) = of_int (2 ^ 52) * pow2 ?e" by (simp add: pow2_add_nat)
  have y: "of_int (2 ^ 52) * pow2 ?e \<le> y"
    using rat_log2_bounds(1) [of y] assms e p by simp
  then have "of_int (2 ^ 52) \<le> y / pow2 ?e" by (simp add: pos_le_divide_eq)
  then have "(2 ^ 52 :: int) \<le> round_half_even (y / pow2 ?e)" by (rule round_half_even_ge)
  then have "(of_int (2 ^ 52) :: rat) \<le> of_int (round_half_even (y / pow2 ?e))" by (simp only: of_int_le_iff)
  then have hi: "of_int (2 ^ 52) * pow2 ?e \<le> round_pos y"
    unfolding round_pos_def by (simp add: mult_right_mono)
  have q: "pow2 ?e = of_int (2 ^ nat (?e - ?d)) * pow2 ?d"
    using pow2_add_nat [of "?e - ?d" ?d] lt by simp
  have "rat_log2 x \<le> ?d + 52" by (simp add: ulp_exp_def)
  with lt have "pow2 (rat_log2 x + 1) \<le> pow2 (?e + 52)" by (intro pow2_mono) simp
  then have "x \<le> of_int (2 ^ 52) * pow2 ?e" using rat_log2_bounds(2) [OF assms(1)] p by simp
  then have "x \<le> of_int (2 ^ 52 * 2 ^ nat (?e - ?d)) * pow2 ?d" unfolding q by (simp add: mult.assoc)
  then have "x / pow2 ?d \<le> of_int (2 ^ 52 * 2 ^ nat (?e - ?d))"
    by (simp only: pos_divide_le_eq [OF pow2_pos])
  then have "round_half_even (x / pow2 ?d) \<le> 2 ^ 52 * 2 ^ nat (?e - ?d)" by (rule round_half_even_le)
  then have "(of_int (round_half_even (x / pow2 ?d)) :: rat) \<le> of_int (2 ^ 52 * 2 ^ nat (?e - ?d))"
    by (simp only: of_int_le_iff)
  then have "round_pos x \<le> of_int (2 ^ 52 * 2 ^ nat (?e - ?d)) * pow2 ?d"
    unfolding round_pos_def by (rule mult_right_mono) simp
  also have "\<dots> = of_int (2 ^ 52) * pow2 ?e" unfolding q by (simp add: mult.assoc)
  finally show ?thesis using hi by linarith
qed

lemma round_rat_mono: "x \<le> y \<Longrightarrow> round_rat x \<le> round_rat y"
proof -
  assume le: "x \<le> y"
  consider "0 < x" | "x \<le> 0" "0 \<le> y" | "y < 0" using le by linarith
  then show ?thesis
  proof cases
    case 1
    with le show ?thesis by (simp add: round_rat_def round_pos_mono)
  next
    case 2
    then have "round_rat x \<le> 0" "0 \<le> round_rat y"
      using round_pos_nonneg [of "- x"] round_pos_nonneg [of y] by (simp_all add: round_rat_def)
    then show ?thesis by linarith
  next
    case 3
    with le show ?thesis by (simp add: round_rat_def round_pos_mono)
  qed
qed

section \<open>The order of floats\<close>

text \<open>The place of a float in the order: below, among, or above the finite values.\<close>

definition float_rank :: "pyfloat \<Rightarrow> int \<times> rat" where
  "float_rank f = (case f of PosInf \<Rightarrow> (1, 0) | NegInf \<Rightarrow> (- 1, 0) | g \<Rightarrow> (0, float_exact g))"

definition rank_less :: "int \<times> rat \<Rightarrow> int \<times> rat \<Rightarrow> bool" where
  "rank_less a b = (fst a < fst b \<or> fst a = fst b \<and> snd a < snd b)"

lemma float_lt_rank:
  "a \<noteq> NaN \<Longrightarrow> b \<noteq> NaN \<Longrightarrow> float_lt a b \<longleftrightarrow> rank_less (float_rank a) (float_rank b)"
  by (cases a; cases b) (simp_all add: float_lt_def float_rank_def rank_less_def)

lemma float_eq_rank:
  "a \<noteq> NaN \<Longrightarrow> b \<noteq> NaN \<Longrightarrow> float_eq a b \<longleftrightarrow> float_rank a = float_rank b"
  by (cases a; cases b) (auto simp: float_eq_def float_rank_def)

lemma float_le_not_lt: "a \<noteq> NaN \<Longrightarrow> b \<noteq> NaN \<Longrightarrow> float_le a b \<longleftrightarrow> \<not> float_lt b a"
  by (auto simp: float_le_def float_lt_rank float_eq_rank rank_less_def prod_eq_iff)

lemma float_lt_NaN [simp]: "\<not> float_lt NaN a" "\<not> float_lt a NaN"
  by (cases a; simp add: float_lt_def)+

lemma float_le_refl: "a \<noteq> NaN \<Longrightarrow> float_le a a"
  by (simp add: float_le_not_lt float_lt_rank rank_less_def)

lemma float_le_NaN [simp]: "\<not> float_le NaN a" "\<not> float_le a NaN"
  by (cases a; simp add: float_le_def float_eq_def)+

lemma float_lt_le_trans: "float_lt a b \<Longrightarrow> float_le b c \<Longrightarrow> float_lt a c"
  by (cases "a = NaN"; cases "b = NaN"; cases "c = NaN")
    (auto simp: float_le_not_lt float_lt_rank rank_less_def)

lemma float_le_lt_trans: "float_le a b \<Longrightarrow> float_lt b c \<Longrightarrow> float_lt a c"
  by (cases "a = NaN"; cases "b = NaN"; cases "c = NaN")
    (auto simp: float_le_not_lt float_lt_rank rank_less_def)

lemma float_le_trans: "float_le a b \<Longrightarrow> float_le b c \<Longrightarrow> float_le a c"
  by (cases "a = NaN"; cases "b = NaN"; cases "c = NaN")
    (auto simp: float_le_not_lt float_lt_rank rank_less_def)

section \<open>Differences from increasing times\<close>

lemma float_of_exact_not_NaN [simp]: "float_of_exact x \<noteq> NaN"
  by (simp add: float_of_exact_def Let_def)

lemma float_of_exact_rank:
  "float_rank (float_of_exact x) =
     (if float_limit \<le> round_rat x then (1, 0)
      else if round_rat x \<le> - float_limit then (- 1, 0) else (0, round_rat x))"
  by (simp add: float_of_exact_def float_rank_def Let_def)

lemma float_of_exact_mono: "x \<le> y \<Longrightarrow> float_le (float_of_exact x) (float_of_exact y)"
  using round_rat_mono [of x y]
  by (auto simp: float_le_not_lt float_lt_rank float_of_exact_rank rank_less_def)

lemma float_sub_Fin: "float_sub (Fin a) (Fin w) = float_of_exact (a - w)"
proof (cases "w = 0")
  case True
  then show ?thesis by (simp add: float_sub_def float_neg_def float_add_def)
next
  case False
  then show ?thesis by (simp add: float_sub_def float_neg_def float_add_def)
qed

lemma float_sub_mono: "a \<le> b \<Longrightarrow> float_le (float_sub (Fin a) (Fin w)) (float_sub (Fin b) (Fin w))"
  by (simp add: float_sub_Fin float_of_exact_mono)

lemma float_le_Fin [simp]: "float_le (Fin a) (Fin b) \<longleftrightarrow> a \<le> b"
  by (auto simp: float_le_not_lt float_lt_def)

lemma float_lt_Fin [simp]: "float_lt (Fin a) (Fin b) \<longleftrightarrow> a < b"
  by (simp add: float_lt_def)

end
