(* ===== verification/Rate_Limit.thy ===== *)
theory Rate_Limit
  imports Float_Order Py_Value
begin

text \<open>
  \<open>network/rate_limit.py\<close>: the sliding-window limiter.  The code keeps one queue of recent
  events per key and now and then forgets keys that were not used for a whole window.  The
  reference \<open>permits\<close> looks at the full history instead; the limiter answers like it
  (\<open>limiter_implements_window\<close>), and never raises.
\<close>

record limiter =
  rl_max :: int
  rl_window :: pyfloat
  rl_events :: "(string \<times> pyfloat list) list"
  rl_last :: "(string \<times> pyfloat) list"
  rl_last_prune :: pyfloat

definition new_limiter :: "int \<Rightarrow> pyfloat \<Rightarrow> limiter" where
  "new_limiter n w = \<lparr>rl_max = n, rl_window = w, rl_events = [], rl_last = [], rl_last_prune = Fin 0\<rparr>"

text \<open>\<open>del d[k]\<close>.\<close>

definition del_key :: "string \<Rightarrow> (string \<times> 'v) list \<Rightarrow> (string \<times> 'v) list res" where
  "del_key k d = (if map_of d k = None then Inl KeyError else Inr (AList.delete k d))"

definition forget_key :: "limiter \<Rightarrow> string \<Rightarrow> limiter res" where
  "forget_key st k =
     bindE (del_key k (rl_events st)) (\<lambda>es.
     bindE (del_key k (rl_last st)) (\<lambda>ls.
     Inr (st\<lparr>rl_events := es, rl_last := ls\<rparr>)))"

definition prune_stale_keys :: "pyfloat \<Rightarrow> limiter \<Rightarrow> limiter res" where
  "prune_stale_keys current st =
     (if float_lt (float_sub current (rl_last_prune st)) (rl_window st) then Inr st
      else let cutoff = float_sub current (rl_window st);
               stale = map fst (filter (\<lambda>(k, last). float_lt last cutoff) (rl_last st))
           in foldE forget_key (st\<lparr>rl_last_prune := current\<rparr>) stale)"

text \<open>\<open>self._events[key]\<close> of the \<open>defaultdict\<close>.\<close>

definition events_of :: "limiter \<Rightarrow> string \<Rightarrow> pyfloat list" where
  "events_of st k = (case map_of (rl_events st) k of None \<Rightarrow> [] | Some es \<Rightarrow> es)"

definition allow :: "string \<Rightarrow> pyfloat \<Rightarrow> limiter \<Rightarrow> (limiter \<times> bool) res" where
  "allow key current st =
     bindE (prune_stale_keys current st) (\<lambda>s.
     let cutoff = float_sub current (rl_window s);
         events = dropWhile (\<lambda>e. float_lt e cutoff) (events_of s key);
         s1 = s\<lparr>rl_events := AList.update key events (rl_events s),
                rl_last := AList.update key current (rl_last s)\<rparr>
     in if rl_max s \<le> int (length events) then Inr (s1, False)
        else Inr (s1\<lparr>rl_events := AList.update key (events @ [current]) (rl_events s1)\<rparr>, True))"

definition reset_key :: "string \<Rightarrow> limiter \<Rightarrow> limiter" where
  "reset_key key st =
     st\<lparr>rl_events := AList.delete key (rl_events st), rl_last := AList.delete key (rl_last st)\<rparr>"

text \<open>A sequence of calls.\<close>

fun run_limiter :: "limiter \<Rightarrow> (string \<times> pyfloat) list \<Rightarrow> (limiter \<times> bool list) res" where
  "run_limiter st [] = Inr (st, [])"
| "run_limiter st ((k, t) # calls) =
     bindE (allow k t st) (\<lambda>(st1, b).
     bindE (run_limiter st1 calls) (\<lambda>(st2, bs). Inr (st2, b # bs)))"

section \<open>The reference\<close>

text \<open>
  The history holds the events that were permitted.  An event is permitted when fewer than
  \<open>n\<close> permitted events of its key are no older than the window.
\<close>

definition in_window :: "pyfloat \<Rightarrow> pyfloat \<Rightarrow> pyfloat \<Rightarrow> bool" where
  "in_window w t e = (\<not> float_lt e (float_sub t w))"

definition key_events :: "(string \<times> pyfloat) list \<Rightarrow> string \<Rightarrow> pyfloat list" where
  "key_events hist k = map snd (filter (\<lambda>(j, _). j = k) hist)"

definition permits :: "int \<Rightarrow> pyfloat \<Rightarrow> (string \<times> pyfloat) list \<Rightarrow> string \<Rightarrow> pyfloat \<Rightarrow> bool" where
  "permits n w hist k t = (int (length (filter (in_window w t) (key_events hist k))) < n)"

fun window_decisions ::
    "int \<Rightarrow> pyfloat \<Rightarrow> (string \<times> pyfloat) list \<Rightarrow> (string \<times> pyfloat) list \<Rightarrow> bool list" where
  "window_decisions n w hist [] = []"
| "window_decisions n w hist ((k, t) # calls) =
     (let b = permits n w hist k t
      in b # window_decisions n w (if b then hist @ [(k, t)] else hist) calls)"

section \<open>The simulation\<close>

text \<open>
  At time \<open>t\<close> the queue of a key holds, in order of time, at least the permitted events that
  some later call can still see, and the last use of a key is no earlier than its events.
\<close>

definition finite_times :: "rat \<Rightarrow> pyfloat list \<Rightarrow> bool" where
  "finite_times t es = list_all (\<lambda>e. \<exists>r. e = Fin r \<and> r \<le> t) es"

definition tracks :: "rat \<Rightarrow> (string \<times> pyfloat) list \<Rightarrow> limiter \<Rightarrow> bool" where
  "tracks t hist st \<longleftrightarrow>
     (\<exists>w. rl_window st = Fin w) \<and> distinct (map fst (rl_last st)) \<and>
     dom (map_of (rl_events st)) = dom (map_of (rl_last st)) \<and>
     (\<forall>k. finite_times t (events_of st k) \<and> sorted_wrt float_le (events_of st k)) \<and>
     (\<forall>k l. map_of (rl_last st) k = Some l \<longrightarrow>
        (\<exists>r\<le>t. l = Fin r) \<and> list_all (\<lambda>e. float_le e l) (events_of st k)) \<and>
     (\<forall>k u. t \<le> u \<longrightarrow> filter (in_window (rl_window st) (Fin u)) (key_events hist k)
        = filter (in_window (rl_window st) (Fin u)) (events_of st k))"

lemma tracks_new: "tracks t [] (new_limiter n (Fin w))"
  by (simp add: tracks_def new_limiter_def events_of_def key_events_def finite_times_def)

lemma in_window_antimono:
  "t \<le> u \<Longrightarrow> in_window (Fin w) (Fin u) e \<Longrightarrow> in_window (Fin w) (Fin t) e"
  using float_sub_mono [of t u w] by (auto simp: in_window_def dest: float_lt_le_trans)

text \<open>In a queue in order of time the events to drop come first.\<close>

lemma dropWhile_window:
  "sorted_wrt float_le es \<Longrightarrow> dropWhile (\<lambda>e. float_lt e c) es = filter (\<lambda>e. \<not> float_lt e c) es"
proof (induction es)
  case (Cons e es)
  show ?case
  proof (cases "float_lt e c")
    case False
    then have "\<not> float_lt x c" if "x \<in> set es" for x
      using Cons.prems that by (auto dest: float_le_lt_trans)
    then show ?thesis using False by (simp add: filter_id_conv)
  qed (use Cons in simp)
qed simp

subsection \<open>Forgetting keys\<close>

lemma forget_keys:
  assumes "distinct ks" "set ks \<subseteq> dom (map_of (rl_events st))" "set ks \<subseteq> dom (map_of (rl_last st))"
    and "distinct (map fst (rl_last st))"
  shows "\<exists>es ls. foldE forget_key st ks = Inr (st\<lparr>rl_events := es, rl_last := ls\<rparr>) \<and>
    map_of es = map_of (rl_events st) |` (- set ks) \<and> map_of ls = map_of (rl_last st) |` (- set ks) \<and>
    distinct (map fst ls)"
  using assms
proof (induction ks arbitrary: st)
  case Nil
  then show ?case
    by (intro exI [of _ "rl_events st"] exI [of _ "rl_last st"]) (simp add: restrict_map_def)
next
  case (Cons k ks)
  let ?s = "st\<lparr>rl_events := AList.delete k (rl_events st), rl_last := AList.delete k (rl_last st)\<rparr>"
  have s: "forget_key st k = Inr ?s"
    using Cons.prems by (auto simp: forget_key_def del_key_def)
  have m: "map_of (rl_events ?s) = (map_of (rl_events st))(k := None)"
    "map_of (rl_last ?s) = (map_of (rl_last st))(k := None)"
    by (simp_all add: delete_conv')
  have "\<exists>es ls. foldE forget_key ?s ks = Inr (?s\<lparr>rl_events := es, rl_last := ls\<rparr>) \<and>
    map_of es = map_of (rl_events ?s) |` (- set ks) \<and> map_of ls = map_of (rl_last ?s) |` (- set ks) \<and>
    distinct (map fst ls)"
  proof (rule Cons.IH)
    show "set ks \<subseteq> dom (map_of (rl_events ?s))" "set ks \<subseteq> dom (map_of (rl_last ?s))"
      unfolding m using Cons.prems by auto
    show "distinct (map fst (rl_last ?s))" using Cons.prems(4) by (simp add: distinct_delete)
  qed (use Cons.prems(1) in simp)
  then obtain es ls where "foldE forget_key ?s ks = Inr (?s\<lparr>rl_events := es, rl_last := ls\<rparr>)"
    "map_of es = map_of (rl_events ?s) |` (- set ks)" "map_of ls = map_of (rl_last ?s) |` (- set ks)"
    "distinct (map fst ls)"
    by blast
  then show ?case
    using s m by (intro exI [of _ es] exI [of _ ls]) (auto simp: restrict_map_def fun_eq_iff)
qed

lemma prune_tracks:
  assumes tr: "tracks t hist st" and le: "t \<le> u"
  shows "\<exists>s. prune_stale_keys (Fin u) st = Inr s \<and> tracks u hist s \<and>
    rl_max s = rl_max st \<and> rl_window s = rl_window st"
proof -
  obtain w where w: "rl_window st = Fin w" using tr by (auto simp: tracks_def)
  have ft: "finite_times u es" if "finite_times t es" for es
    using that le by (auto simp: finite_times_def list_all_iff)
  have later: "tracks u hist st" using tr le ft by (fastforce simp: tracks_def)
  show ?thesis
  proof (cases "float_lt (float_sub (Fin u) (rl_last_prune st)) (rl_window st)")
    case True
    with later show ?thesis by (simp add: prune_stale_keys_def)
  next
    case False
    let ?c = "float_sub (Fin u) (rl_window st)"
    let ?ks = "map fst (filter (\<lambda>(k, last). float_lt last ?c) (rl_last st))"
    let ?s = "st\<lparr>rl_last_prune := Fin u\<rparr>"
    have dist: "distinct (map fst (rl_last st))" and dom: "dom (map_of (rl_events st)) = dom (map_of (rl_last st))"
      using tr by (auto simp: tracks_def)
    have sub: "set ?ks \<subseteq> dom (map_of (rl_last st))" by (auto simp: dom_map_of_conv_image_fst)
    obtain es ls where f: "foldE forget_key ?s ?ks = Inr (?s\<lparr>rl_events := es, rl_last := ls\<rparr>)"
      and m: "map_of es = map_of (rl_events st) |` (- set ?ks)" "map_of ls = map_of (rl_last st) |` (- set ?ks)"
        "distinct (map fst ls)"
      using forget_keys [of ?ks ?s] sub dom dist by (auto simp: distinct_map_filter)
    let ?r = "?s\<lparr>rl_events := es, rl_last := ls\<rparr>"
    have ev: "events_of ?r k = (if k \<in> set ?ks then [] else events_of st k)" for k
      by (simp add: events_of_def m)
    have gone: "filter (in_window (rl_window st) (Fin v)) (events_of st k) = []"
      if k: "k \<in> set ?ks" and v: "u \<le> v" for k v
    proof -
      obtain l where "(k, l) \<in> set (rl_last st)" and l: "float_lt l ?c" using k by auto
      with dist have "map_of (rl_last st) k = Some l" by simp
      then have "list_all (\<lambda>e. float_le e l) (events_of st k)" using tr by (auto simp: tracks_def)
      then have "\<not> in_window (rl_window st) (Fin u) e" if "e \<in> set (events_of st k)" for e
        using that l by (auto simp: list_all_iff in_window_def dest: float_le_lt_trans)
      then show ?thesis using in_window_antimono [OF v] w by (auto simp: filter_empty_conv)
    qed
    have "tracks u hist ?r"
      unfolding tracks_def
    proof (intro conjI allI impI)
      show "\<exists>w. rl_window ?r = Fin w" using w by simp
      show "distinct (map fst (rl_last ?r))" using m by simp
      show "dom (map_of (rl_events ?r)) = dom (map_of (rl_last ?r))" using m dom by simp
      show "finite_times u (events_of ?r k)" "sorted_wrt float_le (events_of ?r k)" for k
        using later by (auto simp: ev tracks_def finite_times_def)
      show "\<exists>r\<le>u. l = Fin r" "list_all (\<lambda>e. float_le e l) (events_of ?r k)"
        if "map_of (rl_last ?r) k = Some l" for k l
        using later that m by (auto simp: ev tracks_def restrict_map_def split: if_splits)
      show "filter (in_window (rl_window ?r) (Fin v)) (key_events hist k)
          = filter (in_window (rl_window ?r) (Fin v)) (events_of ?r k)" if "u \<le> v" for k v
        using later gone that by (auto simp: ev tracks_def)
    qed
    with False f show ?thesis by (intro exI [of _ ?r]) (simp add: prune_stale_keys_def Let_def)
  qed
qed

subsection \<open>A call\<close>

lemma key_events_snoc:
  "key_events (hist @ [(k, e)]) j = key_events hist j @ (if j = k then [e] else [])"
  by (simp add: key_events_def)

lemma allow_tracks:
  assumes tr: "tracks t hist st" and le: "t \<le> u"
    and b: "b = permits (rl_max st) (rl_window st) hist k (Fin u)"
  shows "\<exists>s. allow k (Fin u) st = Inr (s, b) \<and> tracks u (if b then hist @ [(k, Fin u)] else hist) s \<and>
    rl_max s = rl_max st \<and> rl_window s = rl_window st"
proof -
  obtain s where p: "prune_stale_keys (Fin u) st = Inr s" and s: "tracks u hist s"
    and same: "rl_max s = rl_max st" "rl_window s = rl_window st"
    using prune_tracks [OF tr le] by blast
  obtain w where w: "rl_window s = Fin w" using s by (auto simp: tracks_def)
  let ?kept = "filter (in_window (Fin w) (Fin u)) (events_of s k)"
  have kept: "dropWhile (\<lambda>e. float_lt e (float_sub (Fin u) (rl_window s))) (events_of s k) = ?kept"
    using s dropWhile_window [of "events_of s k"] w
    by (simp add: tracks_def in_window_def [abs_def])
  have dec: "b \<longleftrightarrow> \<not> rl_max s \<le> int (length ?kept)"
    using s w same by (auto simp: b permits_def tracks_def)
  let ?evs = "if b then ?kept @ [Fin u] else ?kept"
  let ?s1 = "s\<lparr>rl_events := AList.update k ?kept (rl_events s),
    rl_last := AList.update k (Fin u) (rl_last s)\<rparr>"
  let ?r = "if b then ?s1\<lparr>rl_events := AList.update k (?kept @ [Fin u]) (rl_events ?s1)\<rparr> else ?s1"
  have run: "allow k (Fin u) st = Inr (?r, b)"
    using dec by (simp add: allow_def p kept Let_def)
  have ev: "events_of ?r j = (if j = k then ?evs else events_of s j)" for j
    by (simp add: events_of_def update_conv')
  have sel: "rl_window ?r = Fin w" "rl_last ?r = AList.update k (Fin u) (rl_last s)" by (simp_all add: w)
  have old: "finite_times u (events_of s j)" "sorted_wrt float_le (events_of s j)" for j
    using s by (auto simp: tracks_def)
  have bound: "float_le e (Fin u)" if "e \<in> set (events_of s k)" for e
    using old(1) [of k] that by (auto simp: finite_times_def list_all_iff)
  have "tracks u (if b then hist @ [(k, Fin u)] else hist) ?r"
    unfolding tracks_def
  proof (intro conjI allI impI)
    show "\<exists>w. rl_window ?r = Fin w" using w by simp
    show "distinct (map fst (rl_last ?r))" using s by (simp add: tracks_def distinct_update)
    show "dom (map_of (rl_events ?r)) = dom (map_of (rl_last ?r))"
      using s by (auto simp: tracks_def update_conv')
    show "finite_times u (events_of ?r j)" for j
      using old(1) by (auto simp: ev finite_times_def list_all_iff)
    have "sorted_wrt float_le ?kept" using old(2) by (rule sorted_wrt_filter)
    then show "sorted_wrt float_le (events_of ?r j)" for j
      using old(2) bound by (auto simp: ev sorted_wrt_append)
    show "\<exists>r\<le>u. l = Fin r" "list_all (\<lambda>e. float_le e l) (events_of ?r j)"
      if "map_of (rl_last ?r) j = Some l" for j l
      using s that bound by (auto simp: ev sel tracks_def update_conv' list_all_iff split: if_splits)
    show "filter (in_window (rl_window ?r) (Fin v)) (key_events (if b then hist @ [(k, Fin u)] else hist) j)
        = filter (in_window (rl_window ?r) (Fin v)) (events_of ?r j)" if v: "u \<le> v" for j v
    proof -
      have "filter (in_window (Fin w) (Fin v)) ?kept = filter (in_window (Fin w) (Fin v)) (events_of s k)"
        using in_window_antimono [OF v] by (auto intro: filter_cong)
      moreover have "filter (in_window (Fin w) (Fin v)) (key_events hist i)
          = filter (in_window (Fin w) (Fin v)) (events_of s i)" for i
        using s w v by (simp add: tracks_def)
      ultimately show ?thesis unfolding sel(1) ev by (auto simp: key_events_snoc)
    qed
  qed
  with run show ?thesis using same by (intro exI [of _ ?r]) simp
qed

lemma run_tracks:
  assumes "tracks t hist st" "sorted (t # map snd calls)"
  shows "\<exists>s. run_limiter st (map (\<lambda>(k, r). (k, Fin r)) calls)
    = Inr (s, window_decisions (rl_max st) (rl_window st) hist (map (\<lambda>(k, r). (k, Fin r)) calls))"
  using assms
proof (induction calls arbitrary: t hist st)
  case (Cons c calls)
  obtain k u where c: "c = (k, u)" by force
  let ?b = "permits (rl_max st) (rl_window st) hist k (Fin u)"
  obtain s where a: "allow k (Fin u) st = Inr (s, ?b)"
    and tr: "tracks u (if ?b then hist @ [(k, Fin u)] else hist) s"
    and same: "rl_max s = rl_max st" "rl_window s = rl_window st"
    using allow_tracks [OF Cons.prems(1) _ refl, of u k] Cons.prems(2) c by auto
  have "sorted (u # map snd calls)" using Cons.prems(2) c by simp
  from Cons.IH [OF tr this] a same show ?case by (auto simp: c Let_def)
qed simp

text \<open>
  C23: On calls with finite non-decreasing times the limiter never raises and decides like the
  reference that counts the permitted events of the key inside the window.
\<close>

theorem limiter_implements_window:
  assumes "sorted (map snd calls)"
  shows "\<exists>s. run_limiter (new_limiter n (Fin w)) (map (\<lambda>(k, r). (k, Fin r)) calls)
    = Inr (s, window_decisions n (Fin w) [] (map (\<lambda>(k, r). (k, Fin r)) calls))"
proof (cases calls)
  case (Cons c cs)
  with assms have "sorted (snd c # map snd calls)" by simp
  from run_tracks [OF tracks_new [of "snd c" n w] this] show ?thesis
    by (simp add: new_limiter_def)
qed simp

theorem limiter_implements_window_witness:
  "\<exists>s. run_limiter (new_limiter 1 (Fin 1)) [(''a'', Fin 5), (''a'', Fin 5), (''b'', Fin 5), (''a'', Fin 7)]
     = Inr (s, [True, False, True, True])"
proof -
  have "float_sub (Fin 5) (Fin 1) = Fin 4" "float_sub (Fin 7) (Fin 1) = Fin 6" by code_simp+
  then show ?thesis
    using limiter_implements_window [of "[(''a'', 5), (''a'', 5), (''b'', 5), (''a'', 7)]" 1 1]
    by (simp add: permits_def key_events_def in_window_def Let_def)
qed

end
