(* ===== verification/Peer.thy ===== *)
theory Peer
  imports Messages Rate_Limit Ebc_Types
begin

text \<open>
  \<open>network/peer.py\<close>: one connection.  \<open>listen_gate\<close> is an iteration of \<open>listen\<close> up to the call
  of the message handler: rate limit, decoding, and the rule that only HELLO passes before
  authentication.  The web socket itself is outside the model: texts arrive, and \<open>send_text\<close>
  is the text handed to it.
\<close>

record peer_conn =
  pr_closed :: bool
  pr_require_auth :: bool
  pr_authenticated :: bool
  pr_decode_errors :: int
  pr_rate_limit :: rate_limit_settings
  pr_rate_key :: string
  pr_max_bytes :: int
  pr_last_ping :: "pyfloat option"
  pr_last_pong :: "pyfloat option"

definition new_peer :: "bool \<Rightarrow> rate_limit_settings \<Rightarrow> string \<Rightarrow> int \<Rightarrow> peer_conn" where
  "new_peer require_auth st rate_key max_bytes =
     \<lparr>pr_closed = False, pr_require_auth = require_auth, pr_authenticated = (\<not> require_auth),
      pr_decode_errors = 0, pr_rate_limit = st, pr_rate_key = rate_key, pr_max_bytes = max_bytes,
      pr_last_ping = None, pr_last_pong = None\<rparr>"

definition mark_authenticated :: "peer_conn \<Rightarrow> peer_conn" where
  "mark_authenticated p = p\<lparr>pr_authenticated := True\<rparr>"

definition close_peer :: "peer_conn \<Rightarrow> peer_conn" where
  "close_peer p = p\<lparr>pr_closed := True\<rparr>"

text \<open>\<open>send\<close>: nothing is sent on a closed connection or above the size limit.\<close>

definition send_text :: "peer_conn \<Rightarrow> message_type \<Rightarrow> pydict \<Rightarrow> string option" where
  "send_text p t payload =
     (let encoded = encode_message t payload in
      if pr_closed p \<or> pr_max_bytes p < int (length (utf8_encode encoded)) then None
      else Some encoded)"

section \<open>An iteration of the listen loop\<close>

text \<open>
  The loop skips a text, stops (after closing the connection), hands a message to the
  handler, or leaves by an exception that its handlers do not name.
\<close>

datatype gate = Skip | Stop | Handle message_type pydict | Escape exn

definition decode_failure :: "peer_conn \<Rightarrow> peer_conn \<times> gate" where
  "decode_failure p =
     (let q = p\<lparr>pr_decode_errors := pr_decode_errors p + 1\<rparr> in
      if rl_max_decode_errors (pr_rate_limit q) \<le> pr_decode_errors q then (close_peer q, Stop)
      else (q, Skip))"

definition listen_gate ::
    "pyfloat \<Rightarrow> string \<Rightarrow> limiter \<Rightarrow> peer_conn \<Rightarrow> limiter \<times> peer_conn \<times> gate" where
  "listen_gate now raw lm p =
     (case allow (pr_rate_key p) now lm of
        Inl e \<Rightarrow> (lm, p, Escape e)
      | Inr (lm', ok) \<Rightarrow>
          (lm',
           if \<not> ok then (close_peer p, Stop)
           else (case decode_message raw of
               Inl e \<Rightarrow>
                 if e \<in> {MessageDecodeError, JSONDecodeError, ValueError} then decode_failure p
                 else (p, Escape e)
             | Inr (t, payload) \<Rightarrow>
                 if pr_require_auth p \<and> \<not> pr_authenticated p \<and> t \<noteq> HELLO
                 then (close_peer p, Stop)
                 else (p, Handle t payload))))"

section \<open>Facts\<close>

lemma peer_sel_simps [simp]:
  "pr_authenticated (close_peer p) = pr_authenticated p" "pr_closed (close_peer p)"
  "pr_authenticated (mark_authenticated p)" "pr_closed (mark_authenticated p) = pr_closed p"
  "pr_require_auth (close_peer p) = pr_require_auth p"
  "pr_require_auth (mark_authenticated p) = pr_require_auth p"
  "pr_decode_errors (close_peer p) = pr_decode_errors p"
  "pr_rate_limit (close_peer p) = pr_rate_limit p"
  by (simp_all add: close_peer_def mark_authenticated_def)

lemma listen_gate_Handle:
  "listen_gate now raw lm p = (lm', p', Handle t payload) \<Longrightarrow>
   p' = p \<and> decode_message raw = Inr (t, payload) \<and>
   (pr_require_auth p \<longrightarrow> pr_authenticated p \<or> t = HELLO)"
  by (auto simp: listen_gate_def decode_failure_def Let_def split: sum.splits prod.splits if_splits)

lemma listen_gate_peer:
  "listen_gate now raw lm p = (lm', p', g) \<Longrightarrow>
   pr_authenticated p' = pr_authenticated p \<and> pr_require_auth p' = pr_require_auth p"
  by (auto simp: listen_gate_def decode_failure_def Let_def close_peer_def
      split: sum.splits prod.splits if_splits)

lemma listen_gate_Skip_errors:
  "listen_gate now raw lm p = (lm', p', Skip) \<Longrightarrow>
   pr_decode_errors p' < rl_max_decode_errors (pr_rate_limit p') \<and> pr_rate_limit p' = pr_rate_limit p"
  by (auto simp: listen_gate_def decode_failure_def Let_def split: sum.splits prod.splits if_splits)

lemma send_text_size:
  "send_text p t payload = Some text \<Longrightarrow>
   \<not> pr_closed p \<and> text = encode_message t payload \<and> int (length (utf8_encode text)) \<le> pr_max_bytes p"
  by (auto simp: send_text_def Let_def split: if_splits)

end
