(* ===== verification/Tls.thy ===== *)
theory Tls
  imports Ebc_Types
begin

text \<open>
  \<open>network/tls.py\<close>: the rules on web-socket schemes and on the TLS settings of a production
  node.  Whether a path is a file is the argument \<open>is_file\<close>; an SSL context is the data it is
  built from.
\<close>

section \<open>Schemes\<close>

definition starts_with :: "string \<Rightarrow> string \<Rightarrow> bool" where
  "starts_with s prefix = (take (length prefix) s = prefix)"

definition websocket_scheme :: "bool \<Rightarrow> string" where
  "websocket_scheme tls = (if tls then ''wss'' else ''ws'')"

definition url_scheme_matches_tls :: "string \<Rightarrow> bool \<Rightarrow> bool" where
  "url_scheme_matches_tls url tls =
     (if starts_with url ''wss://'' then True
      else if starts_with url ''ws://'' then \<not> tls
      else False)"

definition rejects_plain_websocket :: "bool \<Rightarrow> environment \<Rightarrow> bool" where
  "rejects_plain_websocket tls env = (tls \<or> env = Production)"

section \<open>Contexts\<close>

datatype ssl_context = ServerContext string string | ClientUnverified | ClientVerified string

definition validate_cert_paths :: "(string \<Rightarrow> bool) \<Rightarrow> tls_settings \<Rightarrow> unit res" where
  "validate_cert_paths is_file st =
     (if tls_cert_file st = [] \<or> tls_key_file st = [] then Inl TlsConfigError
      else if \<not> is_file (tls_cert_file st) then Inl TlsConfigError
      else if \<not> is_file (tls_key_file st) then Inl TlsConfigError
      else Inr ())"

definition build_server_ssl_context :: "(string \<Rightarrow> bool) \<Rightarrow> tls_settings \<Rightarrow> ssl_context res" where
  "build_server_ssl_context is_file st =
     (if \<not> tls_enabled st then Inl TlsConfigError
      else bindE (validate_cert_paths is_file st) (\<lambda>_.
        Inr (ServerContext (tls_cert_file st) (tls_key_file st))))"

definition build_client_ssl_context :: "(string \<Rightarrow> bool) \<Rightarrow> tls_settings \<Rightarrow> ssl_context res" where
  "build_client_ssl_context is_file st =
     (if \<not> tls_verify_peer st then Inr ClientUnverified
      else if tls_ca_file st = [] then Inl TlsConfigError
      else if \<not> is_file (tls_ca_file st) then Inl TlsConfigError
      else Inr (ClientVerified (tls_ca_file st)))"

section \<open>Production\<close>

text \<open>\<open>url.startswith\<close> on a bootstrap peer that is no string raises.\<close>

fun check_bootstrap :: "pyval list \<Rightarrow> unit res" where
  "check_bootstrap [] = Inr ()"
| "check_bootstrap (v # vs) =
     (case v of
        PStr url \<Rightarrow>
          if url_scheme_matches_tls url True then check_bootstrap vs else Inl TlsConfigError
      | _ \<Rightarrow> Inl AttributeError)"

definition validate_production_network :: "node_settings \<Rightarrow> network_settings \<Rightarrow> unit res" where
  "validate_production_network nd nw =
     (let tls = nw_tls nw in
      if nd_environment nd \<noteq> Production then Inr ()
      else if \<not> tls_enabled tls then Inl TlsConfigError
      else if \<not> tls_verify_peer tls then Inl TlsConfigError
      else if tls_cert_file tls = [] then Inl TlsConfigError
      else if tls_key_file tls = [] then Inl TlsConfigError
      else if tls_ca_file tls = [] then Inl TlsConfigError
      else if pc_allow_private_ips (nw_peer_connect nw) then Inl TlsConfigError
      else check_bootstrap (nw_bootstrap_peers nw))"

lemma check_bootstrap_wss:
  "check_bootstrap vs = Inr () \<Longrightarrow> v \<in> set vs \<Longrightarrow> \<exists>url. v = PStr url \<and> starts_with url ''wss://''"
  by (induction vs) (auto simp: url_scheme_matches_tls_def split: pyval.splits if_splits)

end
