(* ===== verification/P2P_Server.thy ===== *)
theory P2P_Server
  imports Peer Tls
begin

text \<open>
  \<open>network/server.py\<close>: the connections of a node.  \<open>sv_conns\<close> holds the connection objects whose
  listen loop runs, \<open>sv_peers\<close> the keys of the dict \<open>peers\<close>: an outgoing connection listens before
  it is entered there.  Accepting and dialling are functions of what the outside supplies (the
  time, the client's address, the fresh identifier, the resolved host).  \<open>sv_outbox\<close> lists the
  messages handed to a web socket, oldest first.
\<close>

record p2p_server =
  sv_settings :: network_settings
  sv_environment :: environment
  sv_conns :: "(string \<times> peer_conn) list"
  sv_peers :: "string list"
  sv_urls :: "(string \<times> string) list"
  sv_conn_limiter :: limiter
  sv_msg_limiter :: limiter
  sv_local_url :: string
  sv_outbox :: "(string \<times> message_type \<times> pydict) list"

definition new_server :: "network_settings \<Rightarrow> environment \<Rightarrow> string \<Rightarrow> p2p_server" where
  "new_server nw env url =
     \<lparr>sv_settings = nw, sv_environment = env, sv_conns = [], sv_peers = [], sv_urls = [],
      sv_conn_limiter = new_limiter (rl_max_connections (nw_rate_limit nw)) (Fin 60),
      sv_msg_limiter = new_limiter (rl_max_messages (nw_rate_limit nw)) (Fin 1),
      sv_local_url = url, sv_outbox = []\<rparr>"

section \<open>Looking up and changing connections\<close>

text \<open>\<open>self.peers.get(peer_id)\<close>.\<close>

definition find_peer :: "p2p_server \<Rightarrow> string \<Rightarrow> peer_conn option" where
  "find_peer sv p = (if p \<in> set (sv_peers sv) then map_of (sv_conns sv) p else None)"

definition set_conn :: "string \<Rightarrow> peer_conn \<Rightarrow> p2p_server \<Rightarrow> p2p_server" where
  "set_conn p c sv = sv\<lparr>sv_conns := AList.update p c (sv_conns sv)\<rparr>"

definition connection_for :: "p2p_server \<Rightarrow> string \<Rightarrow> peer_conn" where
  "connection_for sv rate_key =
     new_peer (pa_enabled (nw_peer_auth (sv_settings sv))) (nw_rate_limit (sv_settings sv)) rate_key
       (nw_max_message_bytes (sv_settings sv))"

definition full :: "p2p_server \<Rightarrow> bool" where
  "full sv = (nw_max_peers (sv_settings sv) \<le> int (length (sv_peers sv)))"

section \<open>Connections from and to peers\<close>

definition accept_connection ::
    "pyfloat \<Rightarrow> string \<Rightarrow> string \<Rightarrow> p2p_server \<Rightarrow> p2p_server \<times> bool res" where
  "accept_connection now client_ip peer_id sv =
     (case allow client_ip now (sv_conn_limiter sv) of
        Inl e \<Rightarrow> (sv, Inl e)
      | Inr (lm, ok) \<Rightarrow>
          let sv1 = sv\<lparr>sv_conn_limiter := lm\<rparr> in
          if \<not> ok then (sv1, Inr False)
          else if full sv1 then (sv1, Inr False)
          else (set_conn peer_id (connection_for sv1 client_ip)
                  (sv1\<lparr>sv_peers := sv_peers sv1 @ [peer_id]\<rparr>), Inr True))"

text \<open>The checks of \<open>connect_peer\<close> before the address is resolved.\<close>

definition may_connect :: "string \<Rightarrow> p2p_server \<Rightarrow> bool" where
  "may_connect url sv =
     (if \<not> starts_with url ''ws://'' \<and> \<not> starts_with url ''wss://'' then False
      else if starts_with url ''ws://'' \<and>
        rejects_plain_websocket (tls_enabled (nw_tls (sv_settings sv))) (sv_environment sv) then False
      else \<not> full sv)"

text \<open>
  The connection is open and its listen loop started; then, once the web socket is up, it is
  entered in the dict of peers or, when that is full, closed again.
\<close>

definition open_connection :: "string \<Rightarrow> string \<Rightarrow> p2p_server \<Rightarrow> p2p_server" where
  "open_connection peer_id host sv = set_conn peer_id (connection_for sv host) sv"

definition enter_peer :: "string \<Rightarrow> string \<Rightarrow> p2p_server \<Rightarrow> p2p_server \<times> string option" where
  "enter_peer peer_id url sv =
     (if full sv
      then (case map_of (sv_conns sv) peer_id of
              None \<Rightarrow> (sv, None)
            | Some c \<Rightarrow> (set_conn peer_id (close_peer c) sv, None))
      else (sv\<lparr>sv_peers := sv_peers sv @ [peer_id], sv_urls := AList.update peer_id url (sv_urls sv)\<rparr>,
            Some peer_id))"

text \<open>\<open>_handle_peer_closed\<close>, at the end of a listen loop.\<close>

definition drop_peer :: "string \<Rightarrow> p2p_server \<Rightarrow> p2p_server" where
  "drop_peer p sv =
     sv\<lparr>sv_conns := AList.delete p (sv_conns sv), sv_peers := removeAll p (sv_peers sv),
        sv_urls := AList.delete p (sv_urls sv)\<rparr>"

definition close_conn :: "string \<Rightarrow> p2p_server \<Rightarrow> p2p_server" where
  "close_conn p sv =
     (case map_of (sv_conns sv) p of None \<Rightarrow> sv | Some c \<Rightarrow> set_conn p (close_peer c) sv)"

section \<open>Sending\<close>

definition send_to_peer :: "string \<Rightarrow> message_type \<Rightarrow> pydict \<Rightarrow> p2p_server \<Rightarrow> p2p_server" where
  "send_to_peer p t payload sv =
     (case find_peer sv p of
        None \<Rightarrow> sv
      | Some c \<Rightarrow>
          (case send_text c t payload of
             None \<Rightarrow> sv
           | Some _ \<Rightarrow> sv\<lparr>sv_outbox := sv_outbox sv @ [(p, t, payload)]\<rparr>))"

definition broadcast :: "message_type \<Rightarrow> pydict \<Rightarrow> p2p_server \<Rightarrow> p2p_server" where
  "broadcast t payload sv = fold (\<lambda>p. send_to_peer p t payload) (sv_peers sv) sv"

definition active_peer_count :: "p2p_server \<Rightarrow> int" where
  "active_peer_count sv =
     int (length (filter (\<lambda>p. case map_of (sv_conns sv) p of None \<Rightarrow> False | Some c \<Rightarrow> \<not> pr_closed c)
       (sv_peers sv)))"

section \<open>Facts\<close>

lemma set_conn_simps [simp]:
  "map_of (sv_conns (set_conn p c sv)) q = (if q = p then Some c else map_of (sv_conns sv) q)"
  "sv_peers (set_conn p c sv) = sv_peers sv" "sv_settings (set_conn p c sv) = sv_settings sv"
  "sv_local_url (set_conn p c sv) = sv_local_url sv" "sv_outbox (set_conn p c sv) = sv_outbox sv"
  "sv_msg_limiter (set_conn p c sv) = sv_msg_limiter sv"
  by (simp_all add: set_conn_def update_conv')

text \<open>Sending touches the outbox only.\<close>

lemma same_outbox: "\<exists>out. sv = sv\<lparr>sv_outbox := out\<rparr>"
  by (rule exI [of _ "sv_outbox sv"]) simp

lemma send_to_peer_only:
  "\<exists>out. send_to_peer p t payload sv = sv\<lparr>sv_outbox := out\<rparr>"
  using same_outbox by (auto simp: send_to_peer_def split: option.splits)

lemma send_to_peer_limiter [simp]: "sv_msg_limiter (send_to_peer p t payload sv) = sv_msg_limiter sv"
  using send_to_peer_only [of p t payload sv] by auto

lemma broadcast_only: "\<exists>out. broadcast t payload sv = sv\<lparr>sv_outbox := out\<rparr>"
proof -
  have "\<exists>out. fold (\<lambda>p. send_to_peer p t payload) ps sv = sv\<lparr>sv_outbox := out\<rparr>" for ps
  proof (induction ps arbitrary: sv)
    case Nil
    show ?case using same_outbox by simp
  next
    case (Cons p ps)
    obtain o1 where "send_to_peer p t payload sv = sv\<lparr>sv_outbox := o1\<rparr>" using send_to_peer_only by blast
    moreover obtain o2 where "fold (\<lambda>p. send_to_peer p t payload) ps (sv\<lparr>sv_outbox := o1\<rparr>)
        = sv\<lparr>sv_outbox := o1\<rparr>\<lparr>sv_outbox := o2\<rparr>" using Cons.IH by blast
    ultimately show ?case by auto
  qed
  then show ?thesis by (simp add: broadcast_def)
qed

lemma close_conn_simps [simp]:
  "sv_peers (close_conn p sv) = sv_peers sv" "sv_settings (close_conn p sv) = sv_settings sv"
  "sv_local_url (close_conn p sv) = sv_local_url sv" "sv_outbox (close_conn p sv) = sv_outbox sv"
  by (simp_all add: close_conn_def split: option.splits)

lemma close_conn_conn:
  "map_of (sv_conns (close_conn p sv)) q =
     (if q = p then map_option close_peer (map_of (sv_conns sv) q) else map_of (sv_conns sv) q)"
  by (simp add: close_conn_def split: option.splits)

end
