(* ===== verification/Discovery.thy ===== *)
theory Discovery
  imports Ebc_Types
begin

text \<open>
  \<open>network/discovery.py\<close>: the list of known peers, oldest first, without mDNS.  Which URLs
  \<open>validate_peer_url\<close> accepts depends on name resolution and is the argument \<open>ok\<close>.
\<close>

type_synonym known_peers = "string list"

text \<open>
  The loop that removes the oldest entries beyond the limit; below zero it runs on and asks
  an empty dict for its first key.
\<close>

definition evict :: "int \<Rightarrow> known_peers \<Rightarrow> known_peers \<times> unit res" where
  "evict limit known =
     (if limit < 0 then ([], Inl StopIteration)
      else (drop (length known - nat limit) known, Inr ()))"

definition add_peer ::
    "(string \<Rightarrow> bool) \<Rightarrow> string \<Rightarrow> int \<Rightarrow> string \<Rightarrow> known_peers \<Rightarrow> known_peers \<times> unit res" where
  "add_peer ok local limit url known =
     (if url = [] \<or> url = local then (known, Inr ())
      else if \<not> ok url then (known, Inr ())
      else evict limit (removeAll url known @ [url]))"

fun add_each ::
    "(string \<Rightarrow> bool) \<Rightarrow> string \<Rightarrow> int \<Rightarrow> string list \<Rightarrow> known_peers \<Rightarrow> known_peers \<times> unit res" where
  "add_each ok local limit [] known = (known, Inr ())"
| "add_each ok local limit (url # urls) known =
     (case add_peer ok local limit url known of
        (known', Inl e) \<Rightarrow> (known', Inl e)
      | (known', Inr _) \<Rightarrow> add_each ok local limit urls known')"

definition add_peers ::
    "(string \<Rightarrow> bool) \<Rightarrow> string \<Rightarrow> peer_connect_settings \<Rightarrow> string list \<Rightarrow> known_peers
     \<Rightarrow> known_peers \<times> unit res" where
  "add_peers ok local st urls known =
     add_each ok local (pc_max_known_peers st) (slice_upto urls (pc_max_peers_per_message st)) known"

text \<open>The property \<open>known_peers\<close>: sorted, without the node's own URL.\<close>

definition peer_list :: "string \<Rightarrow> known_peers \<Rightarrow> string list" where
  "peer_list local known = filter (\<lambda>p. p \<noteq> local) (sort known)"

section \<open>Facts\<close>

definition known_ok :: "(string \<Rightarrow> bool) \<Rightarrow> string \<Rightarrow> int \<Rightarrow> known_peers \<Rightarrow> bool" where
  "known_ok ok local limit known =
     (distinct known \<and> length known \<le> nat limit \<and> list_all (\<lambda>u. ok u \<and> u \<noteq> [] \<and> u \<noteq> local) known)"

lemma add_peer_known_ok:
  "known_ok ok local n known \<Longrightarrow> known_ok ok local n (fst (add_peer ok local n url known))"
  by (auto simp: known_ok_def add_peer_def evict_def distinct_removeAll list_all_iff dest!: in_set_dropD)

lemma add_each_known_ok:
  "known_ok ok local n known \<Longrightarrow> known_ok ok local n (fst (add_each ok local n urls known))"
proof (induction urls arbitrary: known)
  case (Cons url urls)
  from add_peer_known_ok [OF Cons.prems, of url] Cons.IH show ?case
    by (auto split: prod.splits sum.splits)
qed simp

lemma add_peers_known_ok:
  "known_ok ok local (pc_max_known_peers st) known \<Longrightarrow>
   known_ok ok local (pc_max_known_peers st) (fst (add_peers ok local st urls known))"
  by (simp add: add_peers_def add_each_known_ok)

text \<open>A URL that passes is known afterwards, as the newest one.\<close>

lemma add_peer_known:
  "0 < n \<Longrightarrow> ok url \<Longrightarrow> url \<noteq> [] \<Longrightarrow> url \<noteq> local \<Longrightarrow>
   last (fst (add_peer ok local n url known)) = url \<and> fst (add_peer ok local n url known) \<noteq> []"
  by (auto simp: add_peer_def evict_def)

end
