(* ===== verification/Transitions.thy ===== *)
theory Transitions
  imports Prelude
begin

text \<open>
  Runs of a labelled step relation, and the contract of an inductive invariant: a predicate
  that every step keeps holds along every run.
\<close>

inductive run :: "('s \<Rightarrow> 'e \<Rightarrow> 's \<Rightarrow> bool) \<Rightarrow> 's \<Rightarrow> 'e list \<Rightarrow> 's \<Rightarrow> bool" for step where
  run_start: "run step s [] s"
| run_step: "run step s es t \<Longrightarrow> step t e u \<Longrightarrow> run step s (es @ [e]) u"

lemma run_one: "step s e t \<Longrightarrow> run step s [e] t"
  using run.run_step [OF run.run_start, of step s e t] by simp

lemma run_more: "run step s es t \<Longrightarrow> step t e u \<Longrightarrow> es' = es @ [e] \<Longrightarrow> run step s es' u"
  by (simp add: run.run_step)

inductive_cases run_snocE: "run step s (es @ [e]) u"

locale inductive_invariant =
  fixes step :: "'s \<Rightarrow> 'e \<Rightarrow> 's \<Rightarrow> bool"
    and inv :: "'s \<Rightarrow> bool"
  assumes keeps: "inv s \<Longrightarrow> step s e t \<Longrightarrow> inv t"
begin

lemma holds: "run step s es t \<Longrightarrow> inv s \<Longrightarrow> inv t"
  by (induction rule: run.induct) (auto intro: keeps)

text \<open>A property of the steps taken, given the invariant before each of them.\<close>

lemma each_step:
  assumes "run step s es t" "inv s" "\<And>u e v. inv u \<Longrightarrow> step u e v \<Longrightarrow> P u e v"
  shows "\<forall>pre e post. es = pre @ e # post \<longrightarrow> (\<exists>u v. run step s pre u \<and> step u e v \<and> P u e v)"
  using assms(1,2)
proof (induction rule: run.induct)
  case (run_step s es t e u)
  show ?case
  proof (intro allI impI)
    fix pre e' post assume eq: "es @ [e] = pre @ e' # post"
    show "\<exists>u v. run step s pre u \<and> step u e' v \<and> P u e' v"
    proof (cases post rule: rev_cases)
      case Nil
      with eq have "pre = es" "e' = e" by simp_all
      with run_step holds [OF run_step.hyps(1)] assms(3) show ?thesis by blast
    next
      case (snoc post' x)
      with eq have "es = pre @ e' # post'" by simp
      with run_step show ?thesis by blast
    qed
  qed
qed simp

end

end
