(* ===== verification/Node_Sync.thy ===== *)
theory Node_Sync
  imports Block_Chain Messages
begin

text \<open>
  \<open>network/node.py\<close>, the parts of chain synchronisation that read and make messages: the
  interpretation of the numbers in a GET_CHAIN request, the answer to one, the session that
  collects the batches of a CHAIN_RESPONSE, and the choice between the local chain and what a
  session or an unsolicited response brought.
\<close>

section \<open>Numbers from the network\<close>

text \<open>\<open>d.get(k)\<close> of a dict.\<close>

definition dict_get :: "pydict \<Rightarrow> string \<Rightarrow> pyval" where
  "dict_get d k = (case map_of d k of None \<Rightarrow> PNone | Some v \<Rightarrow> v)"

text \<open>\<open>int(v)\<close>, with a default for a value that has none.\<close>

definition int_or :: "int \<Rightarrow> pyval \<Rightarrow> int" where
  "int_or d v = (case py_int v of Inr n \<Rightarrow> n | Inl _ \<Rightarrow> d)"

definition resolve_get_chain_batch_size :: "pyval \<Rightarrow> int \<Rightarrow> int" where
  "resolve_get_chain_batch_size limit_raw max_batch =
     (let requested = (if limit_raw \<noteq> PNone then int_or max_batch limit_raw else max_batch)
      in max 1 (min requested max_batch))"

definition resolve_get_chain_from_height :: "pyval \<Rightarrow> int" where
  "resolve_get_chain_from_height v =
     (if v = PNone then 1
      else case py_int v of
        Inl _ \<Rightarrow> 1
      | Inr requested \<Rightarrow> if requested < 1 then 1 else requested)"

definition resolve_chain_height :: "pyval \<Rightarrow> int \<Rightarrow> int" where
  "resolve_chain_height v dflt =
     (if v = PNone then dflt
      else case py_int v of
        Inl _ \<Rightarrow> dflt
      | Inr requested \<Rightarrow> if requested < 0 then 0 else requested)"

definition resolve_get_chain_next_height :: "pyval \<Rightarrow> int \<Rightarrow> int" where
  "resolve_get_chain_next_height v dflt =
     (if v = PNone then dflt
      else case py_int v of
        Inl _ \<Rightarrow> dflt
      | Inr requested \<Rightarrow> if requested < 1 then 1 else requested)"

section \<open>Answering a request\<close>

definition get_chain_request :: "int \<Rightarrow> int \<Rightarrow> string \<Rightarrow> pydict" where
  "get_chain_request from_height batch node_id =
     [(''from_height'', PInt from_height), (''limit'', PInt batch), (''requester'', PStr node_id)]"

definition chain_response :: "int \<Rightarrow> string \<Rightarrow> blockchain \<Rightarrow> pydict \<Rightarrow> pydict" where
  "chain_response max_batch node_id bc payload =
     (let from_height = resolve_get_chain_from_height (dict_get payload ''from_height'');
          batch_size = resolve_get_chain_batch_size (dict_get payload ''limit'') max_batch;
          blocks = get_blocks_from bc from_height (Some batch_size);
          next_height = from_height + int (length blocks);
          total_height = int (length (bc_chain bc));
          has_more = (int (length blocks) = batch_size \<and> next_height \<le> total_height)
      in [(''blocks'', PList blocks), (''from_height'', PInt from_height),
          (''next_height'', PInt next_height), (''has_more'', PBool has_more),
          (''node_id'', PStr node_id)])"

section \<open>Sessions\<close>

record session =
  ss_blocks :: "block list"
  ss_done :: bool
  ss_expected :: int
  ss_prev :: pyval
  ss_bytes :: int

text \<open>
  A session for the chain \<open>ch\<close>.  Reading the hash of the tip can raise.
\<close>

definition new_session :: "chain \<Rightarrow> session res" where
  "new_session ch =
     (let s = \<lparr>ss_blocks = [], ss_done = False, ss_expected = int (length ch) + 1,
               ss_prev = PNone, ss_bytes = 0\<rparr>
      in if ch = [] then Inr s
         else bindE (header_item (last ch) ''tran_hash'') (\<lambda>t. Inr (s\<lparr>ss_prev := t\<rparr>)))"

text \<open>
  The loop over the blocks of a batch: the hash the next block has to name, or nothing when a
  block does not continue the sequence.
\<close>

definition batch_block :: "int \<Rightarrow> pyval \<Rightarrow> pyval \<Rightarrow> pyval option" where
  "batch_block index previous_hash b =
     (case b of
        PDict items \<Rightarrow>
          (case (dict_get items ''block_index'', dict_get items ''block_header'') of
             (PInt n, PDict header) \<Rightarrow>
               (case (dict_get header ''tran_hash'', dict_get header ''prev_hash'') of
                  (PStr t, PStr p) \<Rightarrow>
                    if n \<noteq> index \<or> (previous_hash \<noteq> PNone \<and> \<not> py_eq (PStr p) previous_hash)
                    then None else Some (PStr t)
                | _ \<Rightarrow> None)
           | _ \<Rightarrow> None)
      | _ \<Rightarrow> None)"

fun batch_tip :: "int \<Rightarrow> pyval \<Rightarrow> pyval list \<Rightarrow> pyval option" where
  "batch_tip index previous_hash [] = Some previous_hash"
| "batch_tip index previous_hash (b # bs) =
     (case batch_block index previous_hash b of
        None \<Rightarrow> None
      | Some h \<Rightarrow> batch_tip (index + 1) h bs)"

text \<open>\<open>len(json.dumps(blocks).encode("utf-8"))\<close>.\<close>

definition batch_bytes :: "pyval list \<Rightarrow> int" where
  "batch_bytes blocks = int (length (utf8_encode (json_dumps (PList blocks))))"

definition accept_chain_batch :: "network_settings \<Rightarrow> session \<Rightarrow> pydict \<Rightarrow> session option" where
  "accept_chain_batch nw s payload =
     (let has_more = (case map_of payload ''has_more'' of None \<Rightarrow> PBool False | Some v \<Rightarrow> v) in
      case (dict_get payload ''blocks'', has_more, dict_get payload ''from_height'',
            dict_get payload ''next_height'') of
        (PList blocks, PBool again, PInt from_height, PInt next_height) \<Rightarrow>
          if from_height \<noteq> ss_expected s
             \<or> next_height \<noteq> from_height + int (length blocks)
             \<or> (again \<and> blocks = [])
             \<or> nw_chain_sync_batch_size nw < int (length blocks)
             \<or> nw_chain_sync_max_blocks nw < int (length (ss_blocks s)) + int (length blocks)
          then None
          else (case batch_tip from_height (ss_prev s) blocks of
              None \<Rightarrow> None
            | Some tip \<Rightarrow>
                if nw_chain_sync_max_bytes nw < ss_bytes s + batch_bytes blocks then None
                else Some (s\<lparr>ss_blocks := ss_blocks s @ blocks, ss_expected := next_height,
                             ss_prev := tip, ss_bytes := ss_bytes s + batch_bytes blocks\<rparr>))
      | _ \<Rightarrow> None)"

text \<open>
  A CHAIN_RESPONSE for a session: what becomes of the session, and whether the answer is
  dropped, refused (the connection is closed), to be followed by another request, or the last.
\<close>

datatype batch_answer = Ignored | Refused | Again | Complete

definition take_batch :: "network_settings \<Rightarrow> session \<Rightarrow> pydict \<Rightarrow> session \<times> batch_answer" where
  "take_batch nw s payload =
     (if ss_done s then (s, Ignored)
      else case accept_chain_batch nw s payload of
          None \<Rightarrow> (s\<lparr>ss_blocks := [], ss_done := True\<rparr>, Refused)
        | Some s' \<Rightarrow>
            if dict_get payload ''has_more'' = PBool True then (s', Again)
            else (s'\<lparr>ss_done := True\<rparr>, Complete))"

section \<open>Choosing between chains\<close>

text \<open>\<open>block["block_header"].get(k)\<close>.\<close>

definition header_get :: "block \<Rightarrow> string \<Rightarrow> pyval res" where
  "header_get b k = bindE (getitem b ''block_header'') (\<lambda>h. get_default h k PNone)"

definition join_chain_suffix :: "chain \<Rightarrow> chain \<Rightarrow> chain option res" where
  "join_chain_suffix local suffix =
     bindE (py_first suffix) (\<lambda>b.
     bindE (header_get b ''prev_hash'') (\<lambda>p.
     bindE (py_last local) (\<lambda>tip.
     bindE (header_get tip ''tran_hash'') (\<lambda>t.
     Inr (if \<not> py_eq p t then None else Some (local @ suffix))))))"

text \<open>
  The chain \<open>_resolve_fork\<close> decides for, if it differs from the local one.  Python takes
  identical objects for equal when it compares lists; the local chain is the first candidate
  and, if chosen, is returned itself.
\<close>

definition fork_choice ::
    "rsa_library \<Rightarrow> stakes \<Rightarrow> blockchain \<Rightarrow> chain \<Rightarrow> chain option res" where
  "fork_choice L stakes bc remote =
     (let local = bc_chain bc in
      if remote = [] then Inr None
      else bindE (if local = [] then Inr remote
             else bindE (join_chain_suffix local remote) (\<lambda>j.
               Inr (case j of Some joined \<Rightarrow> joined | None \<Rightarrow> remote))) (\<lambda>candidate.
      case bc_consensus bc of
        None \<Rightarrow> Inl AttributeError
      | Some c \<Rightarrow>
          bindE (c_select_canonical_chain L c (Some stakes)
              (if local = [] then [candidate] else [local, candidate])) (\<lambda>canonical.
          Inr (if canonical \<noteq> [] \<and> canonical \<noteq> local \<and> \<not> py_eq (PList canonical) (PList local)
               then Some canonical else None))))"

text \<open>\<open>_resolve_fork\<close>: the chain, whether it was replaced, or an exception.\<close>

definition resolve_fork ::
    "rsa_library \<Rightarrow> stakes \<Rightarrow> chain \<Rightarrow> blockchain \<Rightarrow> blockchain \<times> bool res" where
  "resolve_fork L stakes remote bc =
     (case fork_choice L stakes bc remote of
        Inl e \<Rightarrow> (bc, Inl e)
      | Inr None \<Rightarrow> (bc, Inr False)
      | Inr (Some canonical) \<Rightarrow> replace_chain L canonical (Some stakes) bc)"


section \<open>Candidates and the verification of whole chains\<close>

text \<open>The validity test and the score by which \<open>select_canonical_chain\<close> chooses.\<close>

definition candidate_valid :: "rsa_library \<Rightarrow> consensus_obj \<Rightarrow> stakes \<Rightarrow> chain \<Rightarrow> bool res" where
  "candidate_valid L c stakes ch =
     (case c of
        PowC pw \<Rightarrow> pow_is_chain_valid (pw_settings pw) (pw_genesis_prev_hash pw) ch
      | PosC po \<Rightarrow> pos_candidate_valid L po (Some stakes) ch)"

definition candidate_score :: "consensus_obj \<Rightarrow> stakes \<Rightarrow> chain \<Rightarrow> chain_score res" where
  "candidate_score c stakes ch =
     (case c of PowC pw \<Rightarrow> pow_score_chain ch | PosC po \<Rightarrow> pos_score po (Some stakes) ch)"

lemma select_chosen:
  assumes "c_select_canonical_chain L c (Some stakes) cs = Inr ch"
  shows "(filter (\<lambda>x. candidate_valid L c stakes x = Inr True) cs = [] \<and> ch = []) \<or>
    chosen (candidate_score c stakes) (filter (\<lambda>x. candidate_valid L c stakes x = Inr True) cs) ch"
proof (cases c)
  case (PowC pw)
  with assms obtain vs where vs: "filterE (pow_is_chain_valid (pw_settings pw) (pw_genesis_prev_hash pw)) cs = Inr vs"
    and "(if vs = [] then Inr [] else best_chain pow_score_chain vs) = Inr ch"
    by (auto simp: pow_select_canonical_chain_def bindE_eq_Inr)
  then show ?thesis using filterE_Inr [OF vs] best_chain_chosen PowC
    by (auto simp: candidate_valid_def candidate_score_def [abs_def] split: if_splits)
next
  case (PosC po)
  with assms obtain vs where vs: "filterE (pos_candidate_valid L po (Some stakes)) cs = Inr vs"
    and "(if vs = [] then Inr [] else best_chain (pos_score po (Some stakes)) vs) = Inr ch"
    by (auto simp: pos_select_canonical_chain_def bindE_eq_Inr)
  then show ?thesis using filterE_Inr [OF vs] best_chain_chosen PosC
    by (auto simp: candidate_valid_def candidate_score_def [abs_def] split: if_splits)
qed

lemma link_fault_own_genesis:
  assumes "own_genesis c = g"
  shows "link_fault (Some c) g prev b = Inr None \<longleftrightarrow> c_validate_link c b prev g = Inr accepted"
  using assms
  by (cases prev)
    (auto simp: link_fault_def answers_None genesis_fault_None first_index_fault_None
      c_validate_link_def validate_chain_link_first expected_genesis_def)

lemma position_fault_consensus:
  assumes "own_genesis c = g"
  shows "position_fault L (Some c) g before b = Inr None \<longleftrightarrow>
    c_validate_link c b (prev_of before) g = Inr accepted \<and> c_validate_block L c b before = Inr accepted"
proof -
  have "content_fault L (Some c) before b = Inr None \<longleftrightarrow> c_validate_block L c b before = Inr accepted"
    using content_fault_consensus by (auto simp: content_fault_def bindE_eq_Inr answers_None)
  then show ?thesis by (simp add: position_fault_def link_fault_own_genesis [OF assms])
qed

lemma pow_candidate_verifies:
  assumes g: "pw_genesis_prev_hash pw = g"
  shows "pow_chain_valid_from (pw_settings pw) g before bs = Inr True \<longleftrightarrow>
    verify_from L (Some (PowC pw)) g before bs = Inr chain_ok"
proof (induction bs arbitrary: before)
  case (Cons b bs)
  let ?link = "validate_chain_link g b (prev_of before) (Some g)"
  have own: "own_genesis (PowC pw) = g" using g by simp
  have pos: "position_fault L (Some (PowC pw)) g before b = Inr None \<longleftrightarrow>
      ?link = Inr accepted \<and> pow_validate_block (pw_settings pw) b before = Inr accepted"
    using position_fault_consensus [OF own, of L before b] g by (simp add: c_validate_link_def)
  have "pow_chain_valid_from (pw_settings pw) g before (b # bs) = Inr True \<longleftrightarrow>
      ?link = Inr accepted \<and> pow_validate_block (pw_settings pw) b before = Inr accepted \<and>
      pow_chain_valid_from (pw_settings pw) g (before @ [b]) bs = Inr True"
    by (simp add: prev_of_def check_then [OF validate_chain_link_valid] check_then [OF pow_valid_answer])
  moreover have "verify_from L (Some (PowC pw)) g before (b # bs) = Inr chain_ok \<longleftrightarrow>
      position_fault L (Some (PowC pw)) g before b = Inr None \<and>
      verify_from L (Some (PowC pw)) g (before @ [b]) bs = Inr chain_ok"
    by (auto simp: bindE_eq_Inr split: option.splits)
  ultimately show ?case using pos Cons.IH by simp
qed simp

lemma stake_position_iff:
  assumes "po_genesis_prev_hash po = g"
  shows "stake_position_fault L po g full vs before b = Inr None \<longleftrightarrow>
    validate_chain_link g b (prev_of before) (Some g) = Inr accepted \<and>
    pos_validate_block L po (Some vs) (Some (int (length before) + 1)) b full = Inr accepted"
  using assms
  by (cases "prev_of before")
    (auto simp: stake_position_fault_def answers_None c_validate_link_def genesis_fault_None
      validate_chain_link_first expected_genesis_def)

lemma pos_candidate_verifies:
  assumes g: "po_genesis_prev_hash po = g"
  shows "genesis_stakes_loop L po g full vs (int (length before) + 1) (prev_of before) bs = Inr True \<longleftrightarrow>
    verify_stakes_from L po g full vs before bs = Inr chain_ok"
proof (induction bs arbitrary: before vs)
  case (Cons b bs)
  let ?link = "validate_chain_link g b (prev_of before) (Some g)"
  let ?val = "pos_validate_block L po (Some vs) (Some (int (length before) + 1)) b full"
  have step: "int (length before) + 1 + 1 = int (length (before @ [b])) + 1" "Some b = prev_of (before @ [b])"
    by (simp_all add: prev_of_def)
  have "genesis_stakes_loop L po g full vs (int (length before) + 1) (prev_of before) (b # bs) = Inr True \<longleftrightarrow>
      ?link = Inr accepted \<and> ?val = Inr accepted \<and>
      (\<exists>vs'. apply_block_reward (po_settings po) vs b = Inr vs' \<and>
        genesis_stakes_loop L po g full vs' (int (length (before @ [b])) + 1) (prev_of (before @ [b])) bs = Inr True)"
    unfolding genesis_stakes_loop.simps step g
    by (simp add: check_then [OF validate_chain_link_valid] check_then [OF pos_valid_answer])
      (simp add: bindE_eq_Inr)
  moreover have "verify_stakes_from L po g full vs before (b # bs) = Inr chain_ok \<longleftrightarrow>
      stake_position_fault L po g full vs before b = Inr None \<and>
      (\<exists>vs'. apply_block_reward (po_settings po) vs b = Inr vs' \<and>
        verify_stakes_from L po g full vs' (before @ [b]) bs = Inr chain_ok)"
    by (auto simp: bindE_eq_Inr split: option.splits)
  moreover have "genesis_stakes_loop L po g full v (2 + int (length before)) (prev_of (before @ [b])) bs = Inr True
      \<longleftrightarrow> verify_stakes_from L po g full v (before @ [b]) bs = Inr chain_ok" for v
    using Cons.IH [of v "before @ [b]"] by simp
  ultimately show ?case using stake_position_iff [OF g, of L full vs before b] by simp
qed simp

lemma candidate_verifies:
  assumes "own_genesis c = g"
  shows "candidate_valid L c stakes ch = Inr True \<longleftrightarrow>
    verify_chain_integrity L ch (Some c) g (Some stakes) = Inr chain_ok"
proof (cases c)
  case (PowC pw)
  with assms show ?thesis using pow_candidate_verifies [of pw g "[]" ch L]
    by (simp add: candidate_valid_def pow_is_chain_valid_def verify_chain_integrity_def)
next
  case (PosC po)
  with assms show ?thesis using pos_candidate_verifies [of po g L ch stakes "[]" ch]
    by (simp add: candidate_valid_def pos_candidate_valid_def validate_chain_with_genesis_stakes_def
        verify_chain_integrity_def expected_genesis_def prev_of_def)
qed

text \<open>
  C22: The two verifications of a whole chain agree: a chain is a valid candidate of the fork
  choice exactly when \<open>verify_chain_integrity\<close> accepts it, for either consensus.
\<close>

theorem candidate_validity_agrees:
  assumes "configured bc (Some stakes)" "bc_consensus bc = Some c"
  shows "candidate_valid L c stakes ch = Inr True \<longleftrightarrow>
    verify_chain_integrity L ch (Some c) (bc_genesis_prev_hash bc) (Some stakes) = Inr chain_ok"
  using assms
  by (intro candidate_verifies) (auto simp: configured_def split: consensus_obj.splits)

theorem candidate_validity_agrees_witness:
  "verify_chain_integrity sample_rsa [sample_block]
     (Some (PowC \<lparr>pw_settings = sample_pow, pw_genesis_prev_hash = ''1''\<rparr>)) ''1'' (Some []) = Inr chain_ok"
  using candidate_validity_agrees [of
      "new_blockchain False (Some (PowC \<lparr>pw_settings = sample_pow, pw_genesis_prev_hash = ''1''\<rparr>)) ''1''"
      "[]" _ sample_rsa "[sample_block]"]
  by (simp add: configured_def new_blockchain_def candidate_valid_def sample_chain_valid)

section \<open>Fork resolution\<close>

text \<open>What the sync puts beside the local chain: the joined chain, or the fragment itself.\<close>

definition fork_candidate :: "chain \<Rightarrow> chain \<Rightarrow> chain \<Rightarrow> bool" where
  "fork_candidate local remote ch =
     (ch = remote \<or> (local \<noteq> [] \<and> ch = local @ remote))"

lemma fork_choice_Some:
  assumes "fork_choice L stakes bc remote = Inr (Some ch)" "bc_consensus bc = Some c"
  obtains candidate where "fork_candidate (bc_chain bc) remote candidate"
    "c_select_canonical_chain L c (Some stakes)
       (if bc_chain bc = [] then [candidate] else [bc_chain bc, candidate]) = Inr ch"
    "ch \<noteq> []" "ch \<noteq> bc_chain bc"
proof -
  from assms obtain candidate where
    c1: "(if bc_chain bc = [] then Inr remote
       else bindE (join_chain_suffix (bc_chain bc) remote) (\<lambda>j.
         Inr (case j of Some joined \<Rightarrow> joined | None \<Rightarrow> remote))) = Inr candidate"
    and c2: "c_select_canonical_chain L c (Some stakes)
       (if bc_chain bc = [] then [candidate] else [bc_chain bc, candidate]) = Inr ch"
    and c3: "ch \<noteq> []" "ch \<noteq> bc_chain bc"
    by (auto simp: fork_choice_def Let_def bindE_eq_Inr simp del: py_eq.simps split: if_splits)
  have "fork_candidate (bc_chain bc) remote candidate"
    using c1 by (auto simp: fork_candidate_def join_chain_suffix_def bindE_eq_Inr simp del: py_eq.simps
        split: if_splits)
  with c2 c3 that show ?thesis by blast
qed

text \<open>
  C21: The local chain is only ever replaced by a chain that verifies, that is the fragment
  received or the local chain extended by it, and whose score is strictly greater.
\<close>

theorem fork_only_to_better:
  assumes "verified_state L (Some stakes) bc" "bc_consensus bc = Some c"
    and "resolve_fork L stakes remote bc = (bc', r)" "bc' \<noteq> bc"
  shows "verified_state L (Some stakes) bc' \<and>
    fork_candidate (bc_chain bc) remote (bc_chain bc') \<and>
    (bc_chain bc = [] \<or> (\<exists>k k'. candidate_score c stakes (bc_chain bc) = Inr k \<and>
       candidate_score c stakes (bc_chain bc') = Inr k' \<and> k < k'))"
proof -
  from assms(3,4) obtain ch where ch: "fork_choice L stakes bc remote = Inr (Some ch)"
    and rep: "replace_chain L ch (Some stakes) bc = (bc', r)"
    by (auto simp: resolve_fork_def split: sum.splits option.splits)
  have ver: "verified_state L (Some stakes) bc'" "bc_chain bc' = ch"
    using replace_chain_verified [OF assms(1) rep] assms(4) by auto
  obtain candidate where cand: "fork_candidate (bc_chain bc) remote candidate"
    and sel: "c_select_canonical_chain L c (Some stakes)
       (if bc_chain bc = [] then [candidate] else [bc_chain bc, candidate]) = Inr ch"
    and ne: "ch \<noteq> []" "ch \<noteq> bc_chain bc"
    using fork_choice_Some [OF ch assms(2)] by blast
  have cfg: "configured bc (Some stakes)" using assms(1) by (simp add: verified_state_def)
  then have own: "own_genesis c = bc_genesis_prev_hash bc"
    using assms(2) by (auto simp: configured_def split: consensus_obj.splits)
  have local: "candidate_valid L c stakes (bc_chain bc) = Inr True"
    using assms(1,2) candidate_verifies [OF own, of L stakes "bc_chain bc"]
    by (simp add: verified_state_def verify_chain_def)
  let ?cs = "if bc_chain bc = [] then [candidate] else [bc_chain bc, candidate]"
  have chosen: "chosen (candidate_score c stakes) (filter (\<lambda>x. candidate_valid L c stakes x = Inr True) ?cs) ch"
    using select_chosen [OF sel] ne by auto
  then have "ch \<in> set ?cs" using chosen_in by fastforce
  then have eq: "ch = candidate" using ne by (auto split: if_splits)
  have "\<exists>k k'. candidate_score c stakes (bc_chain bc) = Inr k \<and>
       candidate_score c stakes ch = Inr k' \<and> k < k'" if "bc_chain bc \<noteq> []"
  proof -
    have "chosen (candidate_score c stakes) (bc_chain bc # filter (\<lambda>x. candidate_valid L c stakes x = Inr True) [candidate]) ch"
      using chosen that local by simp
    then obtain i k where i: "ch = (bc_chain bc # filter (\<lambda>x. candidate_valid L c stakes x = Inr True) [candidate]) ! i"
      "candidate_score c stakes ch = Inr k"
      and less: "\<exists>k'. candidate_score c stakes (bc_chain bc) = Inr k' \<and> (0 < i \<longrightarrow> k' < k)"
      unfolding chosen_def by fastforce
    have "0 < i" using i(1) ne(2) by (cases i) auto
    with i less show ?thesis by blast
  qed
  with ver cand eq show ?thesis by blast
qed

text \<open>An empty chain that a valid block of the network replaces.\<close>

lemma sample_chain_verified: "verified_state L (Some []) sample_pow_chain"
  by (simp add: verified_state_def verify_chain_def configured_def sample_pow_chain_facts)

lemma sample_fork:
  "resolve_fork L [] [sample_block] sample_pow_chain = (sample_pow_chain\<lparr>bc_chain := [sample_block]\<rparr>, Inr True)"
proof -
  have "pow_score_chain [sample_block] = Inr (Score 1 1 [])" by code_simp
  then have "fork_choice L [] sample_pow_chain [sample_block] = Inr (Some [sample_block])"
    by (simp add: fork_choice_def sample_pow_chain_facts pow_select_canonical_chain_def sample_chain_valid best_chain_def py_max_by_def)
  moreover have "verify_chain_integrity L [sample_block] (bc_consensus sample_pow_chain) ''1'' (Some []) = Inr chain_ok"
    using candidate_verifies [of "PowC \<lparr>pw_settings = sample_pow, pw_genesis_prev_hash = ''1''\<rparr>"
        "''1''" L "[]" "[sample_block]"]
    by (simp add: candidate_valid_def sample_chain_valid sample_pow_chain_facts)
  ultimately show ?thesis by (simp add: resolve_fork_def replace_chain_def sample_pow_chain_facts)
qed

theorem fork_only_to_better_witness:
  "verified_state sample_rsa (Some []) (sample_pow_chain\<lparr>bc_chain := [sample_block]\<rparr>)"
proof -
  have "sample_pow_chain\<lparr>bc_chain := [sample_block]\<rparr> \<noteq> sample_pow_chain"
    using sample_pow_chain_facts(2) by (metis blockchain.select_convs(1) blockchain.surjective
        blockchain.update_convs(1) list.distinct(1))
  then show ?thesis
    using fork_only_to_better [OF sample_chain_verified sample_pow_chain_facts(3) sample_fork] by blast
qed

end
