(* ===== verification/Chain_Exchange.thy ===== *)
theory Chain_Exchange
  imports Node_Sync
begin

text \<open>
  The exchange of chains as a whole: the requests of one node, the answers of another, the JSON
  text in between, and the session that collects the blocks.  A node that follows another chain
  of which it holds a prefix receives exactly the missing blocks, in at most as many rounds as
  blocks are missing, as long as they stay within the limits of a session.
\<close>

section \<open>Rounds\<close>

text \<open>What the receiver of a message sees.\<close>

definition deliver :: "message_type \<Rightarrow> pydict \<Rightarrow> pydict option" where
  "deliver t payload =
     (case decode_message (encode_message t payload) of
        Inl _ \<Rightarrow> None
      | Inr (t', received) \<Rightarrow> if t' = t then Some received else None)"

fun exchange ::
    "nat \<Rightarrow> network_settings \<Rightarrow> string \<Rightarrow> int \<Rightarrow> string \<Rightarrow> blockchain \<Rightarrow> session \<Rightarrow> session" where
  "exchange 0 nw me batch other bc s = s"
| "exchange (Suc n) nw me batch other bc s =
     (case deliver GET_CHAIN (get_chain_request (ss_expected s) (nw_chain_sync_batch_size nw) me) of
        None \<Rightarrow> s
      | Some request \<Rightarrow>
          (case deliver CHAIN_RESPONSE (chain_response batch other bc request) of
             None \<Rightarrow> s
           | Some response \<Rightarrow>
               (case take_batch nw s response of
                  (s', Again) \<Rightarrow> exchange n nw me batch other bc s'
                | (s', _) \<Rightarrow> s')))"

section \<open>Numbers and sizes\<close>

lemma json_plain_int: "\<bar>n\<bar> < 10 ^ 20 \<Longrightarrow> json_plain (PInt n)"
  using show_nat_length [of "nat \<bar>n\<bar>" 20] by (simp add: nat_less_iff)

text \<open>The size of a batch is the sum over its blocks of their size and the separator.\<close>

definition block_cost :: "block \<Rightarrow> int" where
  "block_cost b = int (length (utf8_encode (json_dumps b))) + 2"

lemma utf8_encode_append: "utf8_encode (s @ t) = utf8_encode s @ utf8_encode t"
  by (simp add: utf8_encode_def)

lemma join_cost:
  "xs \<noteq> [] \<Longrightarrow>
   int (length (utf8_encode (join '', '' (map json_dumps xs)))) + 2 = sum_list (map block_cost xs)"
proof (induction xs)
  case (Cons x xs)
  have "utf8_encode (CHR '','' # CHR '' '' # t) = '', '' @ utf8_encode t" for t
    by (simp add: utf8_encode_def utf8_char_def)
  with Cons show ?case
    by (cases xs) (simp_all add: utf8_encode_append block_cost_def)
qed simp

lemma batch_bytes_cost: "xs \<noteq> [] \<Longrightarrow> batch_bytes xs = sum_list (map block_cost xs)"
  using join_cost [of xs]
  by (simp add: batch_bytes_def json_dumps_def [abs_def] utf8_encode_append)
    (simp add: utf8_encode_def utf8_char_def)

section \<open>Answers and batches\<close>

lemma deliver_plain:
  assumes "json_plain (PDict payload)" "''type'' \<notin> fst ` set payload"
  shows "deliver t payload = Some (sorted_payload payload)"
  using decode_encode_message [OF assms] by (simp add: deliver_def)

lemma dict_get_sorted:
  "distinct (map fst payload) \<Longrightarrow> dict_get (sorted_payload payload) k = sort_keys (dict_get payload k)"
  by (simp add: dict_get_def map_of_sorted_payload split: option.splits)

lemma batch_block_sort_keys:
  assumes "json_plain b"
  shows "batch_block i p (sort_keys b) = batch_block i p b"
proof (cases b)
  case (PDict items)
  with assms have d: "distinct (map fst items)" by simp
  show ?thesis
  proof (cases "dict_get items ''block_header''")
    case (PDict header)
    with assms \<open>b = PDict items\<close> have h: "distinct (map fst header)"
      by (auto simp: dict_get_def list_all_iff dest!: map_of_SomeD split: option.splits)
    have "batch_block i p (sort_keys b) = batch_block i p b"
      if "dict_get items ''block_index'' = v" "dict_get header ''tran_hash'' = t"
        "dict_get header ''prev_hash'' = q" for v t q
      using that unfolding \<open>b = PDict items\<close> sort_keys_PDict batch_block_def
      by (cases v; cases t; cases q)
        (simp_all add: dict_get_sorted [OF d] dict_get_sorted [OF h] PDict sort_keys_PDict
          del: sort_keys.simps(2))
    then show ?thesis by blast
  qed (use \<open>b = PDict items\<close> in \<open>simp_all add: batch_block_def dict_get_sorted [OF d] sort_keys_PDict
      del: sort_keys.simps(2) split: pyval.split\<close>)
qed (simp_all add: batch_block_def)

lemma batch_tip_sort_keys:
  "list_all json_plain bs \<Longrightarrow> batch_tip i p (map sort_keys bs) = batch_tip i p bs"
  by (induction bs arbitrary: i p) (simp_all add: batch_block_sort_keys split: option.split)

lemma batch_tip_append:
  "batch_tip i p (xs @ ys) =
   (case batch_tip i p xs of None \<Rightarrow> None | Some h \<Rightarrow> batch_tip (i + int (length xs)) h ys)"
  by (induction xs arbitrary: i p) (auto simp: add.assoc split: option.split)

section \<open>A round\<close>

text \<open>What a request delivers, and the answer to it, by their items.\<close>

lemma request_delivered:
  assumes "\<bar>h\<bar> < 10 ^ 20" "\<bar>n\<bar> < 10 ^ 20"
  shows "\<exists>req. deliver GET_CHAIN (get_chain_request h n me) = Some req \<and>
    dict_get req ''from_height'' = PInt h \<and> dict_get req ''limit'' = PInt n"
proof -
  let ?p = "get_chain_request h n me"
  have "json_plain (PDict ?p)" using json_plain_int assms by (simp add: get_chain_request_def)
  then have "deliver GET_CHAIN ?p = Some (sorted_payload ?p)"
    by (rule deliver_plain) (simp add: get_chain_request_def)
  then show ?thesis
    by (simp add: dict_get_sorted get_chain_request_def) (simp add: dict_get_def)
qed

definition answer_blocks :: "int \<Rightarrow> int \<Rightarrow> chain \<Rightarrow> int \<Rightarrow> chain" where
  "answer_blocks batch n ch h = take (nat (max 1 (min n batch))) (drop (nat (h - 1)) ch)"

lemma response_delivered:
  assumes "dict_get req ''from_height'' = PInt h" "dict_get req ''limit'' = PInt n" "1 \<le> h"
    and "list_all json_plain (bc_chain bc)"
    and "h + int (length (answer_blocks batch n (bc_chain bc) h)) < 10 ^ 20"
  shows "\<exists>resp. deliver CHAIN_RESPONSE (chain_response batch other bc req) = Some resp \<and>
    (let bs = answer_blocks batch n (bc_chain bc) h in
     map_of resp ''blocks'' = Some (PList (map sort_keys bs)) \<and>
     map_of resp ''from_height'' = Some (PInt h) \<and>
     map_of resp ''next_height'' = Some (PInt (h + int (length bs))) \<and>
     map_of resp ''has_more'' = Some (PBool (int (length bs) = max 1 (min n batch) \<and>
       h + int (length bs) \<le> int (length (bc_chain bc)))))"
proof -
  let ?p = "chain_response batch other bc req"
  let ?bs = "answer_blocks batch n (bc_chain bc) h"
  have "resolve_get_chain_from_height (PInt h) = h" "resolve_get_chain_batch_size (PInt n) batch = max 1 (min n batch)"
    using assms(3) by (simp_all add: resolve_get_chain_from_height_def resolve_get_chain_batch_size_def
        py_int_def int_or_def)
  moreover have "get_blocks_from bc h (Some (max 1 (min n batch))) = ?bs"
    using assms(3) by (simp add: get_blocks_from_def slice_from_def slice_upto_def answer_blocks_def)
  ultimately have p: "?p = [(''blocks'', PList ?bs), (''from_height'', PInt h),
      (''next_height'', PInt (h + int (length ?bs))),
      (''has_more'', PBool (int (length ?bs) = max 1 (min n batch) \<and>
         h + int (length ?bs) \<le> int (length (bc_chain bc)))), (''node_id'', PStr other)]"
    using assms(1,2) by (simp add: chain_response_def Let_def)
  have "list_all json_plain ?bs"
    using assms(4) by (auto simp: answer_blocks_def list_all_iff dest: in_set_takeD in_set_dropD)
  moreover have "json_plain (PInt h)" "json_plain (PInt (h + int (length ?bs)))"
    using assms(3,5) by (intro json_plain_int; simp)+
  ultimately have "json_plain (PDict ?p)" unfolding p by simp
  then have "deliver CHAIN_RESPONSE ?p = Some (sorted_payload ?p)"
    by (rule deliver_plain) (simp add: p)
  then show ?thesis
    by (simp add: Let_def) (simp add: map_of_sorted_payload p)
qed

text \<open>The session that holds the first \<open>k\<close> of the blocks \<open>R\<close> that follow a chain of length \<open>len\<close>.\<close>

definition session_at :: "nat \<Rightarrow> block list \<Rightarrow> nat \<Rightarrow> pyval \<Rightarrow> session" where
  "session_at len R k prev =
     \<lparr>ss_blocks = take k R, ss_done = False, ss_expected = int len + int k + 1, ss_prev = prev,
      ss_bytes = sum_list (map block_cost (take k R))\<rparr>"

lemma sum_costs_take: "sum_list (map block_cost (take k R)) \<le> sum_list (map block_cost R)"
proof -
  have "0 \<le> sum_list (map block_cost (drop k R))" by (rule sum_list_nonneg) (auto simp: block_cost_def)
  moreover have "sum_list (map block_cost R)
      = sum_list (map block_cost (take k R)) + sum_list (map block_cost (drop k R))"
    by (metis append_take_drop_id map_append sum_list.append)
  ultimately show ?thesis by simp
qed

text \<open>The limits of a session leave room for the blocks \<open>R\<close>.\<close>

definition session_room :: "network_settings \<Rightarrow> block list \<Rightarrow> bool" where
  "session_room nw R \<longleftrightarrow>
     int (length R) \<le> nw_chain_sync_max_blocks nw \<and>
     sum_list (map block_cost R) \<le> nw_chain_sync_max_bytes nw"

lemma batch_accepted:
  assumes room: "session_room nw R"
    and m: "0 < m" "k + m \<le> length R" "int m \<le> nw_chain_sync_batch_size nw"
    and tip: "batch_tip (int len + int k + 1) prev (take m (drop k R)) = Some prev'"
    and resp: "map_of resp ''blocks'' = Some (PList (take m (drop k R)))"
      "map_of resp ''from_height'' = Some (PInt (int len + int k + 1))"
      "map_of resp ''next_height'' = Some (PInt (int len + int (k + m) + 1))"
      "map_of resp ''has_more'' = Some (PBool again)"
  shows "take_batch nw (session_at len R k prev) resp =
    (if again then (session_at len R (k + m) prev', Again)
     else ((session_at len R (k + m) prev')\<lparr>ss_done := True\<rparr>, Complete))"
proof -
  let ?bs = "take m (drop k R)"
  have len: "length ?bs = m" "?bs \<noteq> []" using m by auto
  have "take (k + m) R = take k R @ ?bs" by (simp add: take_add)
  then have cost: "sum_list (map block_cost (take k R)) + batch_bytes ?bs
      = sum_list (map block_cost (take (k + m) R))"
    and app: "take k R @ ?bs = take (k + m) R"
    using batch_bytes_cost [OF len(2)] by simp_all
  have "sum_list (map block_cost (take (k + m) R)) \<le> nw_chain_sync_max_bytes nw"
    using room sum_costs_take [of "k + m" R] by (simp add: session_room_def)
  then have "accept_chain_batch nw (session_at len R k prev) resp = Some (session_at len R (k + m) prev')"
    using room m len tip
    by (simp add: accept_chain_batch_def session_at_def dict_get_def resp cost app session_room_def min_def)
  then show ?thesis by (simp add: take_batch_def session_at_def dict_get_def resp)
qed

section \<open>The whole exchange\<close>

text \<open>
  The blocks \<open>S\<close> can be sent after a chain of length \<open>len\<close>: their indices are ints, their hashes
  strings that link them, and their JSON text reads back.
\<close>

definition sendable :: "nat \<Rightarrow> pyval \<Rightarrow> block list \<Rightarrow> bool" where
  "sendable len tip S \<longleftrightarrow>
     batch_tip (int len + 1) tip S \<noteq> None \<and> list_all json_plain S \<and> int len + int (length S) + 1 < 10 ^ 20"

lemma sendable_parts:
  assumes "sendable len tip S" "k + m \<le> length S"
  obtains prev prev' where "batch_tip (int len + 1) tip (take k S) = Some prev"
    "batch_tip (int len + int k + 1) prev (take m (drop k S)) = Some prev'"
    "batch_tip (int len + 1) tip (take (k + m) S) = Some prev'"
proof -
  have S: "S = (take k S @ take m (drop k S)) @ drop (k + m) S"
    by (metis append_take_drop_id take_add)
  have "length (take k S) = k" using assms(2) by simp
  moreover from assms(1) have "batch_tip (int len + 1) tip (take k S @ take m (drop k S)) \<noteq> None"
    unfolding sendable_def by (metis S batch_tip_append option.case(1))
  ultimately show thesis
    using that by (auto simp: batch_tip_append take_add add.commute add.left_commute split: option.splits)
qed

lemma exchange_rounds:
  assumes set: "0 < nw_chain_sync_batch_size nw" "nw_chain_sync_batch_size nw < 10 ^ 20"
    and S: "sendable len tip (drop len (bc_chain bc))" "list_all json_plain (bc_chain bc)"
    and R: "R = map sort_keys (drop len (bc_chain bc))" "session_room nw R"
  shows "len + k < length (bc_chain bc) \<Longrightarrow> length R - k \<le> n \<Longrightarrow>
    batch_tip (int len + 1) tip (take k (drop len (bc_chain bc))) = Some prev \<Longrightarrow>
    (let s = exchange n nw me batch other bc (session_at len R k prev) in ss_done s \<and> ss_blocks s = R)"
proof (induction n arbitrary: k prev)
  case (Suc n)
  let ?S = "drop len (bc_chain bc)" and ?h = "int len + int k + 1"
  define c where "c = max 1 (min (nw_chain_sync_batch_size nw) batch)"
  define m where "m = min (nat c) (length ?S - k)"
  have len: "length R = length ?S" "k < length ?S" using R Suc.prems(1) by auto
  have c: "1 \<le> c" "c \<le> nw_chain_sync_batch_size nw" using set(1) by (auto simp: c_def)
  have m: "0 < m" "k + m \<le> length ?S" "int m \<le> nw_chain_sync_batch_size nw"
    using len(2) c by (auto simp: m_def min_def)
  have bs: "answer_blocks batch (nw_chain_sync_batch_size nw) (bc_chain bc) ?h = take m (drop k ?S)"
  proof -
    have "take (nat c) (drop (len + k) (bc_chain bc)) = take m (drop k ?S)"
      by (cases "nat c \<le> length ?S - k") (auto simp: m_def add.commute min_def)
    then show ?thesis by (simp add: answer_blocks_def c_def nat_add_distrib)
  qed
  have blen: "length (take m (drop k ?S)) = m" using m by simp
  have more: "int m = c \<and> ?h + int m \<le> int (length (bc_chain bc)) \<longleftrightarrow> k + m < length ?S"
    using c(1) len Suc.prems(1) by (auto simp: m_def min_def)
  from S(1) m(2) obtain prev' where tip: "batch_tip ?h prev (take m (drop k ?S)) = Some prev'"
    "batch_tip (int len + 1) tip (take (k + m) ?S) = Some prev'"
    using Suc.prems(3) by (metis sendable_parts option.inject)
  have plain: "list_all json_plain (take m (drop k ?S))"
    using S(2) by (auto simp: list_all_iff dest: in_set_takeD in_set_dropD)
  have sorted: "map sort_keys (take m (drop k ?S)) = take m (drop k R)" by (simp add: R take_map drop_map)
  have tipR: "batch_tip ?h prev (take m (drop k R)) = Some prev'"
    using batch_tip_sort_keys [OF plain, of ?h prev] tip(1) sorted by simp
  have big: "int len + int (length ?S) + 1 < 10 ^ 20" using S(1) by (simp add: sendable_def)
  have small: "\<bar>?h\<bar> < 10 ^ 20" "\<bar>nw_chain_sync_batch_size nw\<bar> < 10 ^ 20"
    using len(2) big set by linarith+
  have exp: "ss_expected (session_at len R k prev) = ?h" by (simp add: session_at_def)
  obtain req where req: "deliver GET_CHAIN (get_chain_request ?h (nw_chain_sync_batch_size nw) me) = Some req"
    "dict_get req ''from_height'' = PInt ?h" "dict_get req ''limit'' = PInt (nw_chain_sync_batch_size nw)"
    using request_delivered [OF small(1,2), of me] by blast
  obtain resp where resp: "deliver CHAIN_RESPONSE (chain_response batch other bc req) = Some resp"
    "map_of resp ''blocks'' = Some (PList (take m (drop k R)))" "map_of resp ''from_height'' = Some (PInt ?h)"
    "map_of resp ''next_height'' = Some (PInt (int len + int (k + m) + 1))"
    "map_of resp ''has_more'' = Some (PBool (k + m < length ?S))"
    using response_delivered [OF req(2,3) _ S(2), of batch other] big m(2)
    unfolding bs blen Let_def sorted c_def [symmetric] more by (auto simp: algebra_simps)
  have take: "take_batch nw (session_at len R k prev) resp =
    (if k + m < length ?S then (session_at len R (k + m) prev', Again)
     else ((session_at len R (k + m) prev')\<lparr>ss_done := True\<rparr>, Complete))"
    by (rule batch_accepted [OF R(2) m(1) _ m(3) tipR resp(2-5)]) (use m(2) len(1) in simp)
  show ?case
  proof (cases "k + m < length ?S")
    case True
    then show ?thesis
      using Suc.IH [of "k + m" prev'] Suc.prems(2) m(1) tip(2) len
      by (simp add: exp req(1) resp(1) take)
  next
    case False
    then have "ss_blocks (session_at len R (k + m) prev') = R"
      using len m(2) by (simp add: session_at_def)
    with False show ?thesis by (simp add: exp req(1) resp(1) take)
  qed
qed (use R(1) in simp)



section \<open>Requests of any content\<close>

text \<open>
  C29: Whatever numbers, texts or other values a GET_CHAIN carries, the answer is a contiguous
  part of the local chain of at most the configured number of blocks, from the height it names.
\<close>

theorem chain_response_bounds:
  assumes "1 \<le> batch"
  shows "\<exists>h n. 1 \<le> h \<and> 1 \<le> n \<and> n \<le> batch \<and>
    dict_get (chain_response batch me bc payload) ''from_height'' = PInt h \<and>
    dict_get (chain_response batch me bc payload) ''blocks''
      = PList (take (nat n) (drop (nat (h - 1)) (bc_chain bc)))"
proof -
  let ?h = "resolve_get_chain_from_height (dict_get payload ''from_height'')"
  let ?n = "resolve_get_chain_batch_size (dict_get payload ''limit'') batch"
  have "1 \<le> ?h" by (auto simp: resolve_get_chain_from_height_def split: sum.split)
  moreover have "1 \<le> ?n" "?n \<le> batch"
    using assms by (auto simp: resolve_get_chain_batch_size_def Let_def)
  moreover from calculation have "get_blocks_from bc ?h (Some ?n) = take (nat ?n) (drop (nat (?h - 1)) (bc_chain bc))"
    by (simp add: get_blocks_from_def slice_from_def slice_upto_def)
  ultimately show ?thesis
    by (intro exI [of _ ?h] exI [of _ ?n]) (simp add: chain_response_def Let_def dict_get_def)
qed

theorem chain_response_bounds_witness:
  "\<exists>h. dict_get (chain_response 100 ''me'' sample_pow_chain [(''limit'', PFloat PosInf)]) ''from_height'' = PInt h \<and>
     1 \<le> h"
  using chain_response_bounds [of 100 "''me''" sample_pow_chain "[(''limit'', PFloat PosInf)]"] by auto

end
