(* ===== verification/Settings.thy ===== *)
theory Settings
  imports Tls Py_Json
begin

text \<open>
  \<open>settings.py\<close>: from the mapping a YAML file holds to the settings records.  Every reader follows
  the code's conversions (\<open>int\<close>, \<open>float\<close>, \<open>str\<close>, strict booleans) and the order in which they can
  raise.  The file system and PyYAML are arguments: \<open>resolve_path\<close> for \<open>Path.expanduser\<close> and
  \<open>resolve\<close>, \<open>is_there\<close> for \<open>Path.exists\<close>, \<open>read_yaml\<close> for \<open>yaml.safe_load\<close>; the environment variable with
  the token is \<open>token_env\<close>.  Mappings have string keys.
\<close>

section \<open>Conversions of Python\<close>

text \<open>\<open>float(s)\<close>: underscores may stand between digits and are dropped first.\<close>

fun drop_underscores :: "bool \<Rightarrow> string \<Rightarrow> string option" where
  "drop_underscores after_digit [] = Some []"
| "drop_underscores after_digit (c # cs) =
     (if c = CHR ''_''
      then (case cs of
              d # _ \<Rightarrow> if after_digit \<and> is_digit d then drop_underscores False cs else None
            | [] \<Rightarrow> None)
      else map_option (Cons c) (drop_underscores (is_digit c) cs))"

definition exponent_of :: "string \<Rightarrow> int option" where
  "exponent_of s =
     (let neg = (s \<noteq> [] \<and> hd s = CHR ''-'');
          ds = (if s \<noteq> [] \<and> hd s \<in> {CHR ''-'', CHR ''+''} then tl s else s)
      in if ds \<noteq> [] \<and> list_all is_digit ds
         then Some (if neg then - int (parse_nat ds) else int (parse_nat ds)) else None)"

definition decimal_of :: "bool \<Rightarrow> string \<Rightarrow> pyfloat option" where
  "decimal_of neg s =
     (let whole = takeWhile is_digit s;
          s1 = dropWhile is_digit s;
          frac = (if s1 \<noteq> [] \<and> hd s1 = CHR ''.'' then takeWhile is_digit (tl s1) else []);
          s2 = (if s1 \<noteq> [] \<and> hd s1 = CHR ''.'' then dropWhile is_digit (tl s1) else s1)
      in if whole @ frac = [] then None
         else if s2 = [] then Some (decimal_float neg (whole @ frac) (- int (length frac)))
         else if hd s2 \<in> {CHR ''e'', CHR ''E''}
         then map_option (\<lambda>e. decimal_float neg (whole @ frac) (e - int (length frac))) (exponent_of (tl s2))
         else None)"

definition float_of_str :: "string \<Rightarrow> pyfloat res" where
  "float_of_str s =
     (case drop_underscores False (py_strip s) of
        None \<Rightarrow> Inl ValueError
      | Some t \<Rightarrow>
          let neg = (t \<noteq> [] \<and> hd t = CHR ''-'');
              u = (if t \<noteq> [] \<and> hd t \<in> {CHR ''-'', CHR ''+''} then tl t else t)
          in if py_lower u \<in> {''inf'', ''infinity''} then Inr (signed_inf neg)
             else if py_lower u = ''nan'' then Inr NaN
             else (case decimal_of neg u of None \<Rightarrow> Inl ValueError | Some f \<Rightarrow> Inr f))"

definition py_float :: "pyval \<Rightarrow> pyfloat res" where
  "py_float v =
     (case v of
        PBool b \<Rightarrow> Inr (Fin (if b then 1 else 0))
      | PInt n \<Rightarrow> float_of_int n
      | PFloat f \<Rightarrow> Inr f
      | PStr s \<Rightarrow> float_of_str s
      | _ \<Rightarrow> Inl TypeError)"

text \<open>\<open>data.get(k, d)\<close> and the conversions applied to it.\<close>

definition get_or :: "pydict \<Rightarrow> string \<Rightarrow> pyval \<Rightarrow> pyval" where
  "get_or data k d = (case map_of data k of None \<Rightarrow> d | Some v \<Rightarrow> v)"

definition int_at :: "pydict \<Rightarrow> string \<Rightarrow> int \<Rightarrow> int res" where
  "int_at data k d = py_int (get_or data k (PInt d))"

definition float_at :: "pydict \<Rightarrow> string \<Rightarrow> pyfloat \<Rightarrow> pyfloat res" where
  "float_at data k d = py_float (get_or data k (PFloat d))"

definition text_at :: "pydict \<Rightarrow> string \<Rightarrow> string \<Rightarrow> string" where
  "text_at data k d = py_str (get_or data k (PStr d))"

section \<open>Helpers\<close>

definition log_levels :: "(string \<times> int) list" where
  "log_levels = [(''DEBUG'', 10), (''INFO'', 20), (''WARNING'', 30), (''ERROR'', 40), (''CRITICAL'', 50)]"

definition resolve_log_level :: "string \<Rightarrow> int res" where
  "resolve_log_level name =
     (case map_of log_levels (py_upper (py_strip name)) of
        None \<Rightarrow> Inl ValueError
      | Some level \<Rightarrow> Inr level)"

definition resolve_log_format :: "string \<Rightarrow> log_format res" where
  "resolve_log_format name =
     (let normalized = py_lower (py_strip name) in
      if normalized = ''text'' then Inr TextFormat
      else if normalized = ''json'' then Inr JsonFormat
      else Inl ValueError)"

fun deep_merge :: "pydict \<Rightarrow> pydict \<Rightarrow> pydict" where
  "deep_merge merged [] = merged"
| "deep_merge merged ((k, v) # override) =
     deep_merge
       (AList.update k
          (case (map_of merged k, v) of
             (Some (PDict b), PDict d) \<Rightarrow> PDict (deep_merge b d)
           | _ \<Rightarrow> v) merged) override"

definition parse_bool :: "pyval \<Rightarrow> bool \<Rightarrow> bool res" where
  "parse_bool value default_value =
     (case (if value = PNone then PBool default_value else value) of
        PBool b \<Rightarrow> Inr b
      | PStr s \<Rightarrow>
          if py_lower s \<in> {''true'', ''false''} then Inr (py_lower s = ''true'') else Inl ValueError
      | _ \<Rightarrow> Inl ValueError)"

definition bool_at :: "pydict \<Rightarrow> string \<Rightarrow> bool \<Rightarrow> bool res" where
  "bool_at data k d = parse_bool (get_or data k PNone) d"

text \<open>What \<open>yaml.safe_load\<close> returned must be a mapping; an empty file is an empty one.\<close>

definition load_yaml_config :: "pyval res \<Rightarrow> pydict res" where
  "load_yaml_config loaded =
     bindE loaded (\<lambda>data.
     case data of PNone \<Rightarrow> Inr [] | PDict d \<Rightarrow> Inr d | _ \<Rightarrow> Inl ValueError)"

definition config_section :: "pydict \<Rightarrow> string \<Rightarrow> pydict res" where
  "config_section data name =
     (case get_or data name PNone of PNone \<Rightarrow> Inr [] | PDict d \<Rightarrow> Inr d | _ \<Rightarrow> Inl ValueError)"

definition get_str :: "pydict \<Rightarrow> string \<Rightarrow> string \<Rightarrow> string" where
  "get_str data name d = (let value = get_or data name PNone in if value = PNone then d else py_str value)"

section \<open>Consensus\<close>

definition parse_pow :: "pydict \<Rightarrow> pow_settings res" where
  "parse_pow data =
     bindE (int_at data ''initial_difficulty'' 4) (\<lambda>a.
     bindE (int_at data ''adjustment_interval'' 10) (\<lambda>b.
     bindE (float_at data ''max_adjustment_factor'' (Fin 2)) (\<lambda>c.
     bindE (int_at data ''max_mining_iterations'' 1000000) (\<lambda>d.
     bindE (int_at data ''target_block_time_seconds'' 10) (\<lambda>e.
     Inr \<lparr>initial_difficulty = a, adjustment_interval = b, max_adjustment_factor = c,
          max_mining_iterations = d, target_block_time_seconds = e\<rparr>)))))"

definition parse_pos :: "pydict \<Rightarrow> pos_settings res" where
  "parse_pos data =
     bindE (int_at data ''epoch_length'' 10) (\<lambda>a.
     bindE (int_at data ''min_stake'' 100) (\<lambda>b.
     bindE (int_at data ''block_reward'' 10) (\<lambda>c.
     Inr \<lparr>epoch_length = a, min_stake = b, block_reward = c\<rparr>)))"

definition parse_consensus :: "pydict \<Rightarrow> consensus_settings res" where
  "parse_consensus data =
     (let consensus_type = py_lower (text_at data ''type'' ''pow'') in
      if consensus_type \<notin> {''pow'', ''pos''} then Inl ValueError
      else bindE (bindE (config_section data ''pow'') parse_pow) (\<lambda>pow_st.
      bindE (bindE (config_section data ''pos'') parse_pos) (\<lambda>pos_st.
      Inr \<lparr>cs_type = (if consensus_type = ''pow'' then Pow else Pos), cs_pow = pow_st, cs_pos = pos_st\<rparr>)))"

section \<open>Network\<close>

definition parse_tls :: "pydict \<Rightarrow> tls_settings res" where
  "parse_tls data =
     bindE (bool_at data ''enabled'' False) (\<lambda>enabled.
     bindE (bool_at data ''verify_peer'' False) (\<lambda>verify.
     Inr \<lparr>tls_enabled = enabled, tls_cert_file = text_at data ''cert_file'' [],
          tls_key_file = text_at data ''key_file'' [], tls_ca_file = text_at data ''ca_file'' [],
          tls_verify_peer = verify\<rparr>))"

definition parse_peer_auth :: "pydict \<Rightarrow> peer_auth_settings res" where
  "parse_peer_auth data =
     bindE (float_at data ''handshake_timeout_seconds'' (Fin 5)) (\<lambda>timeout.
     if \<not> float_lt (Fin 0) timeout then Inl ValueError
     else bindE (bool_at data ''enabled'' True) (\<lambda>enabled.
     bindE (int_at data ''max_skew_seconds'' 300) (\<lambda>skew.
     Inr \<lparr>pa_enabled = enabled, pa_max_skew_seconds = skew, pa_handshake_timeout = timeout\<rparr>)))"

definition parse_rate_limit :: "pydict \<Rightarrow> rate_limit_settings res" where
  "parse_rate_limit data =
     bindE (int_at data ''max_connections_per_ip_per_minute'' 10) (\<lambda>a.
     bindE (int_at data ''max_messages_per_peer_per_second'' 50) (\<lambda>b.
     bindE (int_at data ''max_decode_errors_before_disconnect'' 5) (\<lambda>c.
     Inr \<lparr>rl_max_connections = a, rl_max_messages = b, rl_max_decode_errors = c\<rparr>)))"

definition parse_port :: "pyval \<Rightarrow> int res" where
  "parse_port item =
     (case py_int item of
        Inl e \<Rightarrow> Inl (if e \<in> {TypeError, ValueError} then ValueError else e)
      | Inr port \<Rightarrow> if port < 1 \<or> 65535 < port then Inl ValueError else Inr port)"

definition parse_allowed_ports :: "pydict \<Rightarrow> int list res" where
  "parse_allowed_ports data =
     (case get_or data ''allowed_ports'' PNone of
        PNone \<Rightarrow> Inr (pc_allowed_ports default_peer_connect)
      | PList raw_ports \<Rightarrow> mapE parse_port raw_ports
      | _ \<Rightarrow> Inl ValueError)"

definition parse_peer_connect :: "pydict \<Rightarrow> peer_connect_settings res" where
  "parse_peer_connect data =
     bindE (case get_or data ''blocked_cidrs'' PNone of
        PNone \<Rightarrow> Inr (pc_blocked_cidrs default_peer_connect)
      | PList cidrs \<Rightarrow> Inr (map py_str cidrs)
      | _ \<Rightarrow> Inl ValueError) (\<lambda>blocked.
     bindE (bool_at data ''allow_private_ips'' False) (\<lambda>allow_private.
     bindE (int_at data ''max_peers_per_message'' 50) (\<lambda>per_message.
     bindE (int_at data ''max_known_peers'' 1000) (\<lambda>known.
     bindE (parse_allowed_ports data) (\<lambda>ports.
     Inr \<lparr>pc_allow_private_ips = allow_private, pc_blocked_cidrs = blocked,
          pc_max_peers_per_message = per_message, pc_max_known_peers = known,
          pc_allowed_ports = ports\<rparr>)))))"

definition parse_reconnect :: "pydict \<Rightarrow> reconnect_settings res" where
  "parse_reconnect data =
     bindE (bool_at data ''enabled'' True) (\<lambda>enabled.
     bindE (float_at data ''initial_delay_seconds'' (Fin 1)) (\<lambda>initial.
     bindE (float_at data ''max_delay_seconds'' (Fin 60)) (\<lambda>max_delay.
     bindE (int_at data ''max_attempts'' 0) (\<lambda>attempts.
     bindE (float_at data ''backoff_multiplier'' (Fin 2)) (\<lambda>multiplier.
     Inr \<lparr>rc_enabled = enabled, rc_initial_delay = initial, rc_max_delay = max_delay,
          rc_max_attempts = attempts, rc_multiplier = multiplier\<rparr>)))))"

text \<open>
  The loop over the limits that have to be finite and positive.  \<open>math.isfinite\<close> of an int
  converts it to a float; the three exceptions become \<open>ValueError\<close>.
\<close>

definition limit_error :: "exn \<Rightarrow> exn" where
  "limit_error e = (if e \<in> {TypeError, ValueError, OverflowError} then ValueError else e)"

definition float_limit_at :: "pydict \<Rightarrow> string \<Rightarrow> pyfloat \<Rightarrow> pyfloat res" where
  "float_limit_at data k d =
     (case float_at data k d of
        Inl e \<Rightarrow> Inl (limit_error e)
      | Inr f \<Rightarrow> if \<not> float_isfinite f \<or> float_le f (Fin 0) then Inl ValueError else Inr f)"

definition int_limit_at :: "pydict \<Rightarrow> string \<Rightarrow> int \<Rightarrow> int res" where
  "int_limit_at data k d =
     (case bindE (int_at data k d) (\<lambda>n. bindE (float_of_int n) (\<lambda>_. Inr n)) of
        Inl e \<Rightarrow> Inl (limit_error e)
      | Inr n \<Rightarrow> if n \<le> 0 then Inl ValueError else Inr n)"

definition parse_bootstrap_peers :: "pydict \<Rightarrow> pyval list res" where
  "parse_bootstrap_peers data =
     (case get_or data ''bootstrap_peers'' (PList []) of
        PNone \<Rightarrow> Inr []
      | PList peers \<Rightarrow> Inr peers
      | _ \<Rightarrow> Inl ValueError)"

definition parse_network :: "pydict \<Rightarrow> network_settings res" where
  "parse_network data =
     bindE (float_limit_at data ''mdns_resolution_timeout_seconds'' (nw_mdns_resolution_timeout default_network)) (\<lambda>mdns_timeout.
     bindE (float_limit_at data ''mdns_resolution_interval_seconds'' (nw_mdns_resolution_interval default_network)) (\<lambda>mdns_interval.
     bindE (int_limit_at data ''mdns_max_pending_services'' (nw_mdns_max_pending default_network)) (\<lambda>mdns_pending.
     bindE (int_limit_at data ''chain_sync_max_blocks'' (nw_chain_sync_max_blocks default_network)) (\<lambda>max_blocks.
     bindE (int_limit_at data ''chain_sync_max_bytes'' (nw_chain_sync_max_bytes default_network)) (\<lambda>max_bytes.
     bindE (parse_bootstrap_peers data) (\<lambda>bootstrap.
     bindE (int_at data ''port'' 8765) (\<lambda>port.
     bindE (bool_at data ''mdns_enabled'' False) (\<lambda>mdns.
     bindE (int_at data ''max_peers'' 25) (\<lambda>max_peers.
     bindE (int_at data ''max_message_bytes'' 1048576) (\<lambda>message_bytes.
     bindE (int_at data ''chain_sync_batch_size'' 100) (\<lambda>batch.
     bindE (int_at data ''ping_interval_seconds'' 30) (\<lambda>ping.
     bindE (int_at data ''connection_timeout_seconds'' 10) (\<lambda>connection.
     bindE (int_at data ''broadcast_send_timeout_seconds'' 5) (\<lambda>broadcast.
     bindE (int_at data ''chain_sync_timeout_seconds'' 10) (\<lambda>sync.
     bindE (int_at data ''shutdown_peer_close_timeout_seconds'' 2) (\<lambda>shut_peer.
     bindE (int_at data ''shutdown_server_wait_timeout_seconds'' 3) (\<lambda>shut_server.
     bindE (int_at data ''pong_timeout_seconds'' 90) (\<lambda>pong.
     bindE (bindE (config_section data ''tls'') parse_tls) (\<lambda>tls.
     bindE (bindE (config_section data ''peer_auth'') parse_peer_auth) (\<lambda>auth.
     bindE (bindE (config_section data ''peer_connect'') parse_peer_connect) (\<lambda>connect.
     bindE (bindE (config_section data ''rate_limit'') parse_rate_limit) (\<lambda>rate.
     bindE (bindE (config_section data ''reconnect'') parse_reconnect) (\<lambda>reconnect.
     Inr \<lparr>nw_host = text_at data ''host'' ''0.0.0.0'', nw_port = port, nw_bootstrap_peers = bootstrap,
          nw_mdns_enabled = mdns,
          nw_mdns_service_name = text_at data ''mdns_service_name'' ''_easyblockchain._tcp.local.'',
          nw_mdns_resolution_timeout = mdns_timeout, nw_mdns_resolution_interval = mdns_interval,
          nw_mdns_max_pending = mdns_pending, nw_max_peers = max_peers,
          nw_max_message_bytes = message_bytes, nw_chain_sync_batch_size = batch,
          nw_chain_sync_max_blocks = max_blocks, nw_chain_sync_max_bytes = max_bytes,
          nw_ping_interval = ping, nw_connection_timeout = connection,
          nw_broadcast_timeout = broadcast, nw_chain_sync_timeout = sync,
          nw_shutdown_peer_timeout = shut_peer, nw_shutdown_server_timeout = shut_server,
          nw_pong_timeout = pong, nw_tls = tls, nw_peer_auth = auth, nw_peer_connect = connect,
          nw_rate_limit = rate, nw_reconnect = reconnect\<rparr>)))))))))))))))))))))))"

section \<open>Node, persistence, observability, genesis\<close>

definition parse_environment :: "string \<Rightarrow> environment res" where
  "parse_environment name =
     (let normalized = py_lower (py_strip name) in
      if normalized = ''development'' then Inr Development
      else if normalized = ''production'' then Inr Production
      else Inl ValueError)"

text \<open>
  A file name has to be one path component.  Beside a name with a slash, \<open>Path(name).name\<close>
  differs from \<open>name\<close> only for the empty name and the current directory, refused before.
\<close>

definition parse_safe_basename :: "string \<Rightarrow> string \<Rightarrow> string res" where
  "parse_safe_basename value d =
     (let name = (if value = [] then d else value) in
      if name = [] \<or> name \<in> {''.'', ''..''} then Inl ValueError
      else if CHR ''/'' \<in> set name \<or> CHR 0x5C \<in> set name then Inl ValueError
      else Inr name)"

definition normalize_data_dir :: "(string \<Rightarrow> string res) \<Rightarrow> string \<Rightarrow> string res" where
  "normalize_data_dir resolve_path value = resolve_path (if value = [] then ''./data'' else value)"

definition parse_node :: "(string \<Rightarrow> string res) \<Rightarrow> pydict \<Rightarrow> node_settings res" where
  "parse_node resolve_path data =
     (let log_level = text_at data ''log_level'' ''INFO'' in
      bindE (resolve_log_level log_level) (\<lambda>_.
      bindE (parse_environment (text_at data ''environment'' ''development'')) (\<lambda>env.
      bindE (normalize_data_dir resolve_path (get_str data ''data_dir'' ''./data'')) (\<lambda>dir.
      bindE (bool_at data ''require_external_keys'' False) (\<lambda>external.
      Inr \<lparr>nd_environment = env, nd_data_dir = dir, nd_node_id = get_str data ''node_id'' [],
           nd_log_level = log_level, nd_require_external_keys = external\<rparr>)))))"

definition basename_at :: "pydict \<Rightarrow> string \<Rightarrow> string \<Rightarrow> string res" where
  "basename_at data k d = parse_safe_basename (text_at data k d) d"

definition parse_persistence :: "pydict \<Rightarrow> persistence_settings res" where
  "parse_persistence data =
     bindE (int_at data ''schema_version'' 1) (\<lambda>version.
     bindE (int_at data ''max_chain_file_bytes'' 67108864) (\<lambda>max_bytes.
     bindE (basename_at data ''chain_file'' ''chain.json'') (\<lambda>chain_file.
     bindE (basename_at data ''meta_file'' ''meta.json'') (\<lambda>meta_file.
     bindE (basename_at data ''genesis_stakes_file'' ''genesis_stakes.json'') (\<lambda>stakes_file.
     bindE (basename_at data ''keys_dir'' ''keys'') (\<lambda>keys_dir.
     bindE (basename_at data ''private_key_file'' ''node.pem'') (\<lambda>key_file.
     bindE (basename_at data ''p2p_identity_file'' ''p2p_identity.pem'') (\<lambda>identity_file.
     bindE (bool_at data ''store_keys_on_disk'' True) (\<lambda>store.
     Inr \<lparr>ps_schema_version = version, ps_max_chain_file_bytes = max_bytes,
          ps_chain_file = chain_file, ps_meta_file = meta_file, ps_genesis_stakes_file = stakes_file,
          ps_keys_dir = keys_dir, ps_private_key_file = key_file,
          ps_p2p_identity_file = identity_file, ps_store_keys_on_disk = store\<rparr>)))))))))"

definition parse_observability :: "string option \<Rightarrow> pydict \<Rightarrow> observability_settings res" where
  "parse_observability token_env data =
     bindE (resolve_log_format (text_at data ''log_format'' ''text'')) (\<lambda>format.
     bindE (bool_at data ''auth_enabled'' False) (\<lambda>auth.
     let token = (case token_env of
           Some (c # cs) \<Rightarrow> c # cs
         | _ \<Rightarrow> text_at data ''auth_token'' [])
     in if auth \<and> token = [] then Inl ValueError
        else bindE (bool_at data ''enabled'' False) (\<lambda>enabled.
        bindE (int_at data ''port'' 9090) (\<lambda>port.
        bindE (int_at data ''min_peers_for_ready'' 0) (\<lambda>min_peers.
        Inr \<lparr>ob_enabled = enabled, ob_host = text_at data ''host'' ''0.0.0.0'', ob_port = port,
             ob_log_format = format, ob_health_path = text_at data ''health_path'' ''/healthz'',
             ob_ready_path = text_at data ''ready_path'' ''/readyz'',
             ob_metrics_path = text_at data ''metrics_path'' ''/metrics'', ob_min_peers = min_peers,
             ob_auth_enabled = auth, ob_auth_token = token\<rparr>)))))"

definition hex_text :: "string \<Rightarrow> bool" where
  "hex_text = list_all (\<lambda>c. c \<in> set ''0123456789abcdef'')"

definition parse_genesis :: "pydict \<Rightarrow> string res" where
  "parse_genesis data =
     (let prev_hash = py_lower (text_at data ''prev_hash'' DEFAULT_GENESIS_PREV_HASH) in
      if length prev_hash \<noteq> 64 then Inl ValueError
      else if \<not> hex_text prev_hash then Inl ValueError
      else Inr prev_hash)"

section \<open>The whole configuration\<close>

definition parse_settings ::
    "(string \<Rightarrow> string res) \<Rightarrow> string option \<Rightarrow> pydict \<Rightarrow> app_settings res" where
  "parse_settings resolve_path token_env data =
     bindE (bindE (config_section data ''network'') parse_network) (\<lambda>network.
     bindE (bindE (config_section data ''node'') (parse_node resolve_path)) (\<lambda>node.
     bindE (bindE (config_section data ''consensus'') parse_consensus) (\<lambda>consensus.
     bindE (bindE (config_section data ''genesis'') parse_genesis) (\<lambda>genesis.
     bindE (bindE (config_section data ''persistence'') parse_persistence) (\<lambda>persistence.
     bindE (bindE (config_section data ''observability'') (parse_observability token_env)) (\<lambda>observability.
     bindE (validate_production_network node network) (\<lambda>_.
     Inr \<lparr>ap_consensus = consensus, ap_network = network, ap_node = node,
          ap_genesis_prev_hash = genesis, ap_persistence = persistence,
          ap_observability = observability\<rparr>)))))))"

text \<open>
  The configuration file: the path given, else that of the environment variable, else the
  packaged one, which alone may be missing when settings are overridden.
\<close>

definition or_text :: "string option \<Rightarrow> string option \<Rightarrow> string option" where
  "or_text p q = (case p of Some (c # cs) \<Rightarrow> Some (c # cs) | _ \<Rightarrow> (case q of Some (c # cs) \<Rightarrow> Some (c # cs) | _ \<Rightarrow> None))"

definition load_settings ::
    "(string \<Rightarrow> string res) \<Rightarrow> string option \<Rightarrow> (string \<Rightarrow> bool) \<Rightarrow> (string \<Rightarrow> pyval res) \<Rightarrow> string
     \<Rightarrow> string option \<Rightarrow> string option \<Rightarrow> app_settings res" where
  "load_settings resolve_path token_env is_there read_yaml packaged config_path env_path =
     (let path = (case or_text config_path env_path of Some p \<Rightarrow> p | None \<Rightarrow> packaged) in
      if \<not> is_there path then Inl OSError
      else bindE (load_yaml_config (read_yaml path)) (parse_settings resolve_path token_env))"

definition load_settings_with_overrides ::
    "(string \<Rightarrow> string res) \<Rightarrow> string option \<Rightarrow> (string \<Rightarrow> bool) \<Rightarrow> (string \<Rightarrow> pyval res) \<Rightarrow> string
     \<Rightarrow> string option \<Rightarrow> string option \<Rightarrow> pydict \<Rightarrow> app_settings res" where
  "load_settings_with_overrides resolve_path token_env is_there read_yaml packaged config_path env_path overrides =
     (let named = or_text config_path env_path;
          path = (case named of Some p \<Rightarrow> p | None \<Rightarrow> packaged)
      in bindE (if is_there path then load_yaml_config (read_yaml path)
                else if named \<noteq> None then Inl OSError
                else Inr []) (\<lambda>raw.
         parse_settings resolve_path token_env (deep_merge raw overrides)))"

section \<open>What a configuration that loads guarantees\<close>

definition path_component :: "string \<Rightarrow> bool" where
  "path_component name \<longleftrightarrow> name \<noteq> [] \<and> name \<notin> {''.'', ''..''} \<and> CHR ''/'' \<notin> set name"

definition limits_valid :: "network_settings \<Rightarrow> bool" where
  "limits_valid nw \<longleftrightarrow>
     list_all (\<lambda>f. float_isfinite f \<and> \<not> float_le f (Fin 0))
       [nw_mdns_resolution_timeout nw, nw_mdns_resolution_interval nw] \<and>
     list_all (\<lambda>n. 0 < n)
       [nw_mdns_max_pending nw, nw_chain_sync_max_blocks nw, nw_chain_sync_max_bytes nw] \<and>
     float_lt (Fin 0) (pa_handshake_timeout (nw_peer_auth nw)) \<and>
     list_all (\<lambda>p. 1 \<le> p \<and> p \<le> 65535) (pc_allowed_ports (nw_peer_connect nw))"

definition files_valid :: "persistence_settings \<Rightarrow> bool" where
  "files_valid ps \<longleftrightarrow>
     list_all path_component [ps_chain_file ps, ps_meta_file ps, ps_genesis_stakes_file ps,
       ps_keys_dir ps, ps_private_key_file ps, ps_p2p_identity_file ps]"

lemma float_limit_Inr:
  "float_limit_at data k d = Inr f \<Longrightarrow> float_isfinite f"
  "float_limit_at data k d = Inr f \<Longrightarrow> \<not> float_le f (Fin 0)"
  by (auto simp: float_limit_at_def split: sum.splits if_splits)

lemma int_limit_Inr: "int_limit_at data k d = Inr n \<Longrightarrow> 0 < n"
  by (auto simp: int_limit_at_def split: sum.splits if_splits)

lemma parse_peer_auth_timeout:
  "parse_peer_auth data = Inr pa \<Longrightarrow> float_lt (Fin 0) (pa_handshake_timeout pa)"
  by (auto simp: parse_peer_auth_def res_simps)

lemma mapE_list_all: "mapE f xs = Inr ys \<Longrightarrow> (\<And>x y. f x = Inr y \<Longrightarrow> P y) \<Longrightarrow> list_all P ys"
  by (induction xs arbitrary: ys) (auto simp: res_simps)

lemma parse_allowed_ports_range:
  "parse_allowed_ports data = Inr ports \<Longrightarrow> list_all (\<lambda>p. 1 \<le> p \<and> p \<le> 65535) ports"
  by (auto simp: parse_allowed_ports_def default_peer_connect_def parse_port_def res_simps
      elim!: mapE_list_all split: pyval.splits if_splits)

lemma parse_peer_connect_ports:
  "parse_peer_connect data = Inr pc \<Longrightarrow> list_all (\<lambda>p. 1 \<le> p \<and> p \<le> 65535) (pc_allowed_ports pc)"
  by (auto simp: parse_peer_connect_def bindE_eq_Inr dest!: parse_allowed_ports_range)

lemma bindE_Inr_elim:
  "bindE m f = Inr y \<Longrightarrow> (\<And>x. m = Inr x \<Longrightarrow> f x = Inr y \<Longrightarrow> P) \<Longrightarrow> P"
  by (auto simp: bindE_eq_Inr)

lemma parse_network_valid: "parse_network data = Inr nw \<Longrightarrow> limits_valid nw"
  unfolding parse_network_def
  by (elim bindE_Inr_elim, drule Inr_inject, hypsubst,
      unfold limits_valid_def network_settings.select_convs list.pred_inject(2), intro conjI TrueI list.pred_inject(1),
      (erule float_limit_Inr int_limit_Inr parse_peer_auth_timeout parse_peer_connect_ports)+)

lemma basename_component: "basename_at data k d = Inr name \<Longrightarrow> path_component name"
  by (auto simp: basename_at_def parse_safe_basename_def path_component_def Let_def split: if_splits)

lemma parse_persistence_valid: "parse_persistence data = Inr ps \<Longrightarrow> files_valid ps"
  unfolding parse_persistence_def
  by (elim bindE_Inr_elim, drule Inr_inject, hypsubst,
      unfold files_valid_def persistence_settings.select_convs list.pred_inject(2),
      intro conjI TrueI list.pred_inject(1),
      (erule basename_component)+)

lemma parse_genesis_hex: "parse_genesis data = Inr h \<Longrightarrow> length h = 64 \<and> hex_text h"
  unfolding parse_genesis_def Let_def by (auto split: if_splits)

lemma parse_settings_parts:
  assumes "parse_settings resolve_path token_env data = Inr st"
  shows "\<exists>network genesis persistence. parse_network network = Inr (ap_network st) \<and>
    parse_genesis genesis = Inr (ap_genesis_prev_hash st) \<and>
    parse_persistence persistence = Inr (ap_persistence st) \<and>
    validate_production_network (ap_node st) (ap_network st) = Inr ()"
  using assms unfolding parse_settings_def bindE_eq_Inr by auto

section \<open>The empty configuration\<close>

text \<open>A key that is missing.\<close>

lemma missing_key [simp]:
  assumes "map_of data k = None"
  shows "int_at data k d = Inr d" "float_at data k f = Inr f" "text_at data k t = t"
    "bool_at data k b = Inr b" "config_section data k = Inr []" "get_str data k t = t"
  using assms
  by (simp_all add: int_at_def float_at_def text_at_def bool_at_def get_or_def py_int_def py_float_def
      py_str_def parse_bool_def config_section_def get_str_def)

text \<open>\<open>0.2\<close> is the double closest to a fifth.\<close>

lemma fifth: "float_of_exact (1 / 5) = Fin (3602879701896397 / 18014398509481984)"
proof -
  have "rat_log2 (1 / 5) = -3" by code_simp
  then have "ulp_exp (1 / 5) = -55" by (simp add: ulp_exp_def)
  moreover have "\<lfloor>36028797018963968 / 5 :: rat\<rfloor> = 7205759403792793"
    by (rule floor_unique) simp_all
  ultimately have "round_pos (1 / 5) = 3602879701896397 / 18014398509481984"
    by (simp add: round_pos_def pow2_def round_half_even_def Let_def)
  then show ?thesis by (simp add: float_of_exact_def round_rat_def float_limit_def)
qed

lemma limits_missing:
  "map_of data k = None \<Longrightarrow> 0 < r \<Longrightarrow> float_limit_at data k (Fin r) = Inr (Fin r)"
  "map_of data k = None \<Longrightarrow> 0 < n \<Longrightarrow> float_of_int n = Inr f \<Longrightarrow> int_limit_at data k n = Inr n"
  by (simp_all add: float_limit_at_def int_limit_at_def float_le_def float_lt_def float_eq_def)

lemma default_sections:
  "parse_tls [] = Inr default_tls" "parse_rate_limit [] = Inr default_rate_limit"
  "parse_peer_auth [] = Inr default_peer_auth" "parse_reconnect [] = Inr default_reconnect"
  "parse_peer_connect [] = Inr default_peer_connect"
  by (simp_all add: parse_tls_def default_tls_def parse_rate_limit_def default_rate_limit_def
      parse_peer_auth_def default_peer_auth_def float_lt_def parse_reconnect_def default_reconnect_def
      parse_peer_connect_def parse_allowed_ports_def get_or_def)
    (simp add: default_peer_connect_def)

lemma default_limits:
  assumes "map_of data k = None"
  shows "int_limit_at data k 100 = Inr 100" "int_limit_at data k 10000 = Inr 10000"
    "int_limit_at data k 67108864 = Inr 67108864"
  by (rule limits_missing(2) [OF assms _ float_of_int_small]; simp)+

lemma parse_network_Nil: "parse_network [] = Inr default_network"
  by (simp add: parse_network_def parse_bootstrap_peers_def get_or_def default_network_def fifth
      limits_missing(1) default_limits default_sections)

lemma default_parts:
  "parse_consensus [] = Inr default_consensus" "parse_genesis [] = Inr DEFAULT_GENESIS_PREV_HASH"
  "parse_persistence [] = Inr default_persistence" "parse_observability None [] = Inr default_observability"
  "resolve_log_level ''INFO'' = Inr 20" "parse_environment ''development'' = Inr Development"
  by code_simp+

lemma parse_settings_Nil:
  "parse_settings resolve_path None [] =
   bindE (resolve_path ''./data'') (\<lambda>dir.
     Inr (default_app\<lparr>ap_node := default_node\<lparr>nd_data_dir := dir\<rparr>\<rparr>))"
  by (simp add: parse_settings_def parse_network_Nil default_parts parse_node_def Let_def
      normalize_data_dir_def bindE_assoc validate_production_network_def default_app_def default_node_def)

text \<open>
  The defaults written in the readers and those of the dataclasses agree: the empty
  configuration gives the default settings, with the data directory resolved.
\<close>

theorem empty_configuration:
  "parse_settings resolve_path None [] =
   bindE (resolve_path ''./data'') (\<lambda>dir.
     Inr (default_app\<lparr>ap_node := default_node\<lparr>nd_data_dir := dir\<rparr>\<rparr>))"
  by (rule parse_settings_Nil)

section \<open>Guarantees\<close>

text \<open>
  C26: A configuration that loads has finite positive limits, ports in range, a genesis hash of
  64 hex digits, and file names that cannot leave the data directory.
\<close>

theorem loaded_settings_valid:
  assumes "parse_settings resolve_path token_env data = Inr st"
  shows "limits_valid (ap_network st) \<and> files_valid (ap_persistence st) \<and>
    length (ap_genesis_prev_hash st) = 64 \<and> hex_text (ap_genesis_prev_hash st)"
  using parse_settings_parts [OF assms] parse_network_valid parse_persistence_valid parse_genesis_hex
  by blast

theorem loaded_settings_valid_witness: "limits_valid default_network \<and> files_valid default_persistence"
  using loaded_settings_valid [of "\<lambda>dir. Inr dir" None "[]"]
  by (simp add: parse_settings_Nil default_app_def)

text \<open>
  C25: A configuration for production that loads encrypts every connection: TLS is on and
  verifies the peer, its files are named, private addresses are refused, and every bootstrap
  peer has a wss URL.
\<close>

theorem production_encrypted:
  assumes "parse_settings resolve_path token_env data = Inr st"
    and "nd_environment (ap_node st) = Production"
  shows "(let nw = ap_network st; tls = nw_tls nw in
    tls_enabled tls \<and> tls_verify_peer tls \<and> tls_cert_file tls \<noteq> [] \<and> tls_key_file tls \<noteq> [] \<and>
    tls_ca_file tls \<noteq> [] \<and> \<not> pc_allow_private_ips (nw_peer_connect nw) \<and>
    list_all (\<lambda>v. \<exists>url. v = PStr url \<and> starts_with url ''wss://'') (nw_bootstrap_peers nw))"
  using parse_settings_parts [OF assms(1)] assms(2) check_bootstrap_wss
  by (auto simp: validate_production_network_def Let_def list_all_iff split: if_splits)

definition sample_tls :: pydict where
  "sample_tls = [(''enabled'', PStr ''true''), (''verify_peer'', PBool True), (''cert_file'', PStr ''c''),
     (''key_file'', PStr ''k''), (''ca_file'', PStr ''a'')]"

definition sample_production :: pydict where
  "sample_production =
     [(''node'', PDict [(''environment'', PStr ''Production'')]),
      (''network'', PDict [(''bootstrap_peers'', PList [PStr ''wss://a:443'']), (''tls'', PDict sample_tls)])]"

lemma sample_production_loads:
  "\<exists>st. parse_settings (\<lambda>dir. Inr dir) None sample_production = Inr st \<and>
     nd_environment (ap_node st) = Production \<and> nw_bootstrap_peers (ap_network st) = [PStr ''wss://a:443'']"
proof -
  let ?tls = "\<lparr>tls_enabled = True, tls_cert_file = ''c'', tls_key_file = ''k'', tls_ca_file = ''a'',
    tls_verify_peer = True\<rparr>"
  let ?net = "default_network\<lparr>nw_bootstrap_peers := [PStr ''wss://a:443''], nw_tls := ?tls\<rparr>"
  let ?node = "default_node\<lparr>nd_environment := Production\<rparr>"
  have tls: "parse_tls sample_tls = Inr ?tls" by code_simp
  have net: "parse_network [(''bootstrap_peers'', PList [PStr ''wss://a:443'']), (''tls'', PDict sample_tls)] = Inr ?net"
    by (simp add: parse_network_def parse_bootstrap_peers_def get_or_def default_network_def fifth
        limits_missing(1) default_limits default_sections config_section_def [of _ "''tls''"] tls)
  have env: "parse_environment ''Production'' = Inr Production" by code_simp
  have node: "parse_node (\<lambda>dir. Inr dir) [(''environment'', PStr ''Production'')] = Inr ?node"
    by (simp add: parse_node_def Let_def default_parts normalize_data_dir_def default_node_def env
        text_at_def [of _ "''environment''"] get_or_def py_str_def)
  have sections: "config_section sample_production ''node'' = Inr [(''environment'', PStr ''Production'')]"
    "config_section sample_production ''network'' =
       Inr [(''bootstrap_peers'', PList [PStr ''wss://a:443'']), (''tls'', PDict sample_tls)]"
    by (simp_all add: config_section_def get_or_def sample_production_def)
  have rest: "map_of sample_production ''consensus'' = None" "map_of sample_production ''genesis'' = None"
    "map_of sample_production ''persistence'' = None" "map_of sample_production ''observability'' = None"
    by (simp_all add: sample_production_def)
  have "validate_production_network ?node ?net = Inr ()"
    by (simp add: validate_production_network_def default_network_def default_peer_connect_def
        default_node_def url_scheme_matches_tls_def starts_with_def)
  then show ?thesis
    by (simp add: parse_settings_def sections net node rest default_parts default_node_def)
qed

theorem production_encrypted_witness:
  "\<exists>st. parse_settings (\<lambda>dir. Inr dir) None sample_production = Inr st \<and>
     tls_verify_peer (nw_tls (ap_network st))"
  using sample_production_loads production_encrypted [of "\<lambda>dir. Inr dir" None sample_production]
  by (auto simp: Let_def)

section \<open>Overrides\<close>

text \<open>The value at a path of keys.\<close>

fun at_path :: "pyval \<Rightarrow> string list \<Rightarrow> pyval option" where
  "at_path v [] = Some v"
| "at_path (PDict d) (k # ks) = (case map_of d k of None \<Rightarrow> None | Some v \<Rightarrow> at_path v ks)"
| "at_path _ (k # ks) = None"

text \<open>The path leaves the mapping at a key it does not have.\<close>

fun leaves_at :: "pydict \<Rightarrow> string list \<Rightarrow> bool" where
  "leaves_at d [] = False"
| "leaves_at d (k # ks) =
     (case map_of d k of None \<Rightarrow> True | Some (PDict e) \<Rightarrow> leaves_at e ks | Some _ \<Rightarrow> False)"

fun distinct_keys :: "pyval \<Rightarrow> bool" where
  "distinct_keys (PDict d) \<longleftrightarrow> distinct (map fst d) \<and> list_all (\<lambda>(_, v). distinct_keys v) d"
| "distinct_keys (PList vs) \<longleftrightarrow> list_all distinct_keys vs"
| "distinct_keys _ \<longleftrightarrow> True"

definition merge_value :: "pyval option \<Rightarrow> pyval \<Rightarrow> pyval" where
  "merge_value old v =
     (case (old, v) of (Some (PDict b), PDict d) \<Rightarrow> PDict (deep_merge b d) | _ \<Rightarrow> v)"

lemma deep_merge_lookup:
  "distinct (map fst override) \<Longrightarrow>
   map_of (deep_merge base override) k =
     (case map_of override k of
        None \<Rightarrow> map_of base k
      | Some v \<Rightarrow> Some (merge_value (map_of base k) v))"
proof (induction override arbitrary: base)
  case (Cons kv override)
  obtain j v where kv: "kv = (j, v)" by (cases kv)
  let ?base = "AList.update j (merge_value (map_of base j) v) base"
  have "deep_merge base (kv # override) = deep_merge ?base override"
    by (simp add: kv merge_value_def)
  moreover have "map_of override j = None" using Cons.prems kv by (simp add: map_of_eq_None_iff)
  ultimately show ?case
    using Cons.IH [of ?base] Cons.prems kv by (auto simp: update_conv' split: option.split)
qed simp

text \<open>
  Overriding a configuration: a value that is no mapping stands in the result exactly
  where the overrides have it, or where the configuration has it and the overrides have nothing.
\<close>

theorem overrides_by_path:
  assumes "distinct_keys (PDict override)" "\<nexists>d. v = PDict d"
  shows "at_path (PDict (deep_merge base override)) ks = Some v \<longleftrightarrow>
    at_path (PDict override) ks = Some v \<or>
    (leaves_at override ks \<and> at_path (PDict base) ks = Some v)"
  using assms(1)
proof (induction ks arbitrary: base override)
  case Nil
  then show ?case using assms(2) by auto
next
  case (Cons k ks)
  have d: "distinct (map fst override)" using Cons.prems by simp
  show ?case
  proof (cases "map_of override k")
    case None
    then show ?thesis using deep_merge_lookup [OF d, of base k] by simp
  next
    case (Some w)
    then have w: "distinct_keys w" using Cons.prems by (auto simp: list_all_iff dest: map_of_SomeD)
    show ?thesis
      using deep_merge_lookup [OF d, of base k] Some Cons.IH w
      by (cases w; cases "map_of base k"; cases "the (map_of base k)"; cases ks)
        (auto simp: merge_value_def)
  qed
qed

theorem overrides_by_path_witness:
  "at_path (PDict (deep_merge [(''node'', PDict [(''node_id'', PStr ''a''), (''log_level'', PStr ''INFO'')])]
     [(''node'', PDict [(''node_id'', PStr ''b'')])])) [''node'', ''log_level''] = Some (PStr ''INFO'')"
  using overrides_by_path [of "[(''node'', PDict [(''node_id'', PStr ''b'')])]" "PStr ''INFO''"
      "[(''node'', PDict [(''node_id'', PStr ''a''), (''log_level'', PStr ''INFO'')])]"
      "[''node'', ''log_level'']"]
  by simp

end
