(* ===== verification/Py_Net.thy ===== *)
theory Py_Net
  imports Py_Text "HOL-Library.Word"
begin

text \<open>
  What peer URLs rest on in the standard library of Python, as CPython 3.11 has it: a few methods
  of \<open>str\<close>, \<open>urllib.parse.urlparse\<close> for the schemes of web sockets, and \<open>ipaddress\<close>.  Addresses are
  words of 32 and 128 bits, the latter with their scope; \<open>None\<close> stands for a \<open>ValueError\<close>.
\<close>

unbundle bit_operations_syntax

section \<open>Text\<close>

fun py_split :: "char \<Rightarrow> string \<Rightarrow> string list" where
  "py_split c [] = [[]]"
| "py_split c (d # ds) =
     (if d = c then [] # py_split c ds
      else case py_split c ds of [] \<Rightarrow> [[d]] | p # ps \<Rightarrow> (d # p) # ps)"

text \<open>\<open>s.partition(c)\<close>: the text before, whether \<open>c\<close> occurs, the text after.\<close>

definition partition_at :: "char \<Rightarrow> string \<Rightarrow> string \<times> bool \<times> string" where
  "partition_at c s = (let p = takeWhile (\<lambda>d. d \<noteq> c) s in (p, c \<in> set s, drop (Suc (length p)) s))"

text \<open>The first and the last part of \<open>s.rpartition(c)\<close>.\<close>

definition before_last :: "char \<Rightarrow> string \<Rightarrow> string" where
  "before_last c s = rev (drop 1 (dropWhile (\<lambda>d. d \<noteq> c) (rev s)))"

definition after_last :: "char \<Rightarrow> string \<Rightarrow> string" where
  "after_last c s = rev (takeWhile (\<lambda>d. d \<noteq> c) (rev s))"

text \<open>\<open>str.isdigit\<close> on code points below 256: the superscripts count as digits.\<close>

definition str_isdigit :: "string \<Rightarrow> bool" where
  "str_isdigit s = (s \<noteq> [] \<and> list_all (\<lambda>c. is_digit c \<or> code c \<in> {178, 179, 185}) s)"

fun show_hex :: "nat \<Rightarrow> string" where
  "show_hex n = (if n < 16 then [hex_digit n] else show_hex (n div 16) @ [hex_digit (n mod 16)])"

declare show_hex.simps [simp del]

section \<open>Addresses\<close>

datatype ip = V4 "32 word" | V6 "128 word" "string option"

definition parse_octet :: "string \<Rightarrow> nat option" where
  "parse_octet s =
     (if s = [] \<or> \<not> list_all is_digit s \<or> 3 < length s \<or> (s \<noteq> ''0'' \<and> hd s = CHR ''0'') then None
      else if 255 < parse_nat s then None else Some (parse_nat s))"

text \<open>The bytes and the groups of an address, the highest first.\<close>

definition octet_word :: "nat list \<Rightarrow> 32 word" where
  "octet_word ns = foldl (\<lambda>w k. push_bit 8 w OR of_nat k) 0 ns"

definition hextet_word :: "nat list \<Rightarrow> 128 word" where
  "hextet_word ns = foldl (\<lambda>w k. push_bit 16 w OR of_nat k) 0 ns"

definition ipv4_address :: "string \<Rightarrow> 32 word option" where
  "ipv4_address s =
     (if CHR ''/'' \<in> set s then None
      else let octets = py_split CHR ''.'' s in
        if length octets \<noteq> 4 then None
        else map_option octet_word (those (map parse_octet octets)))"

definition parse_hextet :: "string \<Rightarrow> nat option" where
  "parse_hextet s =
     (if s = [] \<or> 4 < length s then None
      else map_option (foldl (\<lambda>n k. 16 * n + k) 0) (those (map hex_val s)))"

text \<open>The parts between colons, a dotted tail written as two of them.\<close>

definition ipv6_parts :: "string \<Rightarrow> string list option" where
  "ipv6_parts s =
     (let parts = py_split CHR '':'' s in
      if length parts < 3 then None
      else if CHR ''.'' \<in> set (last parts)
      then map_option (\<lambda>w. butlast parts @ [show_hex (unat (drop_bit 16 w)), show_hex (unat (w AND 0xFFFF))])
             (ipv4_address (last parts))
      else Some parts)"

text \<open>The eight parts, the ones that \<open>::\<close> skips filled in.\<close>

definition eight_parts :: "string list \<Rightarrow> string list option" where
  "eight_parts parts =
     (if 9 < length parts then None
      else case filter (\<lambda>i. parts ! i = []) [1..<length parts - 1] of
          [] \<Rightarrow> if length parts \<noteq> 8 \<or> hd parts = [] \<or> last parts = [] then None else Some parts
        | [i] \<Rightarrow>
            (let hi = (if hd parts = [] then i - 1 else i);
                 lo = (if last parts = [] then length parts - i - 2 else length parts - i - 1)
             in if (hd parts = [] \<and> hi \<noteq> 0) \<or> (last parts = [] \<and> lo \<noteq> 0) then None
                else if 8 < hi + lo + 1 then None
                else Some (take hi parts @ replicate (8 - (hi + lo)) ''0'' @ drop (length parts - lo) parts))
        | _ \<Rightarrow> None)"

definition ipv6_address :: "string \<Rightarrow> (128 word \<times> string option) option" where
  "ipv6_address s =
     (case partition_at CHR ''%'' s of (addr, scoped, scope) \<Rightarrow>
        if CHR ''/'' \<in> set s \<or> (scoped \<and> (scope = [] \<or> CHR ''%'' \<in> set scope)) then None
        else Option.bind (ipv6_parts addr) (\<lambda>parts.
             Option.bind (eight_parts parts) (\<lambda>hextets.
             map_option (\<lambda>ns. (hextet_word ns, if scoped then Some scope else None))
               (those (map parse_hextet hextets)))))"

definition ip_address :: "string \<Rightarrow> ip option" where
  "ip_address s =
     (case ipv4_address s of
        Some a \<Rightarrow> Some (V4 a)
      | None \<Rightarrow> map_option (\<lambda>(a, scope). V6 a scope) (ipv6_address s))"

section \<open>Text of addresses\<close>

definition octets_of :: "32 word \<Rightarrow> nat list" where
  "octets_of a = map (\<lambda>k. unat (drop_bit k a AND 0xFF)) [24, 16, 8, 0]"

definition hextets_of :: "128 word \<Rightarrow> nat list" where
  "hextets_of a = map (\<lambda>k. unat (drop_bit k a AND 0xFFFF)) [112, 96, 80, 64, 48, 32, 16, 0]"

text \<open>A step of the loop of \<open>_compress_hextets\<close>: the longest run of zeros and the current one.\<close>

definition zero_run ::
    "nat \<times> string \<Rightarrow> (nat \<times> nat) \<times> nat option \<times> nat \<Rightarrow> (nat \<times> nat) \<times> nat option \<times> nat" where
  "zero_run ix st =
     (case (ix, st) of ((index, hextet), ((best_start, best_len), start, len)) \<Rightarrow>
        if hextet = ''0''
        then let start' = (case start of None \<Rightarrow> index | Some i \<Rightarrow> i) in
          (if best_len < Suc len then (start', Suc len) else (best_start, best_len), Some start', Suc len)
        else ((best_start, best_len), None, 0))"

definition compress_hextets :: "string list \<Rightarrow> string list" where
  "compress_hextets hs =
     (case fold zero_run (List.enumerate 0 hs) ((0, 0), None, 0) of ((start, len), _) \<Rightarrow>
        if len \<le> 1 then hs
        else let end_pos = start + len;
                 hs1 = (if end_pos = length hs then hs @ [[]] else hs);
                 hs2 = take start hs1 @ [] # drop end_pos hs1
             in if start = 0 then [] # hs2 else hs2)"

definition str_ip :: "ip \<Rightarrow> string" where
  "str_ip a =
     (case a of
        V4 w \<Rightarrow> join ''.'' (map show_nat (octets_of w))
      | V6 w scope \<Rightarrow> join '':'' (compress_hextets (map show_hex (hextets_of w))) @
          (case scope of Some (c # cs) \<Rightarrow> CHR ''%'' # c # cs | _ \<Rightarrow> []))"

section \<open>Networks\<close>

datatype ip_net = Net4 "32 word" nat | Net6 "128 word" nat

text \<open>The netmask of a prefix length: all ones except the host bits.\<close>

definition prefix_mask :: "nat \<Rightarrow> 'a::len word" where
  "prefix_mask p = (- 1) XOR drop_bit p (- 1)"

definition in_net :: "ip \<Rightarrow> ip_net \<Rightarrow> bool" where
  "in_net a n =
     (case (a, n) of
        (V4 w, Net4 base p) \<Rightarrow> w AND prefix_mask p = base
      | (V6 w _, Net6 base p) \<Rightarrow> w AND prefix_mask p = base
      | _ \<Rightarrow> False)"

text \<open>A prefix length in decimal, or for IPv4 as a netmask or hostmask.\<close>

definition prefix_length :: "nat \<Rightarrow> string \<Rightarrow> nat option" where
  "prefix_length longest s =
     (if s = [] \<or> \<not> list_all is_digit s \<or> 4300 < length s \<or> longest < parse_nat s then None
      else Some (parse_nat s))"

definition mask_length :: "32 word \<Rightarrow> nat option" where
  "mask_length w = find (\<lambda>p. prefix_mask p = w) [0..<33]"

definition ipv4_prefix :: "string \<Rightarrow> nat option" where
  "ipv4_prefix s =
     (case prefix_length 32 s of
        Some p \<Rightarrow> Some p
      | None \<Rightarrow>
          Option.bind (ipv4_address s) (\<lambda>w.
          case mask_length w of Some p \<Rightarrow> Some p | None \<Rightarrow> mask_length (w XOR - 1)))"

text \<open>\<open>ip_network(address, strict=False)\<close>.\<close>

definition ip_network :: "string \<Rightarrow> ip_net option" where
  "ip_network s =
     (let parts = py_split CHR ''/'' s; addr = hd parts in
      if 2 < length parts then None
      else case Option.bind (ipv4_address addr) (\<lambda>w.
             map_option (\<lambda>p. Net4 (w AND prefix_mask p) p)
               (if length parts = 1 then Some 32 else ipv4_prefix (parts ! 1))) of
          Some n \<Rightarrow> Some n
        | None \<Rightarrow>
            Option.bind (ipv6_address addr) (\<lambda>(w, _).
            map_option (\<lambda>p. Net6 (w AND prefix_mask p) p)
              (if length parts = 1 then Some 128 else prefix_length 128 (parts ! 1))))"

section \<open>The special registries\<close>

definition net4 :: "nat list \<Rightarrow> nat \<Rightarrow> ip_net" where
  "net4 octets p = Net4 (octet_word octets) p"

definition net6 :: "nat list \<Rightarrow> nat \<Rightarrow> ip_net" where
  "net6 hextets p = Net6 (hextet_word (take 8 (hextets @ [0, 0, 0, 0, 0, 0, 0, 0]))) p"

definition private4 :: "ip_net list" where
  "private4 =
     [net4 [0, 0, 0, 0] 8, net4 [10, 0, 0, 0] 8, net4 [127, 0, 0, 0] 8, net4 [169, 254, 0, 0] 16,
      net4 [172, 16, 0, 0] 12, net4 [192, 0, 0, 0] 24, net4 [192, 0, 0, 170] 31, net4 [192, 0, 2, 0] 24,
      net4 [192, 168, 0, 0] 16, net4 [198, 18, 0, 0] 15, net4 [198, 51, 100, 0] 24,
      net4 [203, 0, 113, 0] 24, net4 [240, 0, 0, 0] 4, net4 [255, 255, 255, 255] 32]"

definition private4_exceptions :: "ip_net list" where
  "private4_exceptions = [net4 [192, 0, 0, 9] 32, net4 [192, 0, 0, 10] 32]"

definition private6 :: "ip_net list" where
  "private6 =
     [net6 [0, 0, 0, 0, 0, 0, 0, 1] 128, net6 [] 128, net6 [0, 0, 0, 0, 0, 0xFFFF] 96,
      net6 [0x64, 0xFF9B, 1] 48, net6 [0x100] 64, net6 [0x2001] 23, net6 [0x2001, 0xDB8] 32,
      net6 [0x2002] 16, net6 [0xFC00] 7, net6 [0xFE80] 10]"

definition private6_exceptions :: "ip_net list" where
  "private6_exceptions =
     [net6 [0x2001, 1, 0, 0, 0, 0, 0, 1] 128, net6 [0x2001, 1, 0, 0, 0, 0, 0, 2] 128,
      net6 [0x2001, 3] 32, net6 [0x2001, 4, 0x112] 48, net6 [0x2001, 0x20] 28, net6 [0x2001, 0x30] 28]"

definition reserved6 :: "ip_net list" where
  "reserved6 =
     [net6 [] 8, net6 [0x100] 8, net6 [0x200] 7, net6 [0x400] 6, net6 [0x800] 5, net6 [0x1000] 4,
      net6 [0x4000] 3, net6 [0x6000] 3, net6 [0x8000] 3, net6 [0xA000] 3, net6 [0xC000] 3,
      net6 [0xE000] 4, net6 [0xF000] 5, net6 [0xF800] 6, net6 [0xFE00] 9]"

definition in_any :: "ip \<Rightarrow> ip_net list \<Rightarrow> bool" where
  "in_any a ns = list_ex (in_net a) ns"

definition ipv4_mapped :: "128 word \<Rightarrow> 32 word option" where
  "ipv4_mapped w = (if drop_bit 32 w = 0xFFFF then Some (ucast w) else None)"

definition private_v4 :: "32 word \<Rightarrow> bool" where
  "private_v4 w = (in_any (V4 w) private4 \<and> \<not> in_any (V4 w) private4_exceptions)"

definition ip_is_private :: "ip \<Rightarrow> bool" where
  "ip_is_private a =
     (case a of
        V4 w \<Rightarrow> private_v4 w
      | V6 w _ \<Rightarrow>
          (case ipv4_mapped w of
             Some v \<Rightarrow> private_v4 v
           | None \<Rightarrow> in_any a private6 \<and> \<not> in_any a private6_exceptions))"

definition ip_is_global :: "ip \<Rightarrow> bool" where
  "ip_is_global a =
     (case a of
        V4 w \<Rightarrow> \<not> in_net a (net4 [100, 64, 0, 0] 10) \<and> \<not> ip_is_private a
      | V6 _ _ \<Rightarrow> \<not> ip_is_private a)"

definition ip_is_reserved :: "ip \<Rightarrow> bool" where
  "ip_is_reserved a =
     (case a of V4 _ \<Rightarrow> in_net a (net4 [240, 0, 0, 0] 4) | V6 _ _ \<Rightarrow> in_any a reserved6)"

definition ip_is_multicast :: "ip \<Rightarrow> bool" where
  "ip_is_multicast a =
     (case a of V4 _ \<Rightarrow> in_net a (net4 [224, 0, 0, 0] 4) | V6 _ _ \<Rightarrow> in_net a (net6 [0xFF00] 8))"

definition ip_is_loopback :: "ip \<Rightarrow> bool" where
  "ip_is_loopback a = (case a of V4 _ \<Rightarrow> in_net a (net4 [127, 0, 0, 0] 8) | V6 w _ \<Rightarrow> w = 1)"

section \<open>URLs\<close>

record parse_result =
  ur_scheme :: string
  ur_netloc :: string
  ur_path :: string
  ur_query :: string
  ur_fragment :: string

definition scheme_char :: "char \<Rightarrow> bool" where
  "scheme_char c =
     ((97 \<le> code c \<and> code c \<le> 122) \<or> (65 \<le> code c \<and> code c \<le> 90) \<or> is_digit c \<or>
      c \<in> {CHR ''+'', CHR ''-'', CHR ''.''})"

text \<open>The scheme and the rest; without a scheme the URL stays whole.\<close>

definition split_scheme :: "string \<Rightarrow> string \<times> string" where
  "split_scheme url =
     (case partition_at CHR '':'' url of (front, found, after) \<Rightarrow>
        if found \<and> front \<noteq> [] \<and> scheme_char (hd front) \<and> \<not> is_digit (hd front) \<and>
           hd front \<notin> {CHR ''+'', CHR ''-'', CHR ''.''} \<and> list_all scheme_char front
        then (py_lower front, after) else ([], url))"

definition split_netloc :: "string \<Rightarrow> string \<times> string" where
  "split_netloc url =
     (if take 2 url = ''//''
      then let stop = (\<lambda>c. c \<in> {CHR ''/'', CHR ''?'', CHR ''#''}) in
        (takeWhile (\<lambda>c. \<not> stop c) (drop 2 url), dropWhile (\<lambda>c. \<not> stop c) (drop 2 url))
      else ([], url))"

text \<open>\<open>_check_bracketed_host\<close>: an IPv6 address, or \<open>v\<close>, hexadecimal digits, a dot and something.\<close>

definition bracketed_host_ok :: "string \<Rightarrow> bool" where
  "bracketed_host_ok h =
     (case h of
        CHR ''v'' # rest \<Rightarrow>
          (case partition_at CHR ''.'' rest of (digits, found, more_text) \<Rightarrow>
             found \<and> digits \<noteq> [] \<and> list_all (\<lambda>c. hex_val c \<noteq> None) digits \<and> more_text \<noteq> [])
      | _ \<Rightarrow> (case ip_address h of Some (V6 _ _) \<Rightarrow> True | _ \<Rightarrow> False))"

definition netloc_ok :: "string \<Rightarrow> bool" where
  "netloc_ok netloc =
     (if CHR ''['' \<in> set netloc \<and> CHR '']'' \<in> set netloc
      then bracketed_host_ok (fst (partition_at CHR '']'' (snd (snd (partition_at CHR ''['' netloc)))))
      else CHR ''['' \<notin> set netloc \<and> CHR '']'' \<notin> set netloc)"

definition urlparse :: "string \<Rightarrow> parse_result option" where
  "urlparse url =
     (let cleaned = filter (\<lambda>c. code c \<notin> {9, 10, 13}) (dropWhile (\<lambda>c. code c \<le> 32) url) in
      case split_scheme cleaned of (scheme, rest) \<Rightarrow>
        (case split_netloc rest of (netloc, rest1) \<Rightarrow>
           if \<not> netloc_ok netloc then None
           else case partition_at CHR ''#'' rest1 of (rest2, _, fragment) \<Rightarrow>
             (case partition_at CHR ''?'' rest2 of (path, _, query) \<Rightarrow>
                Some \<lparr>ur_scheme = scheme, ur_netloc = netloc, ur_path = path, ur_query = query,
                      ur_fragment = fragment\<rparr>)))"

definition host_info :: "string \<Rightarrow> string \<times> string" where
  "host_info netloc =
     (let info = after_last CHR ''@'' netloc in
      case partition_at CHR ''['' info of (_, found, bracketed) \<Rightarrow>
        if found
        then (case partition_at CHR '']'' bracketed of (host, _, tail) \<Rightarrow>
                (host, snd (snd (partition_at CHR '':'' tail))))
        else (case partition_at CHR '':'' info of (host, _, port) \<Rightarrow> (host, port)))"

definition url_hostname :: "parse_result \<Rightarrow> string" where
  "url_hostname u =
     (case partition_at CHR ''%'' (fst (host_info (ur_netloc u))) of (host, found, zone) \<Rightarrow>
        py_lower host @ (if found then CHR ''%'' # zone else []))"

text \<open>\<open>parsed.port\<close>: absent, a number, or a \<open>ValueError\<close>.\<close>

definition url_port :: "parse_result \<Rightarrow> nat option option" where
  "url_port u =
     (let port = snd (host_info (ur_netloc u)) in
      if port = [] then Some None
      else if list_all is_digit port \<and> length port \<le> 4300 \<and> parse_nat port \<le> 65535
      then Some (Some (parse_nat port)) else None)"

text \<open>Whether the user name or the password is not empty.\<close>

definition has_userinfo :: "parse_result \<Rightarrow> bool" where
  "has_userinfo u =
     (case partition_at CHR '':'' (before_last CHR ''@'' (ur_netloc u)) of (user, _, password) \<Rightarrow>
        user \<noteq> [] \<or> password \<noteq> [])"

section \<open>Facts\<close>

lemma partition_found: "c \<notin> set p \<Longrightarrow> partition_at c (p @ c # r) = (p, True, r)"
  by (auto simp: partition_at_def Let_def takeWhile_append takeWhile_eq_all_conv)

lemma partition_none: "c \<notin> set s \<Longrightarrow> partition_at c s = (s, False, [])"
proof -
  assume c: "c \<notin> set s"
  then have "takeWhile (\<lambda>d. d \<noteq> c) s = s" by (auto simp only: takeWhile_eq_all_conv)
  with c show ?thesis by (simp only: partition_at_def Let_def) simp
qed

lemma prefix_mask_not: "p \<le> LENGTH('a) \<Longrightarrow> (prefix_mask p :: 'a::len word) = NOT (mask (LENGTH('a) - p))"
  by (rule bit_word_eqI) (auto simp: prefix_mask_def bit_simps)

text \<open>An address lies in a network when the bits of the prefix agree.\<close>

lemma and_high_bits:
  fixes w b :: "'a::len word"
  assumes "b AND NOT (mask k) = b"
  shows "w AND NOT (mask k) = b \<longleftrightarrow> unat w div 2 ^ k = unat b div 2 ^ k"
proof -
  have high: "x AND NOT (mask k) = push_bit k (drop_bit k x)" for x :: "'a word"
    by (rule bit_word_eqI) (auto simp: bit_simps)
  have again: "drop_bit k (push_bit k (drop_bit k x)) = drop_bit k x" for x :: "'a word"
    by (rule bit_word_eqI) (auto simp: bit_simps dest: bit_imp_le_length)
  have "w AND NOT (mask k) = b \<longleftrightarrow> drop_bit k w = drop_bit k b"
    using assms high again by metis
  also have "\<dots> \<longleftrightarrow> unat (drop_bit k w) = unat (drop_bit k b)" by (rule word_unat_eq_iff)
  finally show ?thesis by (simp only: unat_drop_bit_eq) (simp only: drop_bit_eq_div)
qed

lemma in_net4_iff:
  assumes "p \<le> 32" "b AND prefix_mask p = b"
  shows "in_net (V4 w) (Net4 b p) \<longleftrightarrow> unat w div 2 ^ (32 - p) = unat b div 2 ^ (32 - p)"
  using assms and_high_bits [of b "32 - p" w] by (simp add: in_net_def prefix_mask_not)

lemma in_net6_iff:
  assumes "p \<le> 128" "b AND prefix_mask p = b"
  shows "in_net (V6 w scope) (Net6 b p) \<longleftrightarrow> unat w div 2 ^ (128 - p) = unat b div 2 ^ (128 - p)"
  using assms and_high_bits [of b "128 - p" w] by (simp add: in_net_def prefix_mask_not)

text \<open>Membership in a network that is written out, as an equation of high bits.\<close>

lemmas net_eval = net4_def net6_def octet_word_def hextet_word_def in_net4_iff in_net6_iff
  prefix_mask_not mask_eq_exp_minus_1

text \<open>The high bits of a number as the high bits of its high part.\<close>

lemma div_div_nat: "n div (a :: nat) div b = n div (a * b)"
  by (simp add: div_mult2_eq)

lemma div_eq_range: "0 < k \<Longrightarrow> m div k = c \<longleftrightarrow> c * k \<le> m \<and> m < Suc c * (k :: nat)"
  by (metis div_less_iff_less_mult less_eq_div_iff_mult_less_eq less_Suc_eq_le order_antisym order_refl)

lemma unat_shift: "unat (drop_bit k w) = unat w div 2 ^ k"
  by (simp only: unat_drop_bit_eq) (simp only: drop_bit_eq_div)

lemma unat_low:
  fixes w :: "'a::len word"
  shows "unat (w AND mask k) = unat w mod 2 ^ k"
proof -
  have "unat (w AND mask k) = take_bit k (unat w)"
    by (simp only: take_bit_eq_mask [symmetric] unsigned_take_bit_eq)
  then show ?thesis by (simp only: take_bit_eq_mod)
qed

lemma octets_of_div:
  "octets_of w = [unat w div 16777216, unat w div 65536 mod 256, unat w div 256 mod 256, unat w mod 256]"
proof -
  have low: "unat (v AND 0xFF) = unat v mod 256" for v :: "32 word"
    using unat_low [of v 8] by (simp add: mask_eq_exp_minus_1)
  have "unat w div 16777216 < 256" using unsigned_less [where ?'a = nat, of w] by (simp add: less_mult_imp_div_less)
  then show ?thesis
    using unat_shift [of 24 w] unat_shift [of 16 w] unat_shift [of 8 w]
    by (simp add: octets_of_def low del: unsigned_and_eq)
qed

text \<open>The first group of eight.\<close>

definition group1 :: "128 word \<Rightarrow> nat" where
  "group1 w = unat w div 5192296858534827628530496329220096"

lemma hd_hextets: "hd (hextets_of w) = group1 w"
proof -
  have "unat (v AND 0xFFFF) = unat v mod 65536" for v :: "128 word"
    using unat_low [of v 16] by (simp add: mask_eq_exp_minus_1)
  moreover have "group1 w < 65536" using unsigned_less [where ?'a = nat, of w] by (simp add: group1_def less_mult_imp_div_less)
  ultimately show ?thesis
    using unat_shift [of 112 w] by (simp add: hextets_of_def group1_def del: unsigned_and_eq)
qed

section \<open>Which addresses are public\<close>

text \<open>The first two octets of a public IPv4 address, and the first group of a public IPv6 one.\<close>

definition public_v4 :: "nat \<Rightarrow> nat \<Rightarrow> bool" where
  "public_v4 a b =
     (a \<notin> {0, 10, 127} \<and> a < 224 \<and> (a = 100 \<longrightarrow> b < 64 \<or> 127 < b) \<and> (a = 169 \<longrightarrow> b \<noteq> 254) \<and>
      (a = 172 \<longrightarrow> b < 16 \<or> 31 < b) \<and> (a = 192 \<longrightarrow> b \<noteq> 168) \<and> (a = 198 \<longrightarrow> b \<notin> {18, 19}))"

definition public_v6 :: "nat \<Rightarrow> bool" where
  "public_v6 h = ((0x2000 \<le> h \<and> h < 0x4000 \<and> h \<noteq> 0x2002) \<or> (0xFEC0 \<le> h \<and> h \<le> 0xFEFF))"

lemma public_v4_sixteen_bits:
  assumes "a \<notin> {0, 10, 127}" "m = 256 * a + b" "m \<noteq> 43518" "m \<noteq> 49320" "m < 57344"
    "\<not> (44048 \<le> m \<and> m < 44064)" "\<not> (50706 \<le> m \<and> m < 50708)" "\<not> (25664 \<le> m \<and> m < 25728)"
  shows "public_v4 a b"
  using assms by (auto simp: public_v4_def)

lemma public_v4_range:
  assumes "ip_is_global (V4 w)" "\<not> ip_is_reserved (V4 w)" "\<not> ip_is_multicast (V4 w)"
  shows "public_v4 (unat w div 16777216) (unat w div 65536 mod 256)"
proof -
  define m where "m = unat w div 65536"
  have parts: "unat w div 16777216 = m div 256" "unat w div 1048576 = m div 16" "unat w div 131072 = m div 2"
    "unat w div 268435456 = m div 4096" "unat w div 4194304 = m div 64"
    by (simp_all add: m_def div_div_nat)
  have special: "m = 49152" if "in_any (V4 w) private4_exceptions"
    using that by (auto simp: in_any_def private4_exceptions_def net_eval m_def)
  have "m div 256 \<notin> {0, 10, 127} \<and> m \<noteq> 43518 \<and> m div 16 \<noteq> 2753 \<and> m \<noteq> 49320 \<and> m div 2 \<noteq> 25353"
  proof (cases "in_any (V4 w) private4_exceptions")
    case False
    with assms(1) have "\<not> in_any (V4 w) private4" by (simp add: ip_is_global_def ip_is_private_def private_v4_def)
    then show ?thesis by (simp add: in_any_def private4_def net_eval parts m_def [symmetric])
  qed (use special in simp)
  moreover have "m div 64 \<noteq> 401" using assms(1) by (simp add: ip_is_global_def net_eval parts)
  moreover have "m div 4096 \<noteq> 15" "m div 4096 \<noteq> 14"
    using assms(2,3) by (simp_all add: ip_is_reserved_def ip_is_multicast_def net_eval parts)
  moreover have "m < 65536" using unsigned_less [where ?'a = nat, of w] by (simp add: m_def less_mult_imp_div_less)
  ultimately have "m div 256 \<notin> {0, 10, 127}" "m \<noteq> 43518" "m \<noteq> 49320" "m < 57344"
      "\<not> (44048 \<le> m \<and> m < 44064)" "\<not> (50706 \<le> m \<and> m < 50708)" "\<not> (25664 \<le> m \<and> m < 25728)"
    by (simp_all add: div_eq_range)
  then show ?thesis
    using public_v4_sixteen_bits [of "m div 256" m "m mod 256"] by (simp add: parts m_def [symmetric])
qed

lemma public_v6_range:
  assumes "ip_is_global (V6 w s)" "\<not> ip_is_reserved (V6 w s)" "\<not> ip_is_multicast (V6 w s)" "ipv4_mapped w = None"
  shows "public_v6 (group1 w)"
proof -
  define h where "h = group1 w"
  have h: "unat w div 5192296858534827628530496329220096 = h" by (simp add: h_def group1_def)
  have parts: "unat w div 1329227995784915872903807060280344576 = h div 256"
    "unat w div 2658455991569831745807614120560689152 = h div 512"
    "unat w div 5316911983139663491615228241121378304 = h div 1024"
    "unat w div 10633823966279326983230456482242756608 = h div 2048"
    "unat w div 21267647932558653966460912964485513216 = h div 4096"
    "unat w div 42535295865117307932921825928971026432 = h div 8192"
    "unat w div 664613997892457936451903530140172288 = h div 128"
    "unat w div 332306998946228968225951765070086144 = h div 64"
    by (simp_all add: h [symmetric] div_div_nat)
  have special: "h = 0x2001" if "in_any (V6 w s) private6_exceptions"
  proof -
    have low: "h = unat w div 79228162514264337593543950336 div 65536"
      "h = unat w div 1208925819614629174706176 div 4294967296"
      "h = unat w div 1267650600228229401496703205376 div 4096"
      by (simp_all add: h [symmetric] div_div_nat)
    from that have "unat w = 42540488241204005274814694018844196865 \<or>
        unat w = 42540488241204005274814694018844196866 \<or>
        unat w div 79228162514264337593543950336 = 536936451 \<or>
        unat w div 1208925819614629174706176 = 35188667318546 \<or>
        unat w div 1267650600228229401496703205376 \<in> {33558530, 33558531}"
      by (simp add: in_any_def private6_exceptions_def net_eval)
    then show ?thesis using low by (elim disjE) auto
  qed
  have "h \<noteq> 0x2002 \<and> h div 512 \<noteq> 126 \<and> h div 64 \<noteq> 1018"
  proof (cases "in_any (V6 w s) private6_exceptions")
    case False
    with assms(1,4) have "\<not> in_any (V6 w s) private6" by (simp add: ip_is_global_def ip_is_private_def)
    then show ?thesis by (simp add: in_any_def private6_def net_eval parts h)
  qed (use special in simp)
  moreover have "h div 256 \<noteq> 255" using assms(3) by (simp add: ip_is_multicast_def net_eval parts)
  ultimately have high: "\<not> (0xFE80 \<le> h \<and> h < 0xFEC0)" "\<not> (0xFC00 \<le> h \<and> h < 0xFE00)" "h \<noteq> 0x2002"
      "\<not> (0xFF00 \<le> h \<and> h < 0x10000)"
    by (simp_all add: div_eq_range)
  have "\<not> in_any (V6 w s) reserved6" using assms(2) by (simp add: ip_is_reserved_def)
  then have r: "\<not> h < 256" "\<not> (256 \<le> h \<and> h < 512)" "\<not> (512 \<le> h \<and> h < 1024)" "\<not> (1024 \<le> h \<and> h < 2048)"
      "\<not> (2048 \<le> h \<and> h < 4096)" "\<not> (4096 \<le> h \<and> h < 8192)"
    and r': "\<not> (0x4000 \<le> h \<and> h < 0x6000)" "\<not> (0x6000 \<le> h \<and> h < 0x8000)" "\<not> (0x8000 \<le> h \<and> h < 0xA000)"
      "\<not> (0xA000 \<le> h \<and> h < 0xC000)" "\<not> (0xC000 \<le> h \<and> h < 0xE000)" "\<not> (0xE000 \<le> h \<and> h < 0xF000)"
      "\<not> (0xF000 \<le> h \<and> h < 0xF800)" "\<not> (0xF800 \<le> h \<and> h < 0xFC00)" "\<not> (0xFE00 \<le> h \<and> h < 0xFE80)"
    by (simp_all add: in_any_def reserved6_def net_eval parts div_eq_range)
  from r have "0x2000 \<le> h" by linarith
  moreover have "h < 0x10000"
    using unsigned_less [where ?'a = nat, of w] by (simp add: h [symmetric] less_mult_imp_div_less)
  moreover from r' high this have "0xFEC0 \<le> h \<and> h < 0xFF00" if "0x4000 \<le> h" using that by linarith
  ultimately show ?thesis using high(3) unfolding public_v6_def h_def [symmetric] by linarith
qed

section \<open>Text of IPv4 addresses\<close>

lemma py_split_none: "c \<notin> set s \<Longrightarrow> py_split c s = [s]"
  by (induction s) auto

lemma py_split_append: "c \<notin> set s \<Longrightarrow> py_split c (s @ c # t) = s # py_split c t"
  by (induction s) auto

lemma py_split_join: "ps \<noteq> [] \<Longrightarrow> list_all (\<lambda>p. c \<notin> set p) ps \<Longrightarrow> py_split c (join [c] ps) = ps"
proof (induction ps rule: induct_list012)
  case (3 p q ps)
  then show ?case by (simp add: py_split_append)
qed (simp_all add: py_split_none)

lemma show_nat_no: "\<not> is_digit c \<Longrightarrow> c \<notin> set (show_nat n)"
  using show_nat_digits [of n] by (auto simp: list_all_iff)

lemma parse_octet_show:
  assumes "n < 256"
  shows "parse_octet (show_nat n) = Some n"
proof -
  have "length (show_nat n) \<le> 3 \<and> (show_nat n = ''0'' \<or> hd (show_nat n) \<noteq> CHR ''0'')"
  proof -
    have zero: "digit_char d = CHR ''0'' \<longleftrightarrow> d = 0" if "d < 10" for d
    proof -
      have "digit_val CHR ''0'' = 0" "digit_char 0 = CHR ''0''" by code_simp+
      with digit_val_char [OF that] show ?thesis by metis
    qed
    consider "n < 10" | "10 \<le> n" "n < 100" | "100 \<le> n" by linarith
    then show ?thesis
    proof cases
      case 1
      then show ?thesis using zero [of n] by (auto simp: show_nat.simps digit_char_def)
    next
      case 2
      then have "n div 10 < 10" "0 < n div 10" by (simp_all add: less_mult_imp_div_less div_greater_zero_iff)
      with 2 show ?thesis using zero [of "n div 10"] by (simp add: show_nat.simps [of n] show_nat.simps [of "n div 10"])
    next
      case 3
      then have "n div 100 < 10" "0 < n div 100" "\<not> n div 10 < 10"
        using assms by (simp_all add: less_mult_imp_div_less div_greater_zero_iff div_less_iff_less_mult)
      with 3 show ?thesis using assms zero [of "n div 10 div 10"]
        by (simp add: show_nat.simps [of n] show_nat.simps [of "n div 10"] show_nat.simps [of "n div 100"] div_div_nat)
    qed
  qed
  then show ?thesis using assms show_nat_digits [of n] by (auto simp: parse_octet_def)
qed

lemma octets_small: "list_all (\<lambda>n. n < 256) (octets_of w)"
  using unsigned_less [where ?'a = nat, of w] by (simp add: octets_of_div less_mult_imp_div_less)

lemma octet_word_octets: "octet_word (octets_of w) = w"
proof -
  have "0xFF = (mask 8 :: 32 word)" by (simp add: mask_eq_exp_minus_1)
  then have "octet_word (octets_of w) =
      push_bit 8 (push_bit 8 (push_bit 8 (drop_bit 24 w AND mask 8) OR (drop_bit 16 w AND mask 8)) OR
        (drop_bit 8 w AND mask 8)) OR (w AND mask 8)"
    by (simp only: octet_word_def octets_of_def list.map foldl.simps) (simp del: unsigned_and_eq)
  also have "\<dots> = w"
  proof (rule bit_word_eqI)
    fix n assume "n < LENGTH(32)"
    then consider "n < 8" | "8 \<le> n" "n < 16" | "16 \<le> n" "n < 24" | "24 \<le> n" "n < 32" by force
    then show "bit (push_bit 8 (push_bit 8 (push_bit 8 (drop_bit 24 w AND mask 8) OR (drop_bit 16 w AND mask 8)) OR
        (drop_bit 8 w AND mask 8)) OR (w AND mask 8)) n = bit w n"
      by cases (auto simp: bit_simps)
  qed
  finally show ?thesis .
qed

lemma ip_address_str_v4: "ip_address (str_ip (V4 w)) = Some (V4 w)"
proof -
  let ?t = "join ''.'' (map show_nat (octets_of w))"
  have no: "CHR ''.'' \<notin> set (show_nat n)" "CHR ''/'' \<notin> set (show_nat n)" for n
    using show_nat_no by (simp_all add: is_digit_def)
  have no: "CHR ''.'' \<notin> set (show_nat n)" "CHR ''/'' \<notin> set (show_nat n)" for n
    using show_nat_no by (simp_all add: is_digit_def)
  have split: "py_split CHR ''.'' ?t = map show_nat (octets_of w)"
    by (rule py_split_join) (simp_all add: octets_of_def no)
  have "CHR ''/'' \<notin> set ?t"
    by (simp add: octets_of_def no)
  moreover have "those (map parse_octet (map show_nat (octets_of w))) = Some (octets_of w)"
    using octets_small [of w] parse_octet_show by (simp add: octets_of_def del: unsigned_and_eq)
  moreover have "length (octets_of w) = 4" by (simp add: octets_of_def)
  ultimately have "ipv4_address ?t = Some w"
    by (simp add: ipv4_address_def split octet_word_octets Let_def)
  then show ?thesis by (simp add: ip_address_def str_ip_def)
qed
end
