(* ===== verification/Peer_Url.thy ===== *)
theory Peer_Url
  imports Py_Net Tls
begin

text \<open>
  \<open>network/peer_url.py\<close>: which URLs a node keeps and dials.  \<open>socket.getaddrinfo\<close> is the argument
  \<open>gai\<close>: the families and texts of the addresses of a name, or \<open>None\<close> when it raises.
\<close>

datatype addr_family = AF_INET | AF_INET6 | AF_OTHER

type_synonym resolver = "string \<Rightarrow> (addr_family \<times> string) list option"

record connect_target =
  ct_url :: string
  ct_host :: string
  ct_port :: int
  ct_hostname :: string

section \<open>Addresses\<close>

definition parse_blocked_networks :: "string list \<Rightarrow> ip_net list" where
  "parse_blocked_networks cidrs = List.map_filter ip_network cidrs"

text \<open>The loop over the answers of the resolver; texts already seen are skipped.\<close>

fun collect_ips :: "string list \<Rightarrow> (addr_family \<times> string) list \<Rightarrow> ip list" where
  "collect_ips seen [] = []"
| "collect_ips seen ((family, host) # infos) =
     (if family = AF_OTHER \<or> host \<in> set seen then collect_ips seen infos
      else (case ip_address host of Some a \<Rightarrow> [a] | None \<Rightarrow> []) @ collect_ips (host # seen) infos)"

definition resolve_host_ips :: "resolver \<Rightarrow> string \<Rightarrow> ip list" where
  "resolve_host_ips gai hostname =
     (case gai hostname of None \<Rightarrow> [] | Some infos \<Rightarrow> collect_ips [] infos)"

definition METADATA_IPS :: "ip list" where
  "METADATA_IPS = List.map_filter ip_address [''169.254.169.254'', ''fd00:ec2::254'']"

definition normalize_ip :: "ip \<Rightarrow> ip" where
  "normalize_ip a =
     (case a of
        V4 w \<Rightarrow> V4 w
      | V6 w scope \<Rightarrow> (case ipv4_mapped w of Some v \<Rightarrow> V4 v | None \<Rightarrow> V6 w scope))"

definition is_restricted_ip :: "bool \<Rightarrow> ip_net list \<Rightarrow> ip \<Rightarrow> bool" where
  "is_restricted_ip allow_private blocked a =
     (let b = normalize_ip a in
      if b \<in> set METADATA_IPS then True
      else if in_any b blocked then True
      else if allow_private then False
      else \<not> ip_is_global b \<or> ip_is_reserved b \<or> ip_is_multicast b)"

section \<open>Ports\<close>

definition default_port_for_scheme :: "string \<Rightarrow> int" where
  "default_port_for_scheme scheme = (if scheme = ''wss'' then 443 else 80)"

definition is_private_peer_target :: "ip list \<Rightarrow> bool" where
  "is_private_peer_target ips = (ips \<noteq> [] \<and> list_all (\<lambda>a. ip_is_private a \<or> ip_is_loopback a) ips)"

definition resolve_peer_port :: "parse_result \<Rightarrow> int list \<Rightarrow> ip list \<Rightarrow> bool \<Rightarrow> int option" where
  "resolve_peer_port parsed allowed_ports ips allow_private =
     (case url_port parsed of
        None \<Rightarrow> None
      | Some explicit \<Rightarrow>
          let port = (case explicit of Some n \<Rightarrow> int n | None \<Rightarrow> default_port_for_scheme (ur_scheme parsed)) in
          if port \<in> set allowed_ports then Some port
          else if allow_private \<and> is_private_peer_target ips then Some port
          else None)"

section \<open>URLs\<close>

definition parse_peer_url :: "string \<Rightarrow> network_settings \<Rightarrow> environment \<Rightarrow> parse_result option" where
  "parse_peer_url url st env =
     (if url = [] then None
      else case urlparse url of
          None \<Rightarrow> None
        | Some parsed \<Rightarrow>
            let scheme = py_lower (ur_scheme parsed); tls = tls_enabled (nw_tls st) in
            if scheme \<notin> {''ws'', ''wss''} then None
            else if scheme = ''ws'' \<and> rejects_plain_websocket tls env then None
            else if \<not> url_scheme_matches_tls url tls then None
            else if url_hostname parsed = [] then None
            else if has_userinfo parsed then None
            else if ur_fragment parsed \<noteq> [] then None
            else if ur_query parsed \<noteq> [] then None
            else if ur_path parsed \<notin> {[], ''/''} then None
            else Some parsed)"

definition has_ambiguous_ipv4_notation :: "string \<Rightarrow> bool" where
  "has_ambiguous_ipv4_notation hostname =
     (let parts = py_split CHR ''.'' hostname in
      if length parts \<noteq> 4 then False
      else if \<not> list_all str_isdigit parts then False
      else list_ex (\<lambda>part. 1 < length part \<and> hd part = CHR ''0'') parts)"

definition resolve_peer_ips :: "resolver \<Rightarrow> string \<Rightarrow> ip list" where
  "resolve_peer_ips gai hostname =
     (if has_ambiguous_ipv4_notation hostname then []
      else case ip_address hostname of
          Some a \<Rightarrow> [a]
        | None \<Rightarrow> resolve_host_ips gai hostname)"

definition peer_ips_allowed :: "ip list \<Rightarrow> network_settings \<Rightarrow> bool" where
  "peer_ips_allowed ips st =
     (if ips = [] then False
      else list_all (\<lambda>a. \<not> is_restricted_ip (pc_allow_private_ips (nw_peer_connect st))
             (parse_blocked_networks (pc_blocked_cidrs (nw_peer_connect st))) a) ips)"

definition validate_peer_url ::
    "resolver \<Rightarrow> string \<Rightarrow> network_settings \<Rightarrow> environment \<Rightarrow> string option" where
  "validate_peer_url gai url st env =
     (case parse_peer_url url st env of
        None \<Rightarrow> None
      | Some parsed \<Rightarrow>
          let ips = resolve_peer_ips gai (url_hostname parsed); pc = nw_peer_connect st in
          if \<not> peer_ips_allowed ips st then None
          else if resolve_peer_port parsed (pc_allowed_ports pc) ips (pc_allow_private_ips pc) = None then None
          else Some url)"

definition resolve_peer_connect_target ::
    "resolver \<Rightarrow> string \<Rightarrow> network_settings \<Rightarrow> environment \<Rightarrow> connect_target option" where
  "resolve_peer_connect_target gai url st env =
     (case parse_peer_url url st env of
        None \<Rightarrow> None
      | Some parsed \<Rightarrow>
          let hostname = url_hostname parsed; ips = resolve_peer_ips gai hostname;
              pc = nw_peer_connect st in
          if \<not> peer_ips_allowed ips st then None
          else case resolve_peer_port parsed (pc_allowed_ports pc) ips (pc_allow_private_ips pc) of
              None \<Rightarrow> None
            | Some port \<Rightarrow>
                Some \<lparr>ct_url = url, ct_host = str_ip (hd ips), ct_port = port, ct_hostname = hostname\<rparr>)"

section \<open>What an accepted URL points to\<close>

text \<open>An address that is public once an embedded IPv4 address is taken out.\<close>

definition public_ip :: "ip \<Rightarrow> bool" where
  "public_ip a =
     (case normalize_ip a of
        V4 w \<Rightarrow> public_v4 (octets_of w ! 0) (octets_of w ! 1)
      | V6 w _ \<Rightarrow> public_v6 (hd (hextets_of w)))"

lemma normalize_V6: "normalize_ip a = V6 w s \<Longrightarrow> ipv4_mapped w = None"
  by (auto simp: normalize_ip_def split: ip.splits option.splits)

lemma unrestricted_public:
  assumes "\<not> is_restricted_ip False blocked a"
  shows "public_ip a"
proof (cases "normalize_ip a")
  case (V4 w)
  with assms public_v4_range [of w] show ?thesis
    by (auto simp: is_restricted_ip_def Let_def public_ip_def octets_of_div split: if_splits)
next
  case (V6 w s)
  with assms public_v6_range [of w s] normalize_V6 [OF V6] show ?thesis
    by (auto simp: is_restricted_ip_def Let_def public_ip_def hd_hextets split: if_splits)
qed

lemma unrestricted_unblocked:
  "\<not> is_restricted_ip p blocked a \<Longrightarrow>
   normalize_ip a \<notin> set METADATA_IPS \<and> (\<forall>n\<in>set blocked. \<not> in_net (normalize_ip a) n)"
  by (auto simp: is_restricted_ip_def Let_def in_any_def list_ex_iff split: if_splits)

text \<open>A URL that begins with \<open>ws://\<close> has the scheme \<open>ws\<close>.\<close>

lemma ws_url_scheme:
  assumes "starts_with url ''ws://''" "urlparse url = Some u"
  shows "ur_scheme u = ''ws''"
proof -
  from assms(1) obtain rest where url: "url = ''ws://'' @ rest"
    by (metis append_take_drop_id starts_with_def)
  have "split_scheme (''ws:'' @ r) = (''ws'', r)" for r
    by (simp add: split_scheme_def partition_at_def scheme_char_def is_digit_def py_lower_def)
  then have "\<exists>r. split_scheme (filter (\<lambda>c. code c \<notin> {9, 10, 13}) (dropWhile (\<lambda>c. code c \<le> 32) url)) = (''ws'', r)"
    unfolding url by auto
  with assms(2) show ?thesis
    by (auto simp: urlparse_def Let_def split: prod.splits if_splits)
qed

lemma parse_peer_url_encrypted:
  assumes "parse_peer_url url st env = Some u" "tls_enabled (nw_tls st) \<or> env = Production"
  shows "starts_with url ''wss://''"
proof -
  from assms(1) have "urlparse url = Some u" "py_lower (ur_scheme u) = ''ws'' \<longrightarrow> \<not> rejects_plain_websocket (tls_enabled (nw_tls st)) env"
    "url_scheme_matches_tls url (tls_enabled (nw_tls st))"
    by (auto simp: parse_peer_url_def Let_def split: if_splits option.splits)
  with assms(2) ws_url_scheme [of url u] show ?thesis
    by (auto simp: rejects_plain_websocket_def url_scheme_matches_tls_def py_lower_def split: if_splits)
qed


section \<open>Evaluated samples\<close>

lemma replicate_eval: "replicate (numeral n) x = x # replicate (pred_numeral n) x"
  by (simp add: numeral_eq_Suc)

lemmas ip_eval = ip_address_def ipv4_address_def parse_octet_def is_digit_def parse_nat_def digit_val_def
  octet_word_def Let_def ipv6_address_def partition_at_def ipv6_parts_def eight_parts_def parse_hextet_def
  hex_val_def hextet_word_def upt_conv_Cons replicate_eval map_filter_simps

lemma metadata_eval: "METADATA_IPS = [V4 0xA9FEA9FE, V6 0xFD000EC2000000000000000000000254 None]"
  by (simp add: METADATA_IPS_def ip_eval)

lemma default_blocked_eval:
  "parse_blocked_networks DEFAULT_BLOCKED_PEER_CIDRS =
     [Net4 0x7F000000 8, Net4 0x0A000000 8, Net4 0xAC100000 12, Net4 0xC0A80000 16, Net4 0xA9FE0000 16,
      Net4 0x64400000 10]"
  by (simp add: DEFAULT_BLOCKED_PEER_CIDRS_def parse_blocked_networks_def ip_network_def
      ip_eval ipv4_prefix_def prefix_length_def prefix_mask_not mask_eq_exp_minus_1)

lemmas url_eval = urlparse_def split_scheme_def scheme_char_def split_netloc_def netloc_ok_def
  bracketed_host_ok_def host_info_def url_hostname_def url_port_def has_userinfo_def before_last_def
  after_last_def url_scheme_matches_tls_def starts_with_def rejects_plain_websocket_def py_lower_def

lemma sample_parse:
  "parse_peer_url ''ws://peer.example:8765'' default_network Development =
     Some \<lparr>ur_scheme = ''ws'', ur_netloc = ''peer.example:8765'', ur_path = [], ur_query = [], ur_fragment = []\<rparr>"
  by (simp add: parse_peer_url_def url_eval ip_eval default_network_def default_tls_def)

definition sample_resolver :: resolver where
  "sample_resolver name = (if name = ''peer.example'' then Some [(AF_INET, ''8.8.4.4'')] else None)"

lemma sample_ips: "resolve_peer_ips sample_resolver ''peer.example'' = [V4 0x08080404]"
  by (simp add: resolve_peer_ips_def has_ambiguous_ipv4_notation_def resolve_host_ips_def sample_resolver_def ip_eval)

lemma sample_unrestricted:
  "\<not> is_restricted_ip False (parse_blocked_networks DEFAULT_BLOCKED_PEER_CIDRS) (V4 0x08080404)"
  by (simp add: is_restricted_ip_def normalize_ip_def metadata_eval default_blocked_eval in_any_def in_net4_iff
      prefix_mask_not mask_eq_exp_minus_1 ip_is_global_def ip_is_private_def private_v4_def private4_def
      net_eval ip_is_reserved_def ip_is_multicast_def)

lemma sample_target:
  "resolve_peer_connect_target sample_resolver ''ws://peer.example:8765'' default_network Development =
     Some \<lparr>ct_url = ''ws://peer.example:8765'', ct_host = ''8.8.4.4'', ct_port = 8765, ct_hostname = ''peer.example''\<rparr>"
proof -
  have "str_ip (V4 0x08080404) = ''8.8.4.4''"
    by (simp add: str_ip_def octets_of_def show_nat.simps digit_char_def) code_simp
  moreover have "peer_ips_allowed [V4 0x08080404] default_network"
    using sample_unrestricted by (simp add: peer_ips_allowed_def default_network_def default_peer_connect_def)
  moreover have "nw_peer_connect default_network = default_peer_connect" by (simp add: default_network_def)
  ultimately show ?thesis
    by (simp add: resolve_peer_connect_target_def sample_parse sample_ips url_hostname_def host_info_def after_last_def
        partition_at_def py_lower_def resolve_peer_port_def url_port_def is_digit_def parse_nat_def digit_val_def
        default_peer_connect_def Let_def)
qed


section \<open>Metadata addresses\<close>

definition private_network :: network_settings where
  "private_network = default_network\<lparr>nw_peer_connect := default_peer_connect\<lparr>pc_allow_private_ips := True\<rparr>\<rparr>"

lemma bracketed_parse:
  "parse_peer_url ''ws://[fd00:ec2::254]:80'' private_network Development =
     Some \<lparr>ur_scheme = ''ws'', ur_netloc = ''[fd00:ec2::254]:80'', ur_path = [], ur_query = [], ur_fragment = []\<rparr>"
  "parse_peer_url ''ws://[fd00:ec2::254%1]:80'' private_network Development =
     Some \<lparr>ur_scheme = ''ws'', ur_netloc = ''[fd00:ec2::254%1]:80'', ur_path = [], ur_query = [], ur_fragment = []\<rparr>"
  by (simp_all add: parse_peer_url_def url_eval ip_eval private_network_def default_network_def default_tls_def)

lemma bracketed_ips:
  "resolve_peer_ips gai ''fd00:ec2::254'' = [V6 0xFD000EC2000000000000000000000254 None]"
  "resolve_peer_ips gai ''fd00:ec2::254%1'' = [V6 0xFD000EC2000000000000000000000254 (Some ''1'')]"
  by (simp_all add: resolve_peer_ips_def has_ambiguous_ipv4_notation_def ip_eval)

text \<open>
  The addresses of cloud metadata services are meant to be refused even where private addresses
  are allowed; the IPv6 one passes when it is written with a scope.
\<close>

theorem scoped_metadata_accepted:
  "validate_peer_url gai ''ws://[fd00:ec2::254]:80'' private_network Development = None \<and>
   validate_peer_url gai ''ws://[fd00:ec2::254%1]:80'' private_network Development =
     Some ''ws://[fd00:ec2::254%1]:80''"
proof -
  have "\<not> peer_ips_allowed [V6 0xFD000EC2000000000000000000000254 None] private_network"
    "peer_ips_allowed [V6 0xFD000EC2000000000000000000000254 (Some ''1'')] private_network"
    by (simp_all add: peer_ips_allowed_def private_network_def default_peer_connect_def is_restricted_ip_def
        normalize_ip_def ipv4_mapped_def metadata_eval default_blocked_eval in_any_def in_net_def)
  moreover have "nw_peer_connect private_network = default_peer_connect\<lparr>pc_allow_private_ips := True\<rparr>"
    by (simp add: private_network_def)
  ultimately show ?thesis
    by (simp add: validate_peer_url_def bracketed_parse bracketed_ips url_hostname_def host_info_def after_last_def
        partition_at_def py_lower_def resolve_peer_port_def url_port_def is_digit_def parse_nat_def digit_val_def
        default_peer_connect_def Let_def)
qed

end
