(* ===== verification/Reconnect.thy ===== *)
theory Reconnect
  imports Float_Order Ebc_Types
begin

text \<open>
  \<open>network/reconnect.py\<close>: when to dial a peer again.  \<open>math.log\<close> and the power of a float are
  those of the C library: the arguments \<open>lg\<close> and \<open>pw\<close>.  The clock is an argument.
\<close>

record reconnect =
  rm_settings :: reconnect_settings
  rm_attempts :: "(string \<times> int) list"
  rm_next :: "(string \<times> pyfloat) list"

definition new_reconnect :: "reconnect_settings \<Rightarrow> reconnect" where
  "new_reconnect st = \<lparr>rm_settings = st, rm_attempts = [], rm_next = []\<rparr>"

definition attempts_of :: "string \<Rightarrow> reconnect \<Rightarrow> int" where
  "attempts_of url rm = (case map_of (rm_attempts rm) url of None \<Rightarrow> 0 | Some n \<Rightarrow> n)"

text \<open>The exponent of the delay, bounded so that the power stays in range.\<close>

definition backoff_exponent :: "(pyfloat \<Rightarrow> pyfloat res) \<Rightarrow> reconnect_settings \<Rightarrow> int \<Rightarrow> int res" where
  "backoff_exponent lg st attempts =
     (let initial = rc_initial_delay st; multiplier = rc_multiplier st; max_delay = rc_max_delay st in
      if float_lt (Fin 1) multiplier \<and> float_lt (Fin 0) initial
      then if float_lt initial max_delay
           then bindE (float_div max_delay initial) (\<lambda>q.
                bindE (lg q) (\<lambda>a.
                bindE (lg multiplier) (\<lambda>b.
                bindE (float_div a b) (\<lambda>x.
                bindE (ceil_float x) (\<lambda>max_exponent.
                Inr (min (attempts - 1) (max 0 max_exponent)))))))
           else Inr 0
      else Inr (attempts - 1))"

definition record_failure ::
    "(pyfloat \<Rightarrow> pyfloat res) \<Rightarrow> (pyfloat \<Rightarrow> int \<Rightarrow> pyfloat res) \<Rightarrow> string \<Rightarrow> pyfloat \<Rightarrow> reconnect
     \<Rightarrow> reconnect \<times> unit res" where
  "record_failure lg pw url current rm =
     (let st = rm_settings rm in
      if \<not> rc_enabled st then (rm, Inr ())
      else let attempts = attempts_of url rm + 1;
               rm1 = rm\<lparr>rm_attempts := AList.update url attempts (rm_attempts rm)\<rparr>
           in if 0 < rc_max_attempts st \<and> rc_max_attempts st \<le> attempts
              then (rm1\<lparr>rm_next := AList.update url PosInf (rm_next rm1)\<rparr>, Inr ())
              else (case bindE (backoff_exponent lg st attempts) (pw (rc_multiplier st)) of
                  Inl e \<Rightarrow> (rm1, Inl e)
                | Inr pw_value \<Rightarrow>
                    let delay = float_min (float_mul (rc_initial_delay st) pw_value) (rc_max_delay st)
                    in (rm1\<lparr>rm_next := AList.update url (float_add current delay) (rm_next rm1)\<rparr>, Inr ())))"

definition record_success :: "string \<Rightarrow> reconnect \<Rightarrow> reconnect" where
  "record_success url rm =
     rm\<lparr>rm_attempts := AList.delete url (rm_attempts rm), rm_next := AList.delete url (rm_next rm)\<rparr>"

definition should_retry :: "string \<Rightarrow> pyfloat \<Rightarrow> reconnect \<Rightarrow> bool" where
  "should_retry url current rm =
     (if \<not> rc_enabled (rm_settings rm) then True
      else case map_of (rm_next rm) url of
          None \<Rightarrow> True
        | Some next_at \<Rightarrow> if float_eq next_at PosInf then False else float_le next_at current)"

text \<open>\<open>clear\<close> has the body of \<open>record_success\<close>.\<close>

definition clear_url :: "string \<Rightarrow> reconnect \<Rightarrow> reconnect" where
  "clear_url url rm =
     rm\<lparr>rm_attempts := AList.delete url (rm_attempts rm), rm_next := AList.delete url (rm_next rm)\<rparr>"

section \<open>The schedule\<close>

text \<open>What is used of the power: above one, it is a number and not below one.\<close>

definition power_laws :: "(pyfloat \<Rightarrow> int \<Rightarrow> pyfloat res) \<Rightarrow> bool" where
  "power_laws pw \<longleftrightarrow> (\<forall>b n g. 1 < b \<longrightarrow> pw (Fin b) n = Inr g \<longrightarrow> g \<noteq> NaN)"

lemma float_mul_pos_not_NaN: "0 < i \<Longrightarrow> g \<noteq> NaN \<Longrightarrow> float_mul (Fin i) g \<noteq> NaN"
  by (cases g) (auto simp: float_mul_def signed_inf_def signed_zero_def Let_def)

lemma float_add_mono:
  assumes "d \<noteq> NaN" "float_le d (Fin m)"
  shows "float_le (float_add (Fin t) d) (float_add (Fin t) (Fin m))"
proof (cases d)
  case (Fin x)
  then show ?thesis using assms(2) by (simp add: float_add_def float_of_exact_mono)
next
  case NegZero
  then have "0 \<le> m" using assms(2) by (simp add: float_le_def float_lt_def float_eq_def) linarith
  then show ?thesis using NegZero float_of_exact_mono [of t "t + m"] by (simp add: float_add_def)
next
  case NegInf
  then show ?thesis
    by (cases "float_of_exact (t + m)") (simp_all add: float_add_def float_le_def float_lt_def float_eq_def)
qed (use assms in \<open>simp_all add: float_le_def float_lt_def float_eq_def\<close>)

lemma float_min_le: "a \<noteq> NaN \<Longrightarrow> b \<noteq> NaN \<Longrightarrow> float_min a b \<noteq> NaN \<and> float_le (float_min a b) b"
  by (auto simp: float_min_def float_le_not_lt float_lt_rank rank_less_def)

text \<open>What a failure that is recorded changes.\<close>

lemma record_failure_Inr:
  assumes "rc_enabled (rm_settings rm)" "record_failure lg pw url current rm = (rm', Inr ())"
  shows "rm_settings rm' = rm_settings rm \<and> attempts_of url rm' = attempts_of url rm + 1 \<and>
    (\<forall>other. other \<noteq> url \<longrightarrow> map_of (rm_next rm') other = map_of (rm_next rm) other) \<and>
    (if 0 < rc_max_attempts (rm_settings rm) \<and> rc_max_attempts (rm_settings rm) \<le> attempts_of url rm + 1
     then map_of (rm_next rm') url = Some PosInf
     else \<exists>n g. pw (rc_multiplier (rm_settings rm)) n = Inr g \<and> map_of (rm_next rm') url =
       Some (float_add current (float_min (float_mul (rc_initial_delay (rm_settings rm)) g) (rc_max_delay (rm_settings rm)))))"
proof (cases "0 < rc_max_attempts (rm_settings rm) \<and> rc_max_attempts (rm_settings rm) \<le> attempts_of url rm + 1")
  case True
  with assms show ?thesis by (auto simp: record_failure_def Let_def update_conv' attempts_of_def [of _ "_\<lparr>rm_next := _\<rparr>"])
next
  case False
  with assms obtain n g where "backoff_exponent lg (rm_settings rm) (attempts_of url rm + 1) = Inr n"
    "pw (rc_multiplier (rm_settings rm)) n = Inr g"
    and rm': "rm' = rm\<lparr>rm_attempts := AList.update url (attempts_of url rm + 1) (rm_attempts rm),
      rm_next := AList.update url (float_add current
        (float_min (float_mul (rc_initial_delay (rm_settings rm)) g) (rc_max_delay (rm_settings rm)))) (rm_next rm)\<rparr>"
    by (auto simp: record_failure_def Let_def bindE_eq_Inr split: if_splits sum.splits)
  with False show ?thesis unfolding rm' by (auto simp: update_conv' attempts_of_def [of _ "_\<lparr>rm_next := _\<rparr>"])
qed

text \<open>
  C34: After a failure at time \<open>t\<close> a peer is due again no later than the maximal delay after
  \<open>t\<close>, until the permitted number of attempts is used up, and then never; one success makes it
  due at once; other peers are not affected.
\<close>

theorem reconnect_schedule:
  assumes "rc_enabled (rm_settings rm)" "rc_initial_delay (rm_settings rm) = Fin i" "0 < i"
    and "rc_max_delay (rm_settings rm) = Fin m" "rc_multiplier (rm_settings rm) = Fin b" "1 < b"
    and "power_laws pw" "record_failure lg pw url (Fin t) rm = (rm', Inr ())"
  shows "attempts_of url rm' = attempts_of url rm + 1 \<and>
    (if 0 < rc_max_attempts (rm_settings rm) \<and> rc_max_attempts (rm_settings rm) \<le> attempts_of url rm'
     then \<forall>now. \<not> should_retry url now rm'
     else \<forall>u. float_le (float_add (Fin t) (Fin m)) (Fin u) \<longrightarrow> should_retry url (Fin u) rm') \<and>
    (\<forall>now. should_retry url now (record_success url rm')) \<and>
    (\<forall>other now. other \<noteq> url \<longrightarrow> should_retry other now rm' = should_retry other now rm)"
proof -
  let ?a = "attempts_of url rm + 1" and ?max = "rc_max_attempts (rm_settings rm)"
  note rm' = record_failure_Inr [OF assms(1,8), unfolded assms(2,4,5)]
  have late: "float_le (float_add (Fin t) (float_min (float_mul (Fin i) g) (Fin m))) (float_add (Fin t) (Fin m))"
    if "pw (Fin b) n = Inr g" for n g
  proof -
    have "g \<noteq> NaN" using assms(6,7) that by (auto simp: power_laws_def)
    then show ?thesis using float_add_mono float_min_le float_mul_pos_not_NaN [OF assms(3)] by simp
  qed
  have "should_retry url (Fin u) rm'"
    if "\<not> (0 < ?max \<and> ?max \<le> ?a)" "float_le (float_add (Fin t) (Fin m)) (Fin u)" for u
  proof -
    from that(1) rm' obtain n g where g: "pw (Fin b) n = Inr g"
      "map_of (rm_next rm') url = Some (float_add (Fin t) (float_min (float_mul (Fin i) g) (Fin m)))"
      by auto
    have le: "float_le (float_add (Fin t) (float_min (float_mul (Fin i) g) (Fin m))) (Fin u)"
      using late [OF g(1)] that(2) float_le_trans by blast
    then have "\<not> float_eq (float_add (Fin t) (float_min (float_mul (Fin i) g) (Fin m))) PosInf"
      by (cases "float_add (Fin t) (float_min (float_mul (Fin i) g) (Fin m))")
        (simp_all add: float_eq_def float_le_def float_lt_def)
    with le g(2) show ?thesis by (simp add: should_retry_def)
  qed
  moreover have "\<not> should_retry url now rm'" if "0 < ?max \<and> ?max \<le> ?a" for now
    using that rm' assms(1) by (simp add: should_retry_def float_eq_def)
  moreover have "should_retry url now (record_success url rm')"
    "other \<noteq> url \<Longrightarrow> should_retry other now rm' = should_retry other now rm" for other now
    using rm' by (simp_all add: should_retry_def record_success_def delete_conv')
  ultimately show ?thesis using rm' by auto
qed

text \<open>An exact power as the library's.\<close>

definition exact_power :: "pyfloat \<Rightarrow> int \<Rightarrow> pyfloat res" where
  "exact_power f n =
     (case f of Fin b \<Rightarrow> (case float_of_exact (b ^ nat n) of PosInf \<Rightarrow> Inl OverflowError | g \<Rightarrow> Inr g)
      | _ \<Rightarrow> Inl OverflowError)"

lemma exact_power_laws: "power_laws exact_power"
  using float_of_exact_not_NaN
  by (fastforce simp: power_laws_def exact_power_def split: pyfloat.splits)

theorem reconnect_schedule_witness:
  "should_retry ''ws://a'' (Fin 200)
     (fst (record_failure (\<lambda>f. Inr (Fin 1)) exact_power ''ws://a'' (Fin 100) (new_reconnect default_reconnect)))"
proof -
  let ?rm = "new_reconnect default_reconnect"
  have exact: "float_of_exact r = Fin r" if "0 < n" "n < 2 ^ 53" "r = of_int n" for r n
    using that float_of_exact_pos [of r n] round_rat_int [of n] by (simp add: round_rat_def)
  have "float_div (Fin 60) (Fin 1) = Inr (Fin 60)" "float_div (Fin 1) (Fin 1) = Inr (Fin 1)"
    "exact_power (Fin 2) 0 = Inr (Fin 1)"
    using exact [of 60 60] exact [of 1 1] by (simp_all add: float_div_def exact_power_def)
  then have "\<exists>rm'. record_failure (\<lambda>f. Inr (Fin 1)) exact_power ''ws://a'' (Fin 100) ?rm = (rm', Inr ())"
    by (simp add: record_failure_def new_reconnect_def default_reconnect_def backoff_exponent_def
        attempts_of_def Let_def)
  then obtain rm' where rm': "record_failure (\<lambda>f. Inr (Fin 1)) exact_power ''ws://a'' (Fin 100) ?rm = (rm', Inr ())"
    by blast
  have "float_le (float_add (Fin 100) (Fin 60)) (Fin 200)"
    using exact [of 160 160] by (simp add: float_add_def)
  moreover have "rc_enabled (rm_settings ?rm)" "rc_initial_delay (rm_settings ?rm) = Fin 1"
    "rc_max_delay (rm_settings ?rm) = Fin 60" "rc_multiplier (rm_settings ?rm) = Fin 2"
    "rc_max_attempts (rm_settings ?rm) = 0"
    by (simp_all add: new_reconnect_def default_reconnect_def)
  ultimately show ?thesis
    unfolding rm' fst_conv
    using reconnect_schedule [OF _ _ _ _ _ _ exact_power_laws rm', of 1 60 2] by simp
qed

end
