(* ===== verification/Store.thy ===== *)
theory Store
  imports Hash_Utils Messages
begin

text \<open>
  \<open>persistence/store.py\<close>: the files of a node.  Files are contents with a mode, under paths
  relative to the data directory.  \<open>save\<close> is the sequence of file-system operations it performs,
  so that a crash after any of them, or a failure of any of them, is an outcome of the model.
  Whether a path stays inside the data directory once links are resolved is the argument
  \<open>inside\<close>; reading a file that exists succeeds.  The lemmas show that a saved state loads
  again, and that after a crash during \<open>save\<close> no mixture of two states is ever loaded.
\<close>

type_synonym file_path = "string list"
type_synonym file_mode = "nat option"
type_synonym files = "(file_path \<times> bytes \<times> file_mode) list"

section \<open>Reading\<close>

text \<open>
  \<open>bytes.decode("utf-8")\<close>.  A well-formed character above U+00FF is outside the model, the
  rest is malformed (\<open>UnicodeDecodeError\<close>, a \<open>ValueError\<close>).
\<close>

definition continuation :: "char \<Rightarrow> bool" where
  "continuation c = (128 \<le> code c \<and> code c < 192)"

definition wide_char :: "bytes \<Rightarrow> bool" where
  "wide_char bs =
     (let c = code (hd bs); n = (if c < 224 then 1 else if c < 240 then 2 else 3 :: nat) in
      196 \<le> c \<and> c < 245 \<and> n \<le> length (tl bs) \<and> list_all continuation (take n (tl bs)) \<and>
      (c = 224 \<longrightarrow> 160 \<le> code (hd (tl bs))) \<and> (c = 237 \<longrightarrow> code (hd (tl bs)) < 160) \<and>
      (c = 240 \<longrightarrow> 144 \<le> code (hd (tl bs))) \<and> (c = 244 \<longrightarrow> code (hd (tl bs)) < 144))"

fun utf8_decode :: "bytes \<Rightarrow> string res" where
  "utf8_decode [] = Inr []"
| "utf8_decode (c # cs) =
     (if code c < 128 then bindE (utf8_decode cs) (\<lambda>s. Inr (c # s))
      else if 194 \<le> code c \<and> code c < 196 then
        (case cs of
           d # ds \<Rightarrow>
             if continuation d
             then bindE (utf8_decode ds) (\<lambda>s. Inr (char_of (64 * (code c - 192) + (code d - 128)) # s))
             else Inl ValueError
         | [] \<Rightarrow> Inl ValueError)
      else if wide_char (c # cs) then Inl UnmodelledText
      else Inl ValueError)"

text \<open>\<open>_read_json\<close> of the contents: only decoding and JSON errors become \<open>ChainStoreError\<close>.\<close>

definition read_json :: "bytes \<Rightarrow> pyval res" where
  "read_json contents =
     (case utf8_decode contents of
        Inl e \<Rightarrow> Inl (if e = ValueError then ChainStoreError else e)
      | Inr s \<Rightarrow>
          (case json_loads s of
             Inl e \<Rightarrow> Inl (if e = JSONDecodeError then ChainStoreError else e)
           | Inr v \<Rightarrow> Inr v))"

definition file_contents :: "files \<Rightarrow> file_path \<Rightarrow> bytes option" where
  "file_contents fs p = map_option fst (map_of fs p)"

section \<open>Paths and sizes\<close>

definition safe_child_path :: "(file_path \<Rightarrow> bool) \<Rightarrow> file_path \<Rightarrow> file_path res" where
  "safe_child_path inside p = (if inside p then Inr p else Inl ChainStoreError)"

definition meta_path :: "persistence_settings \<Rightarrow> file_path" where
  "meta_path st = [ps_meta_file st]"

definition chain_path :: "persistence_settings \<Rightarrow> file_path" where
  "chain_path st = [ps_chain_file st]"

definition genesis_stakes_path :: "persistence_settings \<Rightarrow> file_path" where
  "genesis_stakes_path st = [ps_genesis_stakes_file st]"

definition private_key_path :: "persistence_settings \<Rightarrow> file_path" where
  "private_key_path st = [ps_keys_dir st, ps_private_key_file st]"

definition p2p_identity_path :: "persistence_settings \<Rightarrow> file_path" where
  "p2p_identity_path st = [ps_keys_dir st, ps_p2p_identity_file st]"

definition store_exists :: "(file_path \<Rightarrow> bool) \<Rightarrow> persistence_settings \<Rightarrow> files \<Rightarrow> bool res" where
  "store_exists inside st fs =
     bindE (safe_child_path inside (meta_path st)) (\<lambda>p. Inr (map_of fs p \<noteq> None))"

text \<open>\<open>_assert_file_size_within_limit\<close> and \<open>_assert_serialized_chain_size\<close>, without the warning.\<close>

definition assert_size :: "int \<Rightarrow> bytes \<Rightarrow> unit res" where
  "assert_size max_bytes contents =
     (if max_bytes \<le> 0 then Inr ()
      else if max_bytes < int (length contents) then Inl ChainStoreError
      else Inr ())"

definition compute_checksum :: "pyval \<Rightarrow> string" where
  "compute_checksum v = sha256_hex (json_encode False (sort_keys v))"

definition dump_json_bytes :: "pyval \<Rightarrow> bytes" where
  "dump_json_bytes v = utf8_encode (json_dumps_indent v)"

section \<open>Loading\<close>

record persisted_state =
  pe_chain :: chain
  pe_node_id :: string
  pe_genesis_prev_hash :: string
  pe_stakes :: stakes
  pe_private_key :: "bytes option"
  pe_p2p_identity :: "bytes option"

definition stake_entry :: "string \<times> pyval \<Rightarrow> (string \<times> int) res" where
  "stake_entry kv =
     (case py_int (snd kv) of
        Inl e \<Rightarrow> Inl (if e \<in> {TypeError, ValueError, OverflowError} then ChainStoreError else e)
      | Inr n \<Rightarrow> Inr (fst kv, n))"

definition load_stakes ::
    "(file_path \<Rightarrow> bool) \<Rightarrow> persistence_settings \<Rightarrow> pydict \<Rightarrow> files \<Rightarrow> stakes res" where
  "load_stakes inside st meta fs =
     bindE (safe_child_path inside (genesis_stakes_path st)) (\<lambda>p.
     case file_contents fs p of
       Some contents \<Rightarrow>
         bindE (read_json contents) (\<lambda>v.
         case v of
           PDict stakes_data \<Rightarrow>
             bindE (mapE stake_entry stakes_data) (\<lambda>stakes.
             case map_of meta ''genesis_stakes_checksum'' of
               None \<Rightarrow> Inr stakes
             | Some c \<Rightarrow>
                 if c = PNone \<or> py_eq c (PStr (compute_checksum v)) then Inr stakes
                 else Inl ChainStoreError)
         | _ \<Rightarrow> Inl ChainStoreError)
     | None \<Rightarrow>
         if map_of meta ''genesis_stakes_checksum'' \<noteq> None then Inl ChainStoreError else Inr [])"

definition load_keys ::
    "(file_path \<Rightarrow> bool) \<Rightarrow> persistence_settings \<Rightarrow> files \<Rightarrow> (bytes option \<times> bytes option) res" where
  "load_keys inside st fs =
     (if \<not> ps_store_keys_on_disk st then Inr (None, None)
      else bindE (safe_child_path inside (private_key_path st)) (\<lambda>p.
           bindE (safe_child_path inside (p2p_identity_path st)) (\<lambda>q.
           Inr (file_contents fs p, file_contents fs q))))"

text \<open>\<open>str(meta.get(k, ""))\<close>.\<close>

definition meta_text :: "pydict \<Rightarrow> string \<Rightarrow> string" where
  "meta_text meta k = (case map_of meta k of None \<Rightarrow> [] | Some v \<Rightarrow> py_str v)"

definition check_schema :: "persistence_settings \<Rightarrow> pydict \<Rightarrow> unit res" where
  "check_schema st meta =
     (case (case map_of meta ''schema_version'' of None \<Rightarrow> Inr 0 | Some v \<Rightarrow> py_int v) of
        Inl e \<Rightarrow> Inl (if e \<in> {TypeError, ValueError, OverflowError} then ChainStoreError else e)
      | Inr n \<Rightarrow> if n \<noteq> ps_schema_version st then Inl ChainStoreError else Inr ())"

definition load_chain ::
    "(file_path \<Rightarrow> bool) \<Rightarrow> persistence_settings \<Rightarrow> pydict \<Rightarrow> files \<Rightarrow> chain res" where
  "load_chain inside st meta fs =
     bindE (safe_child_path inside (chain_path st)) (\<lambda>p.
     case file_contents fs p of
       None \<Rightarrow> Inl ChainStoreError
     | Some contents \<Rightarrow>
         bindE (assert_size (ps_max_chain_file_bytes st) contents) (\<lambda>_.
         bindE (read_json contents) (\<lambda>v.
         case v of
           PList chain_data \<Rightarrow>
             (case map_of meta ''chain_checksum'' of
                None \<Rightarrow> Inr chain_data
              | Some c \<Rightarrow>
                  if c = PNone \<or> py_eq c (PStr (compute_checksum v)) then Inr chain_data
                  else Inl ChainStoreError)
         | _ \<Rightarrow> Inl ChainStoreError)))"

definition load ::
    "(file_path \<Rightarrow> bool) \<Rightarrow> persistence_settings \<Rightarrow> files \<Rightarrow> persisted_state option res" where
  "load inside st fs =
     bindE (safe_child_path inside (meta_path st)) (\<lambda>p.
     case file_contents fs p of
       None \<Rightarrow> Inr None
     | Some contents \<Rightarrow>
         bindE (read_json contents) (\<lambda>v.
         case v of
           PDict meta \<Rightarrow>
             bindE (check_schema st meta) (\<lambda>_.
             bindE (load_chain inside st meta fs) (\<lambda>chain.
             bindE (load_stakes inside st meta fs) (\<lambda>stakes.
             bindE (load_keys inside st fs) (\<lambda>(private, identity).
             Inr (Some \<lparr>pe_chain = chain, pe_node_id = meta_text meta ''node_id'',
                        pe_genesis_prev_hash = meta_text meta ''genesis_prev_hash'',
                        pe_stakes = stakes, pe_private_key = private,
                        pe_p2p_identity = identity\<rparr>)))))
         | _ \<Rightarrow> Inl ChainStoreError))"

section \<open>Saving\<close>

text \<open>
  The operations on the file system.  \<open>Resolve\<close> is the check of a path; \<open>WriteTemp\<close> creates and
  fills a file, with a mode for keys; \<open>Replace\<close> is the atomic rename.
\<close>

datatype fs_op =
    Resolve file_path
  | MakeDirs file_path
  | WriteTemp file_path bytes file_mode
  | Replace file_path file_path
  | Chmod file_path nat
  | SyncDir file_path

definition apply_op :: "fs_op \<Rightarrow> files \<Rightarrow> files" where
  "apply_op p fs =
     (case p of
        WriteTemp path contents mode \<Rightarrow> AList.update path (contents, mode) fs
      | Replace tmp path \<Rightarrow>
          (case map_of fs tmp of
             None \<Rightarrow> fs
           | Some f \<Rightarrow> AList.update path f (AList.delete tmp fs))
      | Chmod path mode \<Rightarrow>
          (case map_of fs path of
             None \<Rightarrow> fs
           | Some (contents, _) \<Rightarrow> AList.update path (contents, Some mode) fs)
      | _ \<Rightarrow> fs)"

text \<open>
  A failure: inside the \<open>try\<close> block of an atomic write the temporary file goes and
  \<open>ChainStoreError\<close> is raised; a directory that cannot be synchronised is only reported; the
  rest raises \<open>OSError\<close>.
\<close>

definition fail_op :: "fs_op \<Rightarrow> files \<Rightarrow> files \<times> unit res" where
  "fail_op p fs =
     (case p of
        Resolve _ \<Rightarrow> (fs, Inl ChainStoreError)
      | WriteTemp path _ _ \<Rightarrow> (AList.delete path fs, Inl ChainStoreError)
      | Replace tmp _ \<Rightarrow> (AList.delete tmp fs, Inl ChainStoreError)
      | SyncDir _ \<Rightarrow> (fs, Inr ())
      | _ \<Rightarrow> (fs, Inl OSError))"

text \<open>Running the operations; \<open>broken\<close> says which of them fail.\<close>

fun run_ops ::
    "(file_path \<Rightarrow> bool) \<Rightarrow> (fs_op \<Rightarrow> bool) \<Rightarrow> fs_op list \<Rightarrow> files \<Rightarrow> files \<times> unit res" where
  "run_ops inside broken [] fs = (fs, Inr ())"
| "run_ops inside broken (p # ps) fs =
     (if broken p \<or> (\<exists>path. p = Resolve path \<and> \<not> inside path)
      then (case fail_op p fs of
              (fs', Inl e) \<Rightarrow> (fs', Inl e)
            | (fs', Inr _) \<Rightarrow> run_ops inside broken ps fs')
      else run_ops inside broken ps (apply_op p fs))"

definition temp_path :: "file_path \<Rightarrow> file_path" where
  "temp_path p = butlast p @ [last p @ ''.tmp'']"

definition write_bytes_atomic :: "file_path \<Rightarrow> bytes \<Rightarrow> file_mode \<Rightarrow> fs_op list" where
  "write_bytes_atomic path contents mode =
     [MakeDirs (butlast path), WriteTemp (temp_path path) contents mode, Replace (temp_path path) path]"

definition stakes_value :: "stakes \<Rightarrow> pyval" where
  "stakes_value stakes = PDict (map (\<lambda>(k, n). (k, PInt n)) stakes)"

definition meta_value :: "persistence_settings \<Rightarrow> persisted_state \<Rightarrow> pydict" where
  "meta_value st s =
     [(''schema_version'', PInt (ps_schema_version st)), (''node_id'', PStr (pe_node_id s)),
      (''genesis_prev_hash'', PStr (pe_genesis_prev_hash s)),
      (''chain_checksum'', PStr (compute_checksum (PList (pe_chain s)))),
      (''genesis_stakes_checksum'', PStr (compute_checksum (stakes_value (pe_stakes s))))]"

text \<open>The modes 0700 and 0600.\<close>

definition dir_private :: nat where "dir_private = 448"
definition file_private :: nat where "file_private = 384"

definition save_key :: "file_path \<Rightarrow> bytes option \<Rightarrow> fs_op list" where
  "save_key path key =
     (case key of
        None \<Rightarrow> []
      | Some pem \<Rightarrow>
          Resolve path # write_bytes_atomic path pem (Some file_private) @ [Chmod path file_private])"

definition save_keys :: "persistence_settings \<Rightarrow> persisted_state \<Rightarrow> fs_op list" where
  "save_keys st s =
     (if \<not> ps_store_keys_on_disk st then []
      else [Resolve [ps_keys_dir st]] @
        (if pe_private_key s \<noteq> None \<or> pe_p2p_identity s \<noteq> None
         then [MakeDirs [ps_keys_dir st], Chmod [ps_keys_dir st] dir_private] else []) @
        save_key (private_key_path st) (pe_private_key s) @
        save_key (p2p_identity_path st) (pe_p2p_identity s))"

definition written_dirs :: "persistence_settings \<Rightarrow> persisted_state \<Rightarrow> file_path list" where
  "written_dirs st s =
     [] # (if ps_store_keys_on_disk st \<and> (pe_private_key s \<noteq> None \<or> pe_p2p_identity s \<noteq> None)
           then [[ps_keys_dir st]] else [])"

definition save_ops :: "persistence_settings \<Rightarrow> persisted_state \<Rightarrow> fs_op list res" where
  "save_ops st s =
     (let chain_bytes = dump_json_bytes (PList (pe_chain s)) in
      bindE (assert_size (ps_max_chain_file_bytes st) chain_bytes) (\<lambda>_.
      Inr (Resolve (chain_path st) # write_bytes_atomic (chain_path st) chain_bytes None @
        [Resolve (meta_path st), Resolve (genesis_stakes_path st)] @
        write_bytes_atomic (genesis_stakes_path st) (dump_json_bytes (stakes_value (pe_stakes s))) None @
        write_bytes_atomic (meta_path st) (dump_json_bytes (PDict (meta_value st s))) None @
        save_keys st s @
        map SyncDir (written_dirs st s))))"

definition save ::
    "(file_path \<Rightarrow> bool) \<Rightarrow> (fs_op \<Rightarrow> bool) \<Rightarrow> persistence_settings \<Rightarrow> persisted_state \<Rightarrow> files
     \<Rightarrow> files \<times> unit res" where
  "save inside broken st s fs =
     (if broken (MakeDirs []) then (fs, Inl OSError)
      else case save_ops st s of
        Inl e \<Rightarrow> (fs, Inl e)
      | Inr ops \<Rightarrow> run_ops inside broken ops fs)"

text \<open>A crash after the first \<open>k\<close> operations.\<close>

definition crash :: "nat \<Rightarrow> fs_op list \<Rightarrow> files \<Rightarrow> files" where
  "crash k ops fs = fold apply_op (take k ops) fs"

section \<open>Reading back what was written\<close>

lemma utf8_encode_Cons: "utf8_encode (c # s) = utf8_char c @ utf8_encode s"
  by (simp add: utf8_encode_def)

lemma utf8_decode_encode: "utf8_decode (utf8_encode s) = Inr s"
proof (induction s)
  case Nil
  show ?case by (simp add: utf8_encode_def)
next
  case (Cons c s)
  show ?case
  proof (cases "code c < 128")
    case True
    with Cons show ?thesis by (simp add: utf8_encode_Cons utf8_char_def)
  next
    case False
    have "code c < 256" using code_bound [of c] by simp
    then have d: "2 \<le> code c div 64" "code c div 64 < 4" using False by (auto simp: less_mult_imp_div_less)
    then have lead: "code (char_of (192 + code c div 64)) = 192 + code c div 64" by simp
    have "code c mod 64 < 64" by simp
    then have cont: "code (char_of (128 + code c mod 64)) = 128 + code c mod 64"
      by (simp del: mod_less_divisor)
    have "char_of (64 * (code c div 64) + code c mod 64) = c" by simp
    with Cons d False show ?thesis
      by (simp add: utf8_encode_Cons utf8_char_def continuation_def lead cont del: char_of_mod_256)
  qed
qed

lemma read_dumped: "json_plain v \<Longrightarrow> read_json (dump_json_bytes v) = Inr v"
  by (simp add: read_json_def dump_json_bytes_def utf8_decode_encode json_loads_indent)

definition savable :: "persistence_settings \<Rightarrow> persisted_state \<Rightarrow> bool" where
  "savable st s \<longleftrightarrow>
     json_plain (PList (pe_chain s)) \<and> json_plain (stakes_value (pe_stakes s)) \<and>
     json_plain (PInt (ps_schema_version st)) \<and>
     assert_size (ps_max_chain_file_bytes st) (dump_json_bytes (PList (pe_chain s))) = Inr ()"

definition store_paths :: "persistence_settings \<Rightarrow> file_path list" where
  "store_paths st = [chain_path st, genesis_stakes_path st, meta_path st, private_key_path st, p2p_identity_path st]"

text \<open>The paths, and those of the temporary files, do not clash.\<close>

definition paths_ok :: "persistence_settings \<Rightarrow> bool" where
  "paths_ok st \<longleftrightarrow> distinct (store_paths st @ map temp_path (store_paths st))"

definition all_inside :: "(file_path \<Rightarrow> bool) \<Rightarrow> persistence_settings \<Rightarrow> bool" where
  "all_inside inside st \<longleftrightarrow> list_all inside ([ps_keys_dir st] # store_paths st)"

lemma stake_entries: "mapE stake_entry (map (\<lambda>(k, n). (k, PInt n)) stakes) = Inr stakes"
  by (induction stakes) (auto simp: stake_entry_def py_int_def)

text \<open>Loading files of three possibly different saved states.\<close>

lemma load_saved:
  assumes "all_inside inside st" "savable st t" "savable st c" "savable st g"
    and "file_contents fs (meta_path st) = Some (dump_json_bytes (PDict (meta_value st t)))"
    and "file_contents fs (chain_path st) = Some (dump_json_bytes (PList (pe_chain c)))"
    and "file_contents fs (genesis_stakes_path st) = Some (dump_json_bytes (stakes_value (pe_stakes g)))"
  shows "load inside st fs =
    (if compute_checksum (PList (pe_chain c)) = compute_checksum (PList (pe_chain t)) \<and>
        compute_checksum (stakes_value (pe_stakes g)) = compute_checksum (stakes_value (pe_stakes t))
     then Inr (Some \<lparr>pe_chain = pe_chain c, pe_node_id = pe_node_id t,
       pe_genesis_prev_hash = pe_genesis_prev_hash t, pe_stakes = pe_stakes g,
       pe_private_key = (if ps_store_keys_on_disk st then file_contents fs (private_key_path st) else None),
       pe_p2p_identity = (if ps_store_keys_on_disk st then file_contents fs (p2p_identity_path st) else None)\<rparr>)
     else Inl ChainStoreError)"
proof -
  have meta: "read_json (dump_json_bytes (PDict (meta_value st t))) = Inr (PDict (meta_value st t))"
    using assms(2) by (intro read_dumped) (simp add: meta_value_def savable_def)
  have chain: "read_json (dump_json_bytes (PList (pe_chain c))) = Inr (PList (pe_chain c))"
    "assert_size (ps_max_chain_file_bytes st) (dump_json_bytes (PList (pe_chain c))) = Inr ()"
    and stakes: "read_json (dump_json_bytes (stakes_value (pe_stakes g))) = Inr (stakes_value (pe_stakes g))"
    using assms(3,4) by (simp_all add: savable_def read_dumped)
  have inside: "inside (meta_path st)" "inside (chain_path st)" "inside (genesis_stakes_path st)"
    "inside (private_key_path st)" "inside (p2p_identity_path st)"
    using assms(1) by (simp_all add: all_inside_def store_paths_def)
  have "check_schema st (meta_value st t) = Inr ()" by (simp add: check_schema_def meta_value_def py_int_def)
  moreover have "load_keys inside st fs =
      Inr (if ps_store_keys_on_disk st then file_contents fs (private_key_path st) else None,
           if ps_store_keys_on_disk st then file_contents fs (p2p_identity_path st) else None)"
    by (simp add: load_keys_def safe_child_path_def inside)
  moreover have "load_chain inside st (meta_value st t) fs =
      (if compute_checksum (PList (pe_chain c)) = compute_checksum (PList (pe_chain t))
       then Inr (pe_chain c) else Inl ChainStoreError)"
    by (auto simp: load_chain_def safe_child_path_def inside assms(6) chain) (simp_all add: meta_value_def)
  moreover have "load_stakes inside st (meta_value st t) fs =
      (if compute_checksum (stakes_value (pe_stakes g)) = compute_checksum (stakes_value (pe_stakes t))
       then Inr (pe_stakes g) else Inl ChainStoreError)"
  proof -
    have "read_json (dump_json_bytes (stakes_value (pe_stakes g))) =
        Inr (PDict (map (\<lambda>(k, n). (k, PInt n)) (pe_stakes g)))"
      using stakes by (simp add: stakes_value_def)
    then show ?thesis
      by (simp add: load_stakes_def safe_child_path_def inside assms(7) stake_entries)
        (simp add: meta_value_def stakes_value_def)
  qed
  ultimately show ?thesis
    by (simp add: load_def safe_child_path_def inside assms(5) meta)
      (simp add: meta_text_def meta_value_def py_str_def)
qed

section \<open>Runs without failure\<close>

lemma file_contents_simps [simp]:
  "file_contents (AList.update q f fs) p = (if p = q then Some (fst f) else file_contents fs p)"
  "file_contents (AList.delete q fs) p = (if p = q then None else file_contents fs p)"
  by (simp_all add: file_contents_def update_conv' delete_conv')

lemma apply_op_simps [simp]:
  "apply_op (Resolve p) fs = fs" "apply_op (MakeDirs p) fs = fs" "apply_op (SyncDir p) fs = fs"
  by (simp_all add: apply_op_def)

lemma chmod_contents [simp]: "file_contents (apply_op (Chmod q m) fs) p = file_contents fs p"
  by (auto simp: apply_op_def file_contents_def update_conv' split: option.splits)

lemma temp_path_neq [simp]: "temp_path p \<noteq> p"
proof
  assume "temp_path p = p"
  then have "last (temp_path p) = last p" by simp
  then show False by (simp add: temp_path_def)
qed

lemma atomic_contents:
  "q \<noteq> temp_path p \<Longrightarrow>
   file_contents (fold apply_op (write_bytes_atomic p d m) fs) q = (if q = p then Some d else file_contents fs q)"
  using temp_path_neq [of p]
  by (auto simp: write_bytes_atomic_def apply_op_def update_conv' file_contents_def delete_conv')

lemma save_key_contents:
  "q \<noteq> temp_path p \<Longrightarrow>
   file_contents (fold apply_op (save_key p key) fs) q =
     (case key of Some pem \<Rightarrow> if q = p then Some pem else file_contents fs q | None \<Rightarrow> file_contents fs q)"
  by (auto simp: save_key_def atomic_contents split: option.split)

lemma fold_sync [simp]: "fold apply_op (map SyncDir ps) fs = fs"
  by (induction ps arbitrary: fs) simp_all

lemma run_ops_ok:
  "list_all (\<lambda>p. \<forall>path. p = Resolve path \<longrightarrow> inside path) ops \<Longrightarrow>
   run_ops inside (\<lambda>_. False) ops fs = (fold apply_op ops fs, Inr ())"
  by (induction ops arbitrary: fs) auto

lemma save_resolves:
  "save_ops st s = Inr ops \<Longrightarrow> all_inside inside st \<Longrightarrow>
   list_all (\<lambda>p. \<forall>path. p = Resolve path \<longrightarrow> inside path) ops"
  by (auto simp: save_ops_def Let_def bindE_eq_Inr all_inside_def store_paths_def save_keys_def
      save_key_def write_bytes_atomic_def list_all_iff split: option.splits if_splits)

text \<open>The contents of the five files after a complete save.\<close>

lemma save_contents:
  assumes "paths_ok st" "save_ops st s = Inr ops"
  shows "file_contents (fold apply_op ops fs) (meta_path st) = Some (dump_json_bytes (PDict (meta_value st s)))"
    "file_contents (fold apply_op ops fs) (chain_path st) = Some (dump_json_bytes (PList (pe_chain s)))"
    "file_contents (fold apply_op ops fs) (genesis_stakes_path st) = Some (dump_json_bytes (stakes_value (pe_stakes s)))"
    "ps_store_keys_on_disk st \<Longrightarrow> file_contents (fold apply_op ops fs) (private_key_path st) =
       (case pe_private_key s of Some k \<Rightarrow> Some k | None \<Rightarrow> file_contents fs (private_key_path st))"
    "ps_store_keys_on_disk st \<Longrightarrow> file_contents (fold apply_op ops fs) (p2p_identity_path st) =
       (case pe_p2p_identity s of Some k \<Rightarrow> Some k | None \<Rightarrow> file_contents fs (p2p_identity_path st))"
  using assms
  by (auto simp: save_ops_def Let_def bindE_eq_Inr save_keys_def atomic_contents save_key_contents
      paths_ok_def store_paths_def split: option.split)

lemma saved_loads:
  assumes "paths_ok st" "all_inside inside st" "savable st s"
    and "save inside (\<lambda>_. False) st s fs = (fs', r)"
  shows "r = Inr () \<and> load inside st fs' = Inr (Some (s
    \<lparr>pe_private_key := (if \<not> ps_store_keys_on_disk st then None
       else case pe_private_key s of Some k \<Rightarrow> Some k | None \<Rightarrow> file_contents fs (private_key_path st)),
     pe_p2p_identity := (if \<not> ps_store_keys_on_disk st then None
       else case pe_p2p_identity s of Some k \<Rightarrow> Some k | None \<Rightarrow> file_contents fs (p2p_identity_path st))\<rparr>))"
proof -
  obtain ops where ops: "save_ops st s = Inr ops"
    using assms(3) by (simp add: savable_def save_ops_def Let_def)
  with assms(4) have "fs' = fold apply_op ops fs" "r = Inr ()"
    by (simp_all add: save_def run_ops_ok [OF save_resolves [OF ops assms(2)]])
  then show ?thesis
    using load_saved [OF assms(2,3,3,3)] save_contents [OF assms(1) ops] by simp
qed


definition sample_state :: persisted_state where
  "sample_state = \<lparr>pe_chain = [PDict [(''block_index'', PInt 1)]], pe_node_id = ''n'',
     pe_genesis_prev_hash = ''1'', pe_stakes = [(''a'', 100)], pe_private_key = Some ''pem'',
     pe_p2p_identity = None\<rparr>"

lemma sample_savable: "paths_ok default_persistence" "savable default_persistence sample_state"
  by code_simp+


section \<open>Crashes\<close>

lemma crash_append: "crash k (xs @ ys) fs = crash (k - length xs) ys (crash k xs fs)"
  by (simp add: crash_def take_append)

lemma crash_resolve [simp]: "crash k (Resolve p # xs) fs = crash (k - 1) xs fs"
  by (cases k) (simp_all add: crash_def)

lemma crash_Nil [simp]: "crash k [] fs = fs"
  by (simp add: crash_def)

lemma crash_atomic:
  assumes "q \<noteq> temp_path p"
  shows "file_contents (crash k (write_bytes_atomic p d m) fs) q =
    (if q = p \<and> 3 \<le> k then Some d else file_contents fs q)"
proof -
  consider "k = 0" | "k = 1" | "k = 2" | "3 \<le> k" by linarith
  then show ?thesis
  proof cases
    case 4
    then have "take k (write_bytes_atomic p d m) = write_bytes_atomic p d m" by (simp add: write_bytes_atomic_def)
    with 4 atomic_contents [OF assms] show ?thesis by (simp add: crash_def)
  qed (use assms temp_path_neq [of p] in
    \<open>auto simp: crash_def write_bytes_atomic_def apply_op_def numeral_2_eq_2\<close>)
qed

fun touches :: "fs_op \<Rightarrow> file_path \<Rightarrow> bool" where
  "touches (WriteTemp p _ _) q \<longleftrightarrow> p = q"
| "touches (Replace tmp p) q \<longleftrightarrow> tmp = q \<or> p = q"
| "touches _ q \<longleftrightarrow> False"

lemma untouched_op: "\<not> touches p q \<Longrightarrow> file_contents (apply_op p fs) q = file_contents fs q"
proof (cases p)
  case (Chmod path mode)
  then show ?thesis by simp
qed (auto simp: apply_op_def split: option.split)

lemma crash_untouched:
  "list_all (\<lambda>p. \<not> touches p q) ops \<Longrightarrow> file_contents (crash k ops fs) q = file_contents fs q"
  unfolding crash_def
  by (induction ops arbitrary: k fs) (auto simp: take_Cons untouched_op split: nat.split)

lemma save_keys_untouched:
  "length q = 1 \<Longrightarrow> list_all (\<lambda>p. \<not> touches p q) (save_keys st s)"
  by (auto simp: save_keys_def save_key_def write_bytes_atomic_def private_key_path_def p2p_identity_path_def
      temp_path_def list_all_iff split: option.splits)

text \<open>The three data files after a crash: chain, stakes and meta data change in this order.\<close>

lemma crash_contents:
  assumes "paths_ok st" "save_ops st s = Inr ops"
  shows "file_contents (crash k ops fs) (chain_path st) =
      (if 4 \<le> k then Some (dump_json_bytes (PList (pe_chain s))) else file_contents fs (chain_path st))"
    "file_contents (crash k ops fs) (genesis_stakes_path st) =
      (if 9 \<le> k then Some (dump_json_bytes (stakes_value (pe_stakes s))) else file_contents fs (genesis_stakes_path st))"
    "file_contents (crash k ops fs) (meta_path st) =
      (if 12 \<le> k then Some (dump_json_bytes (PDict (meta_value st s))) else file_contents fs (meta_path st))"
proof -
  have sync: "list_all (\<lambda>p. \<not> touches p q) (map SyncDir ds)" for q ds by (simp add: list_all_iff)
  have one: "length (chain_path st) = 1" "length (genesis_stakes_path st) = 1" "length (meta_path st) = 1"
    by (simp_all add: chain_path_def genesis_stakes_path_def meta_path_def)
  have len: "length (write_bytes_atomic p d m) = 3" for p d m by (simp add: write_bytes_atomic_def)
  have ops: "ops = Resolve (chain_path st) # write_bytes_atomic (chain_path st) (dump_json_bytes (PList (pe_chain s))) None @
        ([Resolve (meta_path st), Resolve (genesis_stakes_path st)] @
        write_bytes_atomic (genesis_stakes_path st) (dump_json_bytes (stakes_value (pe_stakes s))) None @
        write_bytes_atomic (meta_path st) (dump_json_bytes (PDict (meta_value st s))) None) @
        (save_keys st s @ map SyncDir (written_dirs st s))"
    using assms(2) by (simp add: save_ops_def Let_def bindE_eq_Inr)
  note untouched = crash_untouched [OF save_keys_untouched [OF one(1)]]
    crash_untouched [OF save_keys_untouched [OF one(2)]] crash_untouched [OF save_keys_untouched [OF one(3)]]
  show "file_contents (crash k ops fs) (chain_path st) =
      (if 4 \<le> k then Some (dump_json_bytes (PList (pe_chain s))) else file_contents fs (chain_path st))"
    and "file_contents (crash k ops fs) (genesis_stakes_path st) =
      (if 9 \<le> k then Some (dump_json_bytes (stakes_value (pe_stakes s))) else file_contents fs (genesis_stakes_path st))"
    and "file_contents (crash k ops fs) (meta_path st) =
      (if 12 \<le> k then Some (dump_json_bytes (PDict (meta_value st s))) else file_contents fs (meta_path st))"
    using assms(1) unfolding ops
    by (auto simp: crash_append crash_untouched [OF sync] untouched crash_atomic len paths_ok_def store_paths_def)
qed

text \<open>Equal checksums mean equal values, up to the order of keys, or two texts with one digest.\<close>

definition checksum_collision :: "pyval \<Rightarrow> pyval \<Rightarrow> bool" where
  "checksum_collision v w \<longleftrightarrow>
     compute_checksum v = compute_checksum w \<and>
     json_encode False (sort_keys v) \<noteq> json_encode False (sort_keys w)"

lemma checksum_collision_same [simp]: "\<not> checksum_collision v v"
  by (simp add: checksum_collision_def)

lemma equal_checksums:
  assumes "json_plain v" "json_plain w" "compute_checksum v = compute_checksum w"
  shows "sort_keys v = sort_keys w \<or> checksum_collision v w"
  using assms json_plain_sort_keys json_loads_dumps unfolding checksum_collision_def
  by (metis sum.inject(2))

text \<open>The same data, up to the order of keys.\<close>

definition same_data :: "persisted_state \<Rightarrow> persisted_state \<Rightarrow> bool" where
  "same_data s t \<longleftrightarrow>
     sort_keys (PList (pe_chain s)) = sort_keys (PList (pe_chain t)) \<and>
     sort_keys (stakes_value (pe_stakes s)) = sort_keys (stakes_value (pe_stakes t)) \<and>
     pe_node_id s = pe_node_id t \<and> pe_genesis_prev_hash s = pe_genesis_prev_hash t"


lemma sample_saved:
  "\<exists>ops fs. save_ops default_persistence (sample_state\<lparr>pe_chain := []\<rparr>) = Inr ops \<and>
     save (\<lambda>_. True) (\<lambda>_. False) default_persistence sample_state [] = (fs, Inr ())"
  "savable default_persistence (sample_state\<lparr>pe_chain := []\<rparr>)"
  "all_inside (\<lambda>_. True) default_persistence"
proof -
  show new: "savable default_persistence (sample_state\<lparr>pe_chain := []\<rparr>)" by code_simp
  show "all_inside (\<lambda>_. True) default_persistence" by (simp add: all_inside_def list_all_iff)
  show "\<exists>ops fs. save_ops default_persistence (sample_state\<lparr>pe_chain := []\<rparr>) = Inr ops \<and>
     save (\<lambda>_. True) (\<lambda>_. False) default_persistence sample_state [] = (fs, Inr ())"
    using run_ops_ok [of "\<lambda>_. True"] sample_savable(2) new
    by (auto simp: save_def savable_def save_ops_def Let_def list_all_iff)
qed


text \<open>
  C33: A crash between the replacement of the chain file and that of the meta file leaves files
  that no later start loads, although both states were saved completely before and after.
\<close>

theorem crash_window_refuses:
  assumes "paths_ok st" "all_inside inside st" "savable st old" "savable st new"
    and "save inside (\<lambda>_. False) st old fs0 = (fs, Inr ())" "save_ops st new = Inr ops"
    and "compute_checksum (PList (pe_chain new)) \<noteq> compute_checksum (PList (pe_chain old))"
    and "4 \<le> k" "k < 12"
  shows "load inside st (crash k ops fs) = Inl ChainStoreError"
proof -
  obtain ops0 where ops0: "save_ops st old = Inr ops0"
    using assms(3) by (simp add: savable_def save_ops_def Let_def)
  with assms(5) have fs: "fs = fold apply_op ops0 fs0"
    by (simp add: save_def run_ops_ok [OF save_resolves [OF ops0 assms(2)]])
  have "file_contents (crash k ops fs) (meta_path st) = Some (dump_json_bytes (PDict (meta_value st old)))"
    "file_contents (crash k ops fs) (chain_path st) = Some (dump_json_bytes (PList (pe_chain new)))"
    "file_contents (crash k ops fs) (genesis_stakes_path st) =
       Some (dump_json_bytes (stakes_value (pe_stakes (if 9 \<le> k then new else old))))"
    using crash_contents [OF assms(1,6), of k fs] save_contents [OF assms(1) ops0, of fs0] assms(8,9)
    by (simp_all add: fs)
  then show ?thesis
    using load_saved [OF assms(2,3,4), of "if 9 \<le> k then new else old"] assms(3,4,7) by simp
qed

lemma sample_checksums:
  "compute_checksum (PList []) \<noteq> compute_checksum (PList (pe_chain sample_state))"
  by code_simp

theorem crash_window_refuses_witness:
  "\<exists>ops fs. save_ops default_persistence (sample_state\<lparr>pe_chain := []\<rparr>) = Inr ops \<and>
     save (\<lambda>_. True) (\<lambda>_. False) default_persistence sample_state [] = (fs, Inr ()) \<and>
     load (\<lambda>_. True) default_persistence (crash 4 ops fs) = Inl ChainStoreError"
proof -
  obtain ops fs where o: "save_ops default_persistence (sample_state\<lparr>pe_chain := []\<rparr>) = Inr ops"
    and fs: "save (\<lambda>_. True) (\<lambda>_. False) default_persistence sample_state [] = (fs, Inr ())"
    using sample_saved(1) by blast
  from crash_window_refuses [OF sample_savable(1) sample_saved(3) sample_savable(2) sample_saved(2) fs o, of 4]
  show ?thesis using o fs sample_checksums by simp
qed

section \<open>The modes of key files\<close>

definition key_paths :: "persistence_settings \<Rightarrow> file_path list" where
  "key_paths st = [private_key_path st, p2p_identity_path st,
     temp_path (private_key_path st), temp_path (p2p_identity_path st)]"

definition keys_private :: "persistence_settings \<Rightarrow> files \<Rightarrow> bool" where
  "keys_private st fs \<longleftrightarrow>
     (\<forall>p \<in> set (key_paths st). \<forall>f. map_of fs p = Some f \<longrightarrow> snd f = Some file_private)"

fun guards_keys :: "persistence_settings \<Rightarrow> fs_op \<Rightarrow> bool" where
  "guards_keys st (WriteTemp p _ m) \<longleftrightarrow> p \<in> set (key_paths st) \<longrightarrow> m = Some file_private"
| "guards_keys st (Replace tmp p) \<longleftrightarrow> p \<in> set (key_paths st) \<longrightarrow> tmp \<in> set (key_paths st)"
| "guards_keys st (Chmod p m) \<longleftrightarrow> p \<in> set (key_paths st) \<longrightarrow> m = file_private"
| "guards_keys st _ \<longleftrightarrow> True"

lemma guards_keys_op:
  "guards_keys st p \<Longrightarrow> keys_private st fs \<Longrightarrow>
   keys_private st (apply_op p fs) \<and> keys_private st (fst (fail_op p fs))"
  by (cases p)
    (auto simp: keys_private_def apply_op_def fail_op_def update_conv' delete_conv' split: option.splits)

lemma save_guards_keys: "save_ops st s = Inr ops \<Longrightarrow> list_all (guards_keys st) ops"
  by (auto simp: save_ops_def Let_def bindE_eq_Inr save_keys_def save_key_def write_bytes_atomic_def
      list_all_iff key_paths_def private_key_path_def p2p_identity_path_def chain_path_def meta_path_def
      genesis_stakes_path_def temp_path_def file_private_def dir_private_def split: option.splits if_splits)

lemma fold_keys_private:
  "list_all (guards_keys st) ops \<Longrightarrow> keys_private st fs \<Longrightarrow> keys_private st (fold apply_op ops fs)"
  by (induction ops arbitrary: fs) (auto simp: guards_keys_op)

lemma run_keys_private:
  "list_all (guards_keys st) ops \<Longrightarrow> keys_private st fs \<Longrightarrow>
   keys_private st (fst (run_ops inside broken ops fs))"
proof (induction ops arbitrary: fs)
  case (Cons p ops)
  obtain fs' r where f: "fail_op p fs = (fs', r)" by fastforce
  from Cons.prems have "keys_private st (apply_op p fs)" "keys_private st fs'"
    using guards_keys_op [of st p fs] f by simp_all
  with Cons f show ?case by (cases r) simp_all
qed simp

text \<open>
  C32: Keys on disk stay private: if the key files and their temporary files are readable by
  the owner only, they are so after every save, whatever fails in it, and after every crash.
\<close>

theorem keys_stay_private:
  assumes "keys_private st fs"
  shows "keys_private st (fst (save inside broken st s fs)) \<and>
    (\<forall>ops k. save_ops st s = Inr ops \<longrightarrow> keys_private st (crash k ops fs))"
proof -
  have "keys_private st (crash k ops fs)" if "save_ops st s = Inr ops" for ops k
  proof -
    have "list_all (guards_keys st) (take k ops)"
      using save_guards_keys [OF that] unfolding list_all_iff by (meson in_set_takeD)
    then show ?thesis unfolding crash_def by (rule fold_keys_private) (rule assms)
  qed
  moreover have "keys_private st (fst (save inside broken st s fs))"
  proof (cases "save_ops st s")
    case (Inr ops)
    then show ?thesis
      using run_keys_private [OF save_guards_keys [OF Inr] assms] assms by (simp add: save_def)
  qed (use assms in \<open>simp add: save_def\<close>)
  ultimately show ?thesis by blast
qed

theorem keys_stay_private_witness:
  "keys_private default_persistence
     (fst (save (\<lambda>_. True) (\<lambda>p. p = Chmod [''keys'', ''node.pem''] file_private) default_persistence sample_state []))"
  using keys_stay_private [of default_persistence "[]"] by (simp add: keys_private_def)

end
