(* ===== verification/Node.thy ===== *)
theory Node
  imports Node_Sync Peer_Auth P2P_Server Discovery Peer_Url Reconnect Store
begin

text \<open>
  \<open>network/node.py\<close>: the node.  A handler runs to its end or to the point where it waits for
  something outside: the blocks of a session, or a connection it dials; the \<open>outcome\<close> says which.
  The rest of the program (\<open>Node_System\<close>) continues from there.  What the outside supplies at the
  time of a call (the library of signatures, clocks, randomness, name resolution) is a record.
\<close>

record env =
  ev_rsa :: rsa_library
  ev_random :: nat
  ev_utc :: datetime
  ev_time :: pyfloat
  ev_seconds :: int
  ev_clock :: pyfloat
  ev_gai :: resolver
  ev_log :: "pyfloat \<Rightarrow> pyfloat res"
  ev_power :: "pyfloat \<Rightarrow> int \<Rightarrow> pyfloat res"

record node =
  no_settings :: app_settings
  no_id :: string
  no_stakes :: stakes
  no_manager :: signature_manager
  no_validator_external :: bool
  no_identity :: signature_manager
  no_identity_external :: bool
  no_bc :: blockchain
  no_persist_pending :: bool
  no_sync :: "(string \<times> session) list"
  no_active :: "string list"
  no_connecting :: "string list"
  no_urls :: "(string \<times> string) list"
  no_reconnect :: reconnect
  no_p2p :: p2p_server
  no_known :: known_peers

abbreviation network :: "node \<Rightarrow> network_settings" where
  "network n \<equiv> ap_network (no_settings n)"

abbreviation consensus_kind_of :: "node \<Rightarrow> consensus_kind" where
  "consensus_kind_of n \<equiv> cs_type (ap_consensus (no_settings n))"

text \<open>The URLs that \<open>PeerDiscovery.add_peer\<close> keeps.\<close>

definition url_ok :: "env \<Rightarrow> node \<Rightarrow> string \<Rightarrow> bool" where
  "url_ok ev n url =
     (validate_peer_url (ev_gai ev) url (network n) (nd_environment (ap_node (no_settings n))) \<noteq> None)"

definition kind_text :: "consensus_kind \<Rightarrow> string" where
  "kind_text k = (case k of Pow \<Rightarrow> ''pow'' | Pos \<Rightarrow> ''pos'')"

section \<open>Keys\<close>

text \<open>The sources of a key from outside: the argument, the file, the environment variable.\<close>

definition key_from_env :: "string option \<Rightarrow> bytes option" where
  "key_from_env v = (case v of Some (c # cs) \<Rightarrow> Some (utf8_encode (c # cs)) | _ \<Rightarrow> None)"

definition key_from_file :: "(string \<Rightarrow> bytes option) \<Rightarrow> string \<Rightarrow> bytes option" where
  "key_from_file read_key path = (if path = [] then None else read_key path)"

definition external_key ::
    "(string \<Rightarrow> bytes option) \<Rightarrow> bytes option \<Rightarrow> string \<Rightarrow> string option \<Rightarrow> bytes option" where
  "external_key read_key given file_env value_env =
     (case given of
        Some pem \<Rightarrow> Some pem
      | None \<Rightarrow>
          (case key_from_file read_key file_env of
             Some pem \<Rightarrow> Some pem
           | None \<Rightarrow> key_from_env value_env))"

text \<open>A key from outside, else, unless one is required, the stored one or a new one.\<close>

definition choose_manager ::
    "rsa_library \<Rightarrow> nat \<Rightarrow> bytes option \<Rightarrow> bool \<Rightarrow> bytes option \<Rightarrow> signature_manager res" where
  "choose_manager L rnd outside required stored =
     (case outside of
        Some pem \<Rightarrow> import_private_key L new_manager pem
      | None \<Rightarrow>
          if required then Inl ValueError
          else (case stored of
              Some pem \<Rightarrow> import_private_key L new_manager pem
            | None \<Rightarrow> generate_key_pair L rnd 2048 new_manager))"

section \<open>Creation and persistence\<close>

text \<open>\<open>_restore_chain\<close>.\<close>

definition restore_chain :: "rsa_library \<Rightarrow> persisted_state \<Rightarrow> node \<Rightarrow> node res" where
  "restore_chain L s n =
     (if pe_genesis_prev_hash s \<noteq> [] \<and> pe_genesis_prev_hash s \<noteq> ap_genesis_prev_hash (no_settings n)
      then Inl ValueError
      else if pe_chain s = [] then Inr n
      else case replace_chain L (pe_chain s) (Some (no_stakes n)) (no_bc n) of
          (_, Inl e) \<Rightarrow> Inl e
        | (_, Inr False) \<Rightarrow> Inl ValueError
        | (bc, Inr True) \<Rightarrow>
            bindE (verify_chain L bc (Some (no_stakes n))) (\<lambda>v.
            if cv_valid v then Inr (n\<lparr>no_bc := bc\<rparr>) else Inl ValueError))"

text \<open>The identity and the stakes: the persisted ones, if there are any.\<close>

definition node_identity :: "app_settings \<Rightarrow> string \<Rightarrow> persisted_state option \<Rightarrow> string" where
  "node_identity st uuid p =
     (case p of
        Some s \<Rightarrow> if pe_node_id s \<noteq> [] then pe_node_id s
                  else if nd_node_id (ap_node st) \<noteq> [] then nd_node_id (ap_node st) else uuid
      | None \<Rightarrow> if nd_node_id (ap_node st) \<noteq> [] then nd_node_id (ap_node st) else uuid)"

definition node_stakes :: "stakes \<Rightarrow> persisted_state option \<Rightarrow> stakes" where
  "node_stakes given p =
     (case p of Some s \<Rightarrow> if pe_stakes s \<noteq> [] then pe_stakes s else given | None \<Rightarrow> given)"

text \<open>\<open>Node.__init__\<close> up to the restored chain; the network part is filled in with what it starts from.\<close>

definition create_node ::
    "env \<Rightarrow> app_settings \<Rightarrow> string \<Rightarrow> string \<Rightarrow> stakes \<Rightarrow> bytes option \<Rightarrow> bytes option
     \<Rightarrow> persisted_state option \<Rightarrow> node res" where
  "create_node ev st uuid local_url given validator_pem identity_pem p =
     (let L = ev_rsa ev;
          node_id = node_identity st uuid p;
          stakes = node_stakes given p;
          required = nd_require_external_keys (ap_node st);
          kind = cs_type (ap_consensus st);
          prev = ap_genesis_prev_hash st
      in bindE (if kind = Pos
            then choose_manager L (ev_random ev) validator_pem required
                   (case p of Some s \<Rightarrow> pe_private_key s | None \<Rightarrow> None)
            else Inr new_manager) (\<lambda>manager.
         bindE (choose_manager L (ev_random ev) identity_pem required
                  (case p of Some s \<Rightarrow> pe_p2p_identity s | None \<Rightarrow> None)) (\<lambda>identity.
         bindE (create_consensus L (ap_consensus st) prev (if kind = Pos then Some node_id else None)
                  (Some manager) (Some stakes)) (\<lambda>co.
         let n = \<lparr>no_settings = st, no_id = node_id, no_stakes = stakes, no_manager = manager,
                  no_validator_external = (validator_pem \<noteq> None), no_identity = identity,
                  no_identity_external = (identity_pem \<noteq> None),
                  no_bc = new_blockchain (kind = Pos) (Some co) prev, no_persist_pending = False,
                  no_sync = [], no_active = [], no_connecting = [], no_urls = [],
                  no_reconnect = new_reconnect (nw_reconnect (ap_network st)),
                  no_p2p = new_server (ap_network st) (nd_environment (ap_node st)) local_url,
                  no_known = []\<rparr>
         in case p of Some s \<Rightarrow> restore_chain L s n | None \<Rightarrow> Inr n))))"

text \<open>\<open>_build_persisted_state\<close>.\<close>

definition stored_key :: "rsa_library \<Rightarrow> bool \<Rightarrow> signature_manager \<Rightarrow> bool \<Rightarrow> bytes option res" where
  "stored_key L store m outside =
     (if store \<and> sm_private m \<noteq> None \<and> \<not> outside
      then bindE (export_private_key L m ''pem'') (\<lambda>pem. Inr (Some pem))
      else Inr None)"

definition build_persisted_state :: "rsa_library \<Rightarrow> node \<Rightarrow> persisted_state res" where
  "build_persisted_state L n =
     (let store = ps_store_keys_on_disk (ap_persistence (no_settings n)) in
      bindE (stored_key L (store \<and> consensus_kind_of n = Pos) (no_manager n) (no_validator_external n)) (\<lambda>key.
      bindE (stored_key L store (no_identity n) (no_identity_external n)) (\<lambda>identity.
      Inr \<lparr>pe_chain = bc_chain (no_bc n), pe_node_id = no_id n,
           pe_genesis_prev_hash = ap_genesis_prev_hash (no_settings n), pe_stakes = no_stakes n,
           pe_private_key = key, pe_p2p_identity = identity\<rparr>)))"

text \<open>\<open>_persist_state\<close>.\<close>

definition persist_state ::
    "(file_path \<Rightarrow> bool) \<Rightarrow> (fs_op \<Rightarrow> bool) \<Rightarrow> rsa_library \<Rightarrow> node \<Rightarrow> files \<Rightarrow> files \<times> unit res" where
  "persist_state inside broken L n fs =
     (case build_persisted_state L n of
        Inl e \<Rightarrow> (fs, Inl e)
      | Inr s \<Rightarrow> save inside broken (ap_persistence (no_settings n)) s fs)"

text \<open>
  The network part of \<open>Node.__init__\<close>: the TLS context is built when TLS is on, and the bootstrap
  peers become the first known ones.  A bootstrap peer that is no string cannot be parsed as a URL.
\<close>

definition py_truth :: "pyval \<Rightarrow> bool" where
  "py_truth v =
     (case v of
        PNone \<Rightarrow> False
      | PBool b \<Rightarrow> b
      | PInt k \<Rightarrow> k \<noteq> 0
      | PFloat f \<Rightarrow> \<not> float_is_zero f
      | PStr s \<Rightarrow> s \<noteq> []
      | PList vs \<Rightarrow> vs \<noteq> []
      | PDict kvs \<Rightarrow> kvs \<noteq> [])"

fun bootstrap_urls :: "pyval list \<Rightarrow> string list res" where
  "bootstrap_urls [] = Inr []"
| "bootstrap_urls (v # vs) =
     (case v of
        PStr url \<Rightarrow> bindE (bootstrap_urls vs) (\<lambda>urls. Inr (url # urls))
      | _ \<Rightarrow> if py_truth v then Inl AttributeError else bootstrap_urls vs)"

definition attach_network :: "env \<Rightarrow> (string \<Rightarrow> bool) \<Rightarrow> node \<Rightarrow> node res" where
  "attach_network ev is_file n =
     (let nw = network n; local = sv_local_url (no_p2p n) in
      bindE (if tls_enabled (nw_tls nw)
             then bindE (build_server_ssl_context is_file (nw_tls nw)) (\<lambda>_. Inr ()) else Inr ()) (\<lambda>_.
      bindE (bootstrap_urls (nw_bootstrap_peers nw)) (\<lambda>urls.
      case add_each (url_ok ev n) local (pc_max_known_peers (nw_peer_connect nw)) urls [] of
        (_, Inl e) \<Rightarrow> Inl e
      | (known, Inr _) \<Rightarrow> Inr (n\<lparr>no_known := known\<rparr>))))"

text \<open>Creation with the files: load, create, save at once where nothing was stored.\<close>

definition open_node ::
    "(file_path \<Rightarrow> bool) \<Rightarrow> (fs_op \<Rightarrow> bool) \<Rightarrow> (string \<Rightarrow> bool) \<Rightarrow> env \<Rightarrow> app_settings \<Rightarrow> string
     \<Rightarrow> string \<Rightarrow> stakes \<Rightarrow> bytes option \<Rightarrow> bytes option \<Rightarrow> files \<Rightarrow> files \<times> node res" where
  "open_node inside broken is_file ev st uuid local_url given validator_pem identity_pem fs =
     (case bindE (load inside (ap_persistence st) fs) (\<lambda>p.
           bindE (create_node ev st uuid local_url given validator_pem identity_pem p) (\<lambda>n. Inr (p, n))) of
        Inl e \<Rightarrow> (fs, Inl e)
      | Inr (Some _, n) \<Rightarrow> (fs, attach_network ev is_file n)
      | Inr (None, n) \<Rightarrow>
          (case persist_state inside broken (ev_rsa ev) n fs of
             (fs', Inl e) \<Rightarrow> (fs', Inl e)
           | (fs', Inr _) \<Rightarrow> (fs', attach_network ev is_file n)))"

text \<open>
  The beginning of a round of \<open>_persist_worker\<close>; a round sleeps before it saves.  What \<open>stop\<close> clears
  before it saves for the last time.  It awaits the last worker first: an exception that ended it,
  \<open>earlier\<close>, ends \<open>stop\<close> as well.
\<close>

definition begin_round :: "node \<Rightarrow> node option" where
  "begin_round n = (if no_persist_pending n then Some (n\<lparr>no_persist_pending := False\<rparr>) else None)"

definition stop_node ::
    "(file_path \<Rightarrow> bool) \<Rightarrow> (fs_op \<Rightarrow> bool) \<Rightarrow> rsa_library \<Rightarrow> exn option \<Rightarrow> node \<Rightarrow> files \<Rightarrow> node \<times> files \<times> unit res" where
  "stop_node inside broken L earlier n fs =
     (let n1 = n\<lparr>no_p2p := (fold close_conn (sv_peers (no_p2p n)) (no_p2p n))\<lparr>sv_peers := [], sv_urls := []\<rparr>,
                no_active := [],
                no_connecting := [], no_urls := [], no_persist_pending := False\<rparr>
      in case earlier of
          Some e \<Rightarrow> (n1, fs, Inl e)
        | None \<Rightarrow> (case persist_state inside broken L n1 fs of (fs', r) \<Rightarrow> (n1, fs', r)))"

section \<open>Small operations\<close>

definition schedule_persist :: "node \<Rightarrow> node" where
  "schedule_persist n = n\<lparr>no_persist_pending := True\<rparr>"

definition chain_height :: "node \<Rightarrow> int" where
  "chain_height n = int (length (bc_chain (no_bc n)))"

definition node_send :: "string \<Rightarrow> message_type \<Rightarrow> pydict \<Rightarrow> node \<Rightarrow> node" where
  "node_send p t payload n = n\<lparr>no_p2p := send_to_peer p t payload (no_p2p n)\<rparr>"

definition node_close :: "string \<Rightarrow> node \<Rightarrow> node" where
  "node_close p n =
     (case find_peer (no_p2p n) p of
        None \<Rightarrow> n
      | Some c \<Rightarrow> n\<lparr>no_p2p := set_conn p (close_peer c) (no_p2p n)\<rparr>)"

definition hello_payload :: "env \<Rightarrow> node \<Rightarrow> pydict res" where
  "hello_payload ev n =
     bindE (genesis_hash (bc_chain (no_bc n)) (ap_genesis_prev_hash (no_settings n))) (\<lambda>gh.
     build_hello_payload (ev_rsa ev) (ev_random ev) (ev_seconds ev) (no_id n)
       (kind_text (consensus_kind_of n)) (chain_height n) gh (no_identity n)
       (Some (sv_local_url (no_p2p n))))"

definition send_hello :: "env \<Rightarrow> string \<Rightarrow> node \<Rightarrow> node res" where
  "send_hello ev p n = bindE (hello_payload ev n) (\<lambda>payload. Inr (node_send p HELLO payload n))"

text \<open>\<open>_announce_hello\<close>.\<close>

definition announce_hello :: "env \<Rightarrow> node \<Rightarrow> node res" where
  "announce_hello ev n =
     bindE (hello_payload ev n) (\<lambda>payload. Inr (n\<lparr>no_p2p := broadcast HELLO payload (no_p2p n)\<rparr>))"

section \<open>Synchronisation\<close>

text \<open>
  \<open>_request_chain\<close> up to the wait.  The session is registered before the tip is read, outside
  the \<open>try\<close>: when that raises, it stays registered.
\<close>

definition request_chain :: "string \<Rightarrow> node \<Rightarrow> node \<times> unit res" where
  "request_chain p n =
     (let blank = \<lparr>ss_blocks = [], ss_done = False, ss_expected = chain_height n + 1,
                   ss_prev = PNone, ss_bytes = 0\<rparr>
      in case new_session (bc_chain (no_bc n)) of
           Inl e \<Rightarrow> (n\<lparr>no_sync := AList.update p blank (no_sync n)\<rparr>, Inl e)
         | Inr s \<Rightarrow>
             (node_send p GET_CHAIN
                (get_chain_request (ss_expected s) (nw_chain_sync_batch_size (network n)) (no_id n))
                (n\<lparr>no_sync := AList.update p s (no_sync n)\<rparr>), Inr ()))"

text \<open>The \<open>for\<close> loops over the peers to ask: the next one without a session is waited for.\<close>

datatype sync_outcome = SyncDone | SyncWaits string "string list" | SyncRaises exn

fun begin_sync :: "string list \<Rightarrow> node \<Rightarrow> node \<times> sync_outcome" where
  "begin_sync [] n = (n, SyncDone)"
| "begin_sync (p # ps) n =
     (if map_of (no_sync n) p \<noteq> None then begin_sync ps n
      else case request_chain p n of
          (n', Inl e) \<Rightarrow> (n', SyncRaises e)
        | (n', Inr _) \<Rightarrow> (n', SyncWaits p ps))"

definition node_resolve_fork :: "rsa_library \<Rightarrow> block list \<Rightarrow> node \<Rightarrow> node \<times> unit res" where
  "node_resolve_fork L remote n =
     (case resolve_fork L (no_stakes n) remote (no_bc n) of
        (bc, Inl e) \<Rightarrow> (n\<lparr>no_bc := bc\<rparr>, Inl e)
      | (bc, Inr True) \<Rightarrow> (schedule_persist (n\<lparr>no_bc := bc\<rparr>), Inr ())
      | (bc, Inr False) \<Rightarrow> (n\<lparr>no_bc := bc\<rparr>, Inr ()))"

definition drop_session :: "string \<Rightarrow> node \<Rightarrow> node" where
  "drop_session p n = n\<lparr>no_sync := AList.delete p (no_sync n)\<rparr>"

text \<open>After the wait: the session is done, or the time is up.\<close>

definition finish_request :: "rsa_library \<Rightarrow> string \<Rightarrow> node \<Rightarrow> node \<times> unit res" where
  "finish_request L p n =
     (case map_of (no_sync n) p of
        None \<Rightarrow> (n, Inr ())
      | Some s \<Rightarrow>
          (case (if ss_blocks s = [] then (n, Inr ()) else node_resolve_fork L (ss_blocks s) n) of
             (n', r) \<Rightarrow> (drop_session p n', r)))"

definition expire_request :: "string \<Rightarrow> node \<Rightarrow> node" where
  "expire_request p n = drop_session p n"

section \<open>Messages\<close>

datatype outcome = Done | SyncWith "string list" | DialAll "string list" | Raise exn

text \<open>After a HELLO is accepted.\<close>

definition register_advertised :: "string \<Rightarrow> pyval \<Rightarrow> node \<Rightarrow> node" where
  "register_advertised p advertised n =
     (case advertised of
        PStr url \<Rightarrow>
          if (starts_with url ''ws://'' \<or> starts_with url ''wss://'') \<and>
             url \<noteq> sv_local_url (no_p2p n) \<and> map_of (no_urls n) p = None
          then n\<lparr>no_active := List.insert url (no_active n), no_urls := AList.update p url (no_urls n)\<rparr>
          else n
      | _ \<Rightarrow> n)"

definition admit_peer :: "env \<Rightarrow> string \<Rightarrow> peer_conn \<Rightarrow> pydict \<Rightarrow> node \<Rightarrow> node \<times> outcome" where
  "admit_peer ev p c payload n =
     (let n1 = n\<lparr>no_p2p := set_conn p (mark_authenticated c) (no_p2p n)\<rparr> in
      case (if map_of (no_urls n1) p = None then send_hello ev p n1 else Inr n1) of
        Inl e \<Rightarrow> (n1, Raise e)
      | Inr n2 \<Rightarrow>
          let n3 = register_advertised p (dict_get payload ''advertised_url'') n2 in
          if chain_height n3 < resolve_chain_height (dict_get payload ''chain_height'') 0
          then (n3, SyncWith [p]) else (n3, Done))"

definition same_network :: "node \<Rightarrow> pydict \<Rightarrow> bool res" where
  "same_network n payload =
     (if \<not> py_eq (dict_get payload ''consensus_type'') (PStr (kind_text (consensus_kind_of n))) then Inr False
      else bindE (genesis_hash (bc_chain (no_bc n)) (ap_genesis_prev_hash (no_settings n))) (\<lambda>local.
        Inr (py_eq (dict_get payload ''genesis_hash'') (PStr local))))"

definition on_hello :: "env \<Rightarrow> string \<Rightarrow> pydict \<Rightarrow> node \<Rightarrow> node \<times> outcome" where
  "on_hello ev p payload n =
     (case find_peer (no_p2p n) p of
        None \<Rightarrow> (n, Done)
      | Some c \<Rightarrow>
          (case (if pa_enabled (nw_peer_auth (network n))
                 then verify_hello (ev_rsa ev) (nw_peer_auth (network n)) (ev_time ev) payload
                 else Inr True) of
             Inl e \<Rightarrow> (n, Raise e)
           | Inr False \<Rightarrow> (node_close p n, Done)
           | Inr True \<Rightarrow>
               (case same_network n payload of
                  Inl e \<Rightarrow> (n, Raise e)
                | Inr False \<Rightarrow> (node_close p n, Done)
                | Inr True \<Rightarrow> admit_peer ev p c payload n)))"

definition on_peers :: "env \<Rightarrow> pydict \<Rightarrow> node \<Rightarrow> node \<times> outcome" where
  "on_peers ev payload n =
     (case dict_get payload ''peers'' of
        PList peers \<Rightarrow>
          (case add_peers (url_ok ev n) (sv_local_url (no_p2p n)) (nw_peer_connect (network n))
                  (concat (map (\<lambda>v. case v of PStr url \<Rightarrow> [url] | _ \<Rightarrow> []) peers)) (no_known n) of
             (known, Inl e) \<Rightarrow> (n\<lparr>no_known := known\<rparr>, Raise e)
           | (known, Inr _) \<Rightarrow>
               (n\<lparr>no_known := known\<rparr>,
                DialAll (slice_upto (peer_list (sv_local_url (no_p2p n)) known) (nw_max_peers (network n)))))
      | _ \<Rightarrow> (n, Done))"

definition on_get_chain :: "string \<Rightarrow> pydict \<Rightarrow> node \<Rightarrow> node" where
  "on_get_chain p payload n =
     node_send p CHAIN_RESPONSE
       (chain_response (nw_chain_sync_batch_size (network n)) (no_id n) (no_bc n) payload) n"

definition on_chain_response :: "env \<Rightarrow> string \<Rightarrow> pydict \<Rightarrow> node \<Rightarrow> node \<times> outcome" where
  "on_chain_response ev p payload n =
     (case map_of (no_sync n) p of
        Some s \<Rightarrow>
          (case take_batch (network n) s payload of
             (s', answer) \<Rightarrow>
               let n' = n\<lparr>no_sync := AList.update p s' (no_sync n)\<rparr> in
               (case answer of
                  Refused \<Rightarrow>
                    (case find_peer (no_p2p n') p of
                       Some c \<Rightarrow> if pr_closed c then n' else node_close p n'
                     | None \<Rightarrow> n')
                | Again \<Rightarrow>
                    node_send p GET_CHAIN
                      (get_chain_request (ss_expected s') (nw_chain_sync_batch_size (network n)) (no_id n)) n'
                | _ \<Rightarrow> n', Done))
      | None \<Rightarrow>
          (case dict_get payload ''blocks'' of
             PList blocks \<Rightarrow>
               if list_all is_dict blocks
               then (case node_resolve_fork (ev_rsa ev) blocks n of
                       (n', Inl e) \<Rightarrow> (n', Raise e)
                     | (n', Inr _) \<Rightarrow> (n', Done))
               else (n, Done)
           | _ \<Rightarrow> (n, Done)))"

definition on_new_block :: "env \<Rightarrow> pydict \<Rightarrow> node \<Rightarrow> node \<times> outcome" where
  "on_new_block ev payload n =
     (case dict_get payload ''block'' of
        PDict (i # items) \<Rightarrow>
          (case add_block (ev_rsa ev) (PDict (i # items)) True (Some (no_stakes n)) (no_bc n) of
             (bc, Inl e) \<Rightarrow> (n\<lparr>no_bc := bc\<rparr>, Raise e)
           | (bc, Inr True) \<Rightarrow> (schedule_persist (n\<lparr>no_bc := bc\<rparr>), Done)
           | (bc, Inr False) \<Rightarrow> (n\<lparr>no_bc := bc\<rparr>, SyncWith (sv_peers (no_p2p n))))
      | _ \<Rightarrow> (n, Done))"

definition on_pong :: "env \<Rightarrow> string \<Rightarrow> node \<Rightarrow> node" where
  "on_pong ev p n =
     (case find_peer (no_p2p n) p of
        None \<Rightarrow> n
      | Some c \<Rightarrow> n\<lparr>no_p2p := set_conn p (c\<lparr>pr_last_pong := Some (ev_clock ev)\<rparr>) (no_p2p n)\<rparr>)"

definition handle_message :: "env \<Rightarrow> string \<Rightarrow> message_type \<Rightarrow> pydict \<Rightarrow> node \<Rightarrow> node \<times> outcome" where
  "handle_message ev p t payload n =
     (case t of
        HELLO \<Rightarrow> on_hello ev p payload n
      | PEERS \<Rightarrow> on_peers ev payload n
      | GET_CHAIN \<Rightarrow> (on_get_chain p payload n, Done)
      | CHAIN_RESPONSE \<Rightarrow> on_chain_response ev p payload n
      | NEW_BLOCK \<Rightarrow> on_new_block ev payload n
      | PING \<Rightarrow> (node_send p PONG [(''node_id'', PStr (no_id n))] n, Done)
      | PONG \<Rightarrow> (on_pong ev p n, Done))"

section \<open>The node's own actions\<close>

definition node_add_block :: "env \<Rightarrow> pyval \<Rightarrow> pyval \<Rightarrow> node \<Rightarrow> node \<times> unit res" where
  "node_add_block ev input_data output_data n =
     (case add_new_block (ev_rsa ev) (ev_random ev) (ev_utc ev) input_data output_data (no_bc n) of
        (bc, Inl e) \<Rightarrow> (n\<lparr>no_bc := bc\<rparr>, Inl e)
      | (bc, Inr b) \<Rightarrow>
          let n1 = schedule_persist (n\<lparr>no_bc := bc\<rparr>) in
          (n1\<lparr>no_p2p := broadcast NEW_BLOCK [(''block'', b), (''node_id'', PStr (no_id n))] (no_p2p n1)\<rparr>, Inr ()))"

text \<open>\<open>connect_peer\<close>: its guard, and what follows a connection attempt and the handshake.\<close>

definition may_dial :: "env \<Rightarrow> string \<Rightarrow> node \<Rightarrow> bool" where
  "may_dial ev url n \<longleftrightarrow>
     url \<noteq> [] \<and> url \<noteq> sv_local_url (no_p2p n) \<and> url \<notin> set (no_active n) \<and>
     url \<notin> set (no_connecting n) \<and> should_retry url (ev_clock ev) (no_reconnect n)"

definition begin_dial :: "string \<Rightarrow> node \<Rightarrow> node" where
  "begin_dial url n = n\<lparr>no_connecting := List.insert url (no_connecting n)\<rparr>"

definition end_dial :: "string \<Rightarrow> node \<Rightarrow> node" where
  "end_dial url n = n\<lparr>no_connecting := removeAll url (no_connecting n)\<rparr>"

definition node_failure :: "env \<Rightarrow> string \<Rightarrow> node \<Rightarrow> node \<times> unit res" where
  "node_failure ev url n =
     (case record_failure (ev_log ev) (ev_power ev) url (ev_clock ev) (no_reconnect n) of
        (rm, r) \<Rightarrow> (n\<lparr>no_reconnect := rm\<rparr>, r))"

text \<open>The connection is up: it is registered under its URL and greeted.\<close>

definition dialled :: "env \<Rightarrow> string \<Rightarrow> string \<Rightarrow> node \<Rightarrow> node \<times> unit res" where
  "dialled ev url p n =
     (let n1 = n\<lparr>no_reconnect := record_success url (no_reconnect n),
                no_active := List.insert url (no_active n),
                no_urls := AList.update p url (no_urls n)\<rparr>
      in case send_hello ev p n1 of
           Inl e \<Rightarrow> (end_dial url n1, Inl e)
         | Inr n2 \<Rightarrow> (n2, Inr ()))"

text \<open>The end of the handshake: the known peers are sent, or the connection is given up.\<close>

definition share_peers :: "string \<Rightarrow> node \<Rightarrow> node" where
  "share_peers p n =
     (let local = sv_local_url (no_p2p n) in
      node_send p PEERS [(''peers'', PList (map PStr (peer_list local (no_known n) @ [local])))] n)"

definition handshake_over :: "env \<Rightarrow> string \<Rightarrow> string \<Rightarrow> bool \<Rightarrow> node \<Rightarrow> node \<times> unit res" where
  "handshake_over ev url p authenticated n =
     (if pa_enabled (nw_peer_auth (network n)) \<and> \<not> authenticated
      then (case node_failure ev url (n\<lparr>no_urls := AList.delete p (no_urls n),
                  no_active := removeAll url (no_active n)\<rparr>) of
              (n1, Inl e) \<Rightarrow> (end_dial url n1, Inl e)
            | (n1, Inr _) \<Rightarrow> (end_dial url (node_close p n1), Inr ()))
      else (end_dial url (share_peers p n), Inr ()))"

definition dial_failed :: "env \<Rightarrow> string \<Rightarrow> node \<Rightarrow> node \<times> unit res" where
  "dial_failed ev url n =
     (case node_failure ev url n of (n1, r) \<Rightarrow> (end_dial url n1, r))"

text \<open>\<open>_on_peer_disconnected\<close>.\<close>

definition on_disconnected :: "env \<Rightarrow> string \<Rightarrow> node \<Rightarrow> node \<times> unit res" where
  "on_disconnected ev p n =
     (let n1 = n\<lparr>no_urls := AList.delete p (no_urls n)\<rparr> in
      case map_of (no_urls n) p of
        Some (c # cs) \<Rightarrow>
          let n2 = n1\<lparr>no_active := removeAll (c # cs) (no_active n1)\<rparr> in
          if rc_enabled (nw_reconnect (network n)) then node_failure ev (c # cs) n2 else (n2, Inr ())
      | _ \<Rightarrow> (n1, Inr ()))"

text \<open>The end of a listen loop, with the callbacks of the server and of the node.\<close>

definition connection_lost :: "env \<Rightarrow> string \<Rightarrow> node \<Rightarrow> node \<times> unit res" where
  "connection_lost ev p n = on_disconnected ev p (n\<lparr>no_p2p := drop_peer p (no_p2p n)\<rparr>)"

text \<open>A round of the ping loop.  A float is compared with the int of the settings exactly.\<close>

definition float_gt_int :: "pyfloat \<Rightarrow> int \<Rightarrow> bool" where
  "float_gt_int f k =
     (case f of Fin x \<Rightarrow> of_int k < x | NegZero \<Rightarrow> k < 0 | PosInf \<Rightarrow> True | _ \<Rightarrow> False)"

definition ping_one :: "int \<Rightarrow> pyfloat \<Rightarrow> peer_conn \<Rightarrow> peer_conn" where
  "ping_one timeout now c =
     (if pr_closed c then c
      else case pr_last_ping c of
          None \<Rightarrow> c\<lparr>pr_last_ping := Some now\<rparr>
        | Some ping \<Rightarrow>
            let answered = (case pr_last_pong c of None \<Rightarrow> False | Some pong \<Rightarrow> float_le ping pong);
                late = (case pr_last_pong c of None \<Rightarrow> True | Some pong \<Rightarrow> float_lt pong ping)
            in if late \<and> float_gt_int (float_sub now ping) timeout then close_peer c
               else if answered then c\<lparr>pr_last_ping := Some now\<rparr> else c)"

definition ping_round :: "env \<Rightarrow> node \<Rightarrow> node" where
  "ping_round ev n =
     (let sv = fold (\<lambda>p sv. case find_peer sv p of
             None \<Rightarrow> sv
           | Some c \<Rightarrow> set_conn p (ping_one (nw_pong_timeout (network n)) (ev_clock ev) c) sv)
           (sv_peers (no_p2p n)) (no_p2p n)
      in n\<lparr>no_p2p := broadcast PING [(''node_id'', PStr (no_id n))] sv\<rparr>)"

text \<open>
  The URLs a round of the reconnect loop goes through, in order.  Bootstrap peers that are no
  strings are falsy values here (others stop the node at its creation): lists and dicts cannot be
  put into a set, and values of different types cannot be sorted.
\<close>

definition reconnect_targets :: "node \<Rightarrow> string list res" where
  "reconnect_targets n =
     (let boot = nw_bootstrap_peers (network n); known = peer_list (sv_local_url (no_p2p n)) (no_known n);
          urls = concat (map (\<lambda>v. case v of PStr url \<Rightarrow> [url] | _ \<Rightarrow> []) boot) @ known;
          kinds = (if urls = [] then 0 else 1) + (if PNone \<in> set boot then 1 else 0) +
                  (if list_ex (\<lambda>v. is_int v \<or> is_bool v \<or> (case v of PFloat _ \<Rightarrow> True | _ \<Rightarrow> False)) boot
                   then 1 else 0 :: nat)
      in if list_ex (\<lambda>v. is_list v \<or> is_dict v) boot \<or> 1 < kinds then Inl TypeError
         else Inr (sort (remdups urls)))"

end
