(* ===== verification/Node_Facts.thy ===== *)
theory Node_Facts
  imports Node
begin

text \<open>
  What the handlers of a node keep and change: the configuration and the set of peers, the
  verified chain, the bounds of the sessions, and which connections are authenticated.
\<close>

section \<open>What stays\<close>

text \<open>Which connections there are, and which of them require authentication.\<close>

definition requires :: "node \<Rightarrow> string \<Rightarrow> bool option" where
  "requires n p = map_option pr_require_auth (map_of (sv_conns (no_p2p n)) p)"

text \<open>What a node is made with, and the parts of it that no handler of a message changes.\<close>

definition core ::
    "node \<Rightarrow> app_settings \<times> stakes \<times> string \<times> signature_manager \<times> bool \<times> signature_manager \<times> bool" where
  "core n = (no_settings n, no_stakes n, no_id n, no_manager n, no_validator_external n, no_identity n,
     no_identity_external n)"

definition frame where
  "frame n = (core n, sv_settings (no_p2p n), sv_peers (no_p2p n), requires n)"

text \<open>Which connections there are, and which of them are authenticated.\<close>

definition auths :: "node \<Rightarrow> string \<Rightarrow> bool option" where
  "auths n p = map_option pr_authenticated (map_of (sv_conns (no_p2p n)) p)"

lemma frame_update [simp]:
  "frame (n\<lparr>no_bc := bc\<rparr>) = frame n" "frame (n\<lparr>no_sync := ss\<rparr>) = frame n"
  "frame (n\<lparr>no_known := k\<rparr>) = frame n" "frame (n\<lparr>no_active := a\<rparr>) = frame n"
  "frame (n\<lparr>no_urls := u\<rparr>) = frame n" "frame (n\<lparr>no_connecting := a\<rparr>) = frame n"
  "frame (n\<lparr>no_reconnect := rm\<rparr>) = frame n" "frame (schedule_persist n) = frame n"
  "frame (drop_session p n) = frame n" "no_persist_pending (drop_session p n) = no_persist_pending n"
  by (simp_all add: frame_def core_def requires_def [abs_def] schedule_persist_def drop_session_def)

lemma schedule_persist_simps [simp]:
  "no_bc (schedule_persist n) = no_bc n" "no_sync (schedule_persist n) = no_sync n"
  "no_stakes (schedule_persist n) = no_stakes n" "no_known (schedule_persist n) = no_known n"
  "no_settings (schedule_persist n) = no_settings n" "no_p2p (schedule_persist n) = no_p2p n"
  "no_persist_pending (schedule_persist n)"
  by (simp_all add: schedule_persist_def)

lemma auths_update [simp]:
  "auths (n\<lparr>no_bc := bc\<rparr>) = auths n" "auths (n\<lparr>no_sync := ss\<rparr>) = auths n"
  "auths (n\<lparr>no_known := k\<rparr>) = auths n" "auths (n\<lparr>no_active := a\<rparr>) = auths n"
  "auths (n\<lparr>no_urls := u\<rparr>) = auths n" "auths (n\<lparr>no_connecting := a\<rparr>) = auths n"
  "auths (n\<lparr>no_reconnect := rm\<rparr>) = auths n" "auths (schedule_persist n) = auths n"
  "auths (drop_session p n) = auths n"
  by (simp_all add: auths_def [abs_def] schedule_persist_def drop_session_def)

lemma find_peer_conn: "find_peer sv p = Some c \<Longrightarrow> map_of (sv_conns sv) p = Some c"
  by (simp add: find_peer_def split: if_splits)

lemma send_to_peer_simps [simp]:
  "sv_settings (send_to_peer p t payload sv) = sv_settings sv"
  "sv_peers (send_to_peer p t payload sv) = sv_peers sv"
  "sv_conns (send_to_peer p t payload sv) = sv_conns sv"
  "sv_local_url (send_to_peer p t payload sv) = sv_local_url sv"
  using send_to_peer_only [of p t payload sv] by auto

lemma broadcast_simps [simp]:
  "sv_settings (broadcast t payload sv) = sv_settings sv" "sv_peers (broadcast t payload sv) = sv_peers sv"
  "sv_conns (broadcast t payload sv) = sv_conns sv"
  using broadcast_only [of t payload sv] by auto

lemma node_send_simps [simp]:
  "frame (node_send p t payload n) = frame n" "auths (node_send p t payload n) = auths n"
  "no_bc (node_send p t payload n) = no_bc n" "no_sync (node_send p t payload n) = no_sync n"
  "no_stakes (node_send p t payload n) = no_stakes n" "no_urls (node_send p t payload n) = no_urls n"
  "no_settings (node_send p t payload n) = no_settings n" "no_known (node_send p t payload n) = no_known n"
  "no_persist_pending (node_send p t payload n) = no_persist_pending n"
  by (simp_all add: node_send_def frame_def core_def requires_def [abs_def] auths_def [abs_def])

lemma node_close_simps [simp]:
  "frame (node_close p n) = frame n" "auths (node_close p n) = auths n"
  "no_bc (node_close p n) = no_bc n" "no_sync (node_close p n) = no_sync n"
  "no_stakes (node_close p n) = no_stakes n" "no_settings (node_close p n) = no_settings n"
  "no_known (node_close p n) = no_known n" "no_persist_pending (node_close p n) = no_persist_pending n"
  by (auto simp: node_close_def frame_def core_def requires_def [abs_def] auths_def [abs_def] fun_eq_iff dest: find_peer_conn split: option.split)

lemma on_pong_simps [simp]:
  "frame (on_pong ev p n) = frame n" "auths (on_pong ev p n) = auths n" "no_bc (on_pong ev p n) = no_bc n"
  "no_sync (on_pong ev p n) = no_sync n" "no_stakes (on_pong ev p n) = no_stakes n"
  "no_known (on_pong ev p n) = no_known n" "no_persist_pending (on_pong ev p n) = no_persist_pending n"
  by (auto simp: on_pong_def frame_def core_def requires_def [abs_def] auths_def [abs_def] fun_eq_iff dest: find_peer_conn split: option.split)

lemma register_advertised_simps [simp]:
  "frame (register_advertised p v n) = frame n" "auths (register_advertised p v n) = auths n"
  "no_bc (register_advertised p v n) = no_bc n" "no_sync (register_advertised p v n) = no_sync n"
  "no_stakes (register_advertised p v n) = no_stakes n" "no_known (register_advertised p v n) = no_known n"
  "no_persist_pending (register_advertised p v n) = no_persist_pending n"
  by (simp_all add: register_advertised_def split: pyval.split)

lemma send_hello_only: "send_hello ev p n = Inr n' \<Longrightarrow> \<exists>payload. n' = node_send p HELLO payload n"
  by (auto simp: send_hello_def bindE_eq_Inr)

lemma admit_peer_effect:
  assumes "admit_peer ev p c payload n = (n', out)" "find_peer (no_p2p n) p = Some c"
  shows "frame n' = frame n" "auths n' = (auths n)(p := Some True)" "no_bc n' = no_bc n"
    "no_sync n' = no_sync n" "no_stakes n' = no_stakes n" "no_known n' = no_known n"
    "no_persist_pending n' = no_persist_pending n"
proof -
  let ?n1 = "n\<lparr>no_p2p := set_conn p (mark_authenticated c) (no_p2p n)\<rparr>"
  have "frame ?n1 = frame n" "auths ?n1 = (auths n)(p := Some True)"
    using find_peer_conn [OF assms(2)]
    by (auto simp: frame_def core_def requires_def [abs_def] auths_def [abs_def] fun_eq_iff)
  then show "frame n' = frame n" "auths n' = (auths n)(p := Some True)" "no_bc n' = no_bc n"
    "no_sync n' = no_sync n" "no_stakes n' = no_stakes n" "no_known n' = no_known n"
    "no_persist_pending n' = no_persist_pending n"
    using assms(1)
    by (auto simp: admit_peer_def Let_def dest!: send_hello_only split: sum.splits if_splits)
qed

section \<open>HELLO\<close>

text \<open>A payload that the node takes for a HELLO of its network, signed where that is required.\<close>

definition accepted_hello :: "env \<Rightarrow> node \<Rightarrow> pydict \<Rightarrow> bool" where
  "accepted_hello ev n payload \<longleftrightarrow>
     (pa_enabled (nw_peer_auth (network n)) \<longrightarrow>
        verify_hello (ev_rsa ev) (nw_peer_auth (network n)) (ev_time ev) payload = Inr True) \<and>
     same_network n payload = Inr True"

lemma on_hello_effect:
  assumes "on_hello ev p payload n = (n', out)"
  shows "frame n' = frame n" "no_bc n' = no_bc n" "no_sync n' = no_sync n" "no_stakes n' = no_stakes n"
    "no_known n' = no_known n" "no_persist_pending n' = no_persist_pending n"
    "auths n' = auths n \<or> (auths n' = (auths n)(p := Some True) \<and> accepted_hello ev n payload)"
  using assms
  by (auto simp: on_hello_def accepted_hello_def dest: admit_peer_effect
      split: option.splits sum.splits bool.splits if_splits)

section \<open>The chain\<close>

text \<open>The consensus the node was created with; the chain object changes no more of it than its stakes.\<close>

definition first_consensus :: "rsa_library \<Rightarrow> node \<Rightarrow> consensus_obj res" where
  "first_consensus L n =
     create_consensus L (ap_consensus (no_settings n)) (ap_genesis_prev_hash (no_settings n))
       (if consensus_kind_of n = Pos then Some (no_id n) else None) (Some (no_manager n)) (Some (no_stakes n))"

definition rules_kept :: "blockchain \<Rightarrow> blockchain \<Rightarrow> bool" where
  "rules_kept bc bc' \<longleftrightarrow>
     same_rules (bc_consensus bc) (bc_consensus bc') \<and> bc_genesis_prev_hash bc' = bc_genesis_prev_hash bc"

definition chain_good :: "rsa_library \<Rightarrow> node \<Rightarrow> bool" where
  "chain_good L n \<longleftrightarrow>
     verified_state L (Some (no_stakes n)) (no_bc n) \<and>
     (\<exists>co. first_consensus L n = Inr co \<and> same_rules (Some co) (bc_consensus (no_bc n))) \<and>
     bc_genesis_prev_hash (no_bc n) = ap_genesis_prev_hash (no_settings n)"

lemma core_parts: "core n' = core n \<Longrightarrow> no_settings n' = no_settings n \<and> no_stakes n' = no_stakes n \<and>
    no_id n' = no_id n \<and> no_manager n' = no_manager n"
  by (simp add: core_def)

lemma chain_good_core: "core n' = core n \<Longrightarrow> no_bc n' = no_bc n \<Longrightarrow> chain_good L n' = chain_good L n"
  by (drule core_parts) (simp add: chain_good_def first_consensus_def)

lemma chain_good_cong: "frame n' = frame n \<Longrightarrow> no_bc n' = no_bc n \<Longrightarrow> chain_good L n' = chain_good L n"
  by (rule chain_good_core) (simp_all add: frame_def)

lemma chain_good_schedule [simp]: "chain_good L (schedule_persist n) = chain_good L n"
  by (rule chain_good_cong) simp_all

lemma same_rules_refl: "same_rules a a"
  by (cases "(a, a)" rule: same_rules.cases) auto

lemma same_rules_sym: "same_rules a b \<Longrightarrow> same_rules b a"
  by (cases "(a, b)" rule: same_rules.cases) (auto intro: same_rules_refl)

lemma same_rules_trans: "same_rules a b \<Longrightarrow> same_rules b c \<Longrightarrow> same_rules a c"
  by (cases "(a, b)" rule: same_rules.cases; cases "(b, c)" rule: same_rules.cases) auto

lemma same_rules_None: "same_rules a b \<Longrightarrow> b = None \<longleftrightarrow> a = None"
  by (cases "(a, b)" rule: same_rules.cases) auto

lemma chain_good_update:
  assumes "chain_good L n" "verified_state L (Some (no_stakes n)) bc" "rules_kept (no_bc n) bc"
  shows "chain_good L (n\<lparr>no_bc := bc\<rparr>)"
  using assms same_rules_trans by (auto simp: chain_good_def first_consensus_def rules_kept_def)

lemma chain_good_consensus: "chain_good L n \<Longrightarrow> bc_consensus (no_bc n) \<noteq> None"
  using same_rules_None by (fastforce simp: chain_good_def)

text \<open>The chain changes only together with the request to save it, and a request stays.\<close>

definition settles :: "node \<Rightarrow> node \<Rightarrow> bool" where
  "settles n n' \<longleftrightarrow>
     (no_persist_pending n \<longrightarrow> no_persist_pending n') \<and>
     (bc_chain (no_bc n') = bc_chain (no_bc n) \<or> no_persist_pending n')"

definition progress :: "rsa_library \<Rightarrow> node \<Rightarrow> node \<Rightarrow> bool" where
  "progress L n n' \<longleftrightarrow> (chain_good L n \<longrightarrow> chain_good L n' \<and> settles n n')"

lemma progress_refl [simp]: "progress L n n"
  by (simp add: progress_def settles_def)

lemma progress_trans: "progress L a b \<Longrightarrow> progress L b c \<Longrightarrow> progress L a c"
  by (auto simp: progress_def settles_def)

lemma progress_core:
  "core n' = core n \<Longrightarrow> no_bc n' = no_bc n \<Longrightarrow> no_persist_pending n' = no_persist_pending n \<Longrightarrow> progress L n n'"
  using chain_good_core [of n' n L] by (simp add: progress_def settles_def)

lemma progress_cong:
  "frame n' = frame n \<Longrightarrow> no_bc n' = no_bc n \<Longrightarrow> no_persist_pending n' = no_persist_pending n \<Longrightarrow> progress L n n'"
  by (rule progress_core) (simp_all add: frame_def)

lemma progress_schedule: "(chain_good L n \<Longrightarrow> chain_good L (n\<lparr>no_bc := bc\<rparr>)) \<Longrightarrow> progress L n (schedule_persist (n\<lparr>no_bc := bc\<rparr>))"
  by (simp add: progress_def settles_def)

lemma rules_kept_refl [simp]: "rules_kept bc bc"
  by (simp add: rules_kept_def same_rules_refl)

lemma append_block_rules: "append_block bc b = (bc', r) \<Longrightarrow> rules_kept bc bc'"
  using append_block_chain by (simp add: rules_kept_def)

lemma replace_chain_rules: "replace_chain L ch gs bc = (bc', r) \<Longrightarrow> rules_kept bc bc'"
  by (auto simp: replace_chain_def rules_kept_def Let_def sync_validators_from_chain_def bindE_eq_Inr same_rules_refl
      split: sum.splits if_splits option.splits consensus_obj.splits)

lemma resolve_fork_good:
  assumes "resolve_fork L (no_stakes n) remote (no_bc n) = (bc, r)" "chain_good L n"
  shows "chain_good L (n\<lparr>no_bc := bc\<rparr>)"
proof -
  have st: "verified_state L (Some (no_stakes n)) (no_bc n)" using assms(2) by (simp add: chain_good_def)
  from assms(1) have "bc = no_bc n \<or> (\<exists>ch. replace_chain L ch (Some (no_stakes n)) (no_bc n) = (bc, r))"
    by (auto simp: resolve_fork_def split: sum.splits option.splits)
  then have "verified_state L (Some (no_stakes n)) bc \<and> rules_kept (no_bc n) bc"
    using st replace_chain_verified [OF st] replace_chain_rules by auto
  with assms(2) show ?thesis using chain_good_update by blast
qed

lemma node_resolve_fork_effect:
  assumes "node_resolve_fork L remote n = (n', r)"
  shows "frame n' = frame n" "auths n' = auths n" "no_sync n' = no_sync n" "no_stakes n' = no_stakes n"
    "no_known n' = no_known n" "progress L n n'"
proof -
  obtain bc x where bc: "resolve_fork L (no_stakes n) remote (no_bc n) = (bc, x)" by fastforce
  then have "x = Inr True \<or> bc = no_bc n"
    by (auto simp: resolve_fork_def dest: replace_chain_returned split: sum.splits option.splits)
  then have n': "n' = schedule_persist (n\<lparr>no_bc := bc\<rparr>) \<or> n' = n"
    using assms bc by (auto simp: node_resolve_fork_def split: sum.splits bool.splits)
  then show "frame n' = frame n" "auths n' = auths n" "no_sync n' = no_sync n" "no_stakes n' = no_stakes n"
    "no_known n' = no_known n" by auto
  show "progress L n n'" using n' progress_schedule resolve_fork_good [OF bc] by auto
qed

lemma add_block_good:
  assumes "add_block L b True (Some (no_stakes n)) (no_bc n) = (bc, r)" "chain_good L n"
  shows "chain_good L (n\<lparr>no_bc := bc\<rparr>)"
proof (rule chain_good_update [OF assms(2)])
  have st: "verified_state L (Some (no_stakes n)) (no_bc n)" using assms(2) by (simp add: chain_good_def)
  show "verified_state L (Some (no_stakes n)) bc"
    using add_block_verified [OF st assms(1)] chain_good_consensus [OF assms(2)] by simp
  show "rules_kept (no_bc n) bc" using add_block_cases [OF assms(1)] append_block_rules by auto
qed

lemma add_new_block_good:
  assumes "add_new_block L rnd now i o' (no_bc n) = (bc, r)" "chain_good L n"
    "ready L (no_bc n) (Some (no_stakes n)) now"
  shows "chain_good L (n\<lparr>no_bc := bc\<rparr>)"
proof (rule chain_good_update [OF assms(2)])
  have st: "verified_state L (Some (no_stakes n)) (no_bc n)" using assms(2) by (simp add: chain_good_def)
  show "verified_state L (Some (no_stakes n)) bc" using add_new_block_verified [OF st assms(3,1)] .
  show "rules_kept (no_bc n) bc" using add_new_block_cases [OF assms(1)] append_block_rules by auto
qed

section \<open>Messages\<close>

lemma on_peers_effect:
  assumes "on_peers ev payload n = (n', out)"
  shows "frame n' = frame n" "auths n' = auths n" "no_bc n' = no_bc n" "no_sync n' = no_sync n"
    "no_stakes n' = no_stakes n" "no_persist_pending n' = no_persist_pending n"
  using assms by (auto simp: on_peers_def split: pyval.splits prod.splits sum.splits)

lemma on_get_chain_simps [simp]:
  "frame (on_get_chain p payload n) = frame n" "auths (on_get_chain p payload n) = auths n"
  "no_bc (on_get_chain p payload n) = no_bc n" "no_sync (on_get_chain p payload n) = no_sync n"
  "no_stakes (on_get_chain p payload n) = no_stakes n" "no_known (on_get_chain p payload n) = no_known n"
  "no_persist_pending (on_get_chain p payload n) = no_persist_pending n"
  by (simp_all add: on_get_chain_def)

text \<open>The sessions after a message: one of them may take a batch.\<close>

definition took_batch :: "node \<Rightarrow> string \<Rightarrow> node \<Rightarrow> bool" where
  "took_batch n p n' \<longleftrightarrow>
     no_sync n' = no_sync n \<or>
     (\<exists>s s' payload answer. map_of (no_sync n) p = Some s \<and>
        take_batch (network n) s payload = (s', answer) \<and> no_sync n' = AList.update p s' (no_sync n))"

lemma on_chain_response_effect:
  assumes "on_chain_response ev p payload n = (n', out)"
  shows "frame n' = frame n" "auths n' = auths n" "no_stakes n' = no_stakes n" "no_known n' = no_known n"
    "took_batch n p n'" "progress (ev_rsa ev) n n'"
proof -
  have "frame n' = frame n \<and> auths n' = auths n \<and> no_stakes n' = no_stakes n \<and> no_known n' = no_known n \<and>
    took_batch n p n' \<and> progress (ev_rsa ev) n n'"
  proof (cases "map_of (no_sync n) p")
    case None
    have "n' = n \<or> (\<exists>blocks r. node_resolve_fork (ev_rsa ev) blocks n = (n', r))"
      using assms None by (auto simp: on_chain_response_def split: pyval.splits prod.splits sum.splits if_splits)
    then show ?thesis
    proof
      assume "\<exists>blocks r. node_resolve_fork (ev_rsa ev) blocks n = (n', r)"
      then obtain blocks r where "node_resolve_fork (ev_rsa ev) blocks n = (n', r)" by blast
      from node_resolve_fork_effect [OF this] show ?thesis by (simp add: took_batch_def)
    qed (simp add: took_batch_def)
  next
    case (Some s)
    obtain s' answer where b: "take_batch (network n) s payload = (s', answer)" by fastforce
    define n1 where "n1 = n\<lparr>no_sync := AList.update p s' (no_sync n)\<rparr>"
    have "n' = n1 \<or> n' = node_close p n1 \<or> (\<exists>t q. n' = node_send p t q n1)"
      using assms by (auto simp: on_chain_response_def Some b Let_def n1_def
          split: batch_answer.splits option.splits if_splits)
    then have same: "frame n' = frame n1" "auths n' = auths n1" "no_stakes n' = no_stakes n1"
      "no_known n' = no_known n1" "no_sync n' = no_sync n1" "no_bc n' = no_bc n1"
      "no_persist_pending n' = no_persist_pending n1"
      by auto
    have one: "frame n1 = frame n" "auths n1 = auths n" "no_stakes n1 = no_stakes n"
      "no_known n1 = no_known n" "no_bc n1 = no_bc n" "no_sync n1 = AList.update p s' (no_sync n)"
      "no_persist_pending n1 = no_persist_pending n"
      by (simp_all add: n1_def)
    have "took_batch n p n'" unfolding took_batch_def same(5) one(6) using Some b by blast
    moreover have "progress (ev_rsa ev) n n'"
      by (rule progress_cong) (simp_all only: same one)
    ultimately show ?thesis by (simp add: same one)
  qed
  then show "frame n' = frame n" "auths n' = auths n" "no_stakes n' = no_stakes n" "no_known n' = no_known n"
    "took_batch n p n'" "progress (ev_rsa ev) n n'" by blast+
qed

lemma on_new_block_effect:
  assumes "on_new_block ev payload n = (n', out)"
  shows "frame n' = frame n" "auths n' = auths n" "no_stakes n' = no_stakes n" "no_sync n' = no_sync n"
    "no_known n' = no_known n" "progress (ev_rsa ev) n n'"
proof -
  have "frame n' = frame n \<and> auths n' = auths n \<and> no_stakes n' = no_stakes n \<and> no_sync n' = no_sync n \<and>
    no_known n' = no_known n \<and> progress (ev_rsa ev) n n'"
  proof (cases "\<exists>i items. dict_get payload ''block'' = PDict (i # items)")
    case True
    then obtain i items where block: "dict_get payload ''block'' = PDict (i # items)" by blast
    obtain bc r where add: "add_block (ev_rsa ev) (PDict (i # items)) True (Some (no_stakes n)) (no_bc n) = (bc, r)" by fastforce
    with assms block have n': "n' = (if r = Inr True then schedule_persist (n\<lparr>no_bc := bc\<rparr>) else n\<lparr>no_bc := bc\<rparr>)"
      by (auto simp: on_new_block_def split: sum.splits bool.splits)
    have "progress (ev_rsa ev) n n'"
    proof (cases "r = Inr True")
      case True
      with n' add_block_good [OF add] show ?thesis by (simp add: progress_schedule)
    next
      case False
      with n' add_block_returned [OF _ add] chain_good_consensus [of "ev_rsa ev" n] show ?thesis
        by (auto simp: progress_def settles_def)
    qed
    with n' show ?thesis by simp
  next
    case False
    with assms have "n' = n" by (auto simp: on_new_block_def split: pyval.splits list.splits)
    then show ?thesis by simp
  qed
  then show "frame n' = frame n" "auths n' = auths n" "no_stakes n' = no_stakes n" "no_sync n' = no_sync n"
    "no_known n' = no_known n" "progress (ev_rsa ev) n n'" by blast+
qed

text \<open>The effect of a message, whatever it is.\<close>

lemma handle_message_effect:
  assumes "handle_message ev p t payload n = (n', out)"
  shows "frame n' = frame n" "no_stakes n' = no_stakes n" "took_batch n p n'"
    "progress (ev_rsa ev) n n'"
    "auths n' = auths n \<or> (auths n' = (auths n)(p := Some True) \<and> t = HELLO \<and> accepted_hello ev n payload)"
proof -
  have same: "took_batch n p m" if "no_sync m = no_sync n" for m using that by (simp add: took_batch_def)
  show "frame n' = frame n" "no_stakes n' = no_stakes n" "took_batch n p n'"
    "auths n' = auths n \<or> (auths n' = (auths n)(p := Some True) \<and> t = HELLO \<and> accepted_hello ev n payload)"
    using assms same on_hello_effect [of ev p payload n n' out] on_peers_effect [of ev payload n n' out]
      on_chain_response_effect [of ev p payload n n' out] on_new_block_effect [of ev payload n n' out]
    by (cases t; auto simp: handle_message_def)+
  show "progress (ev_rsa ev) n n'"
    using assms on_hello_effect [of ev p payload n n' out] on_peers_effect [of ev payload n n' out]
      on_chain_response_effect [of ev p payload n n' out] on_new_block_effect [of ev payload n n' out]
      progress_cong [of n' n "ev_rsa ev"]
    by (cases t; auto simp: handle_message_def)+
qed

section \<open>Sessions\<close>

text \<open>
  A session stays within its limits, and the blocks it holds follow one another: their indices
  count up to the one expected next, and each names the hash of the one before.
\<close>

definition session_ok :: "network_settings \<Rightarrow> session \<Rightarrow> bool" where
  "session_ok nw s \<longleftrightarrow>
     int (length (ss_blocks s)) \<le> nw_chain_sync_max_blocks nw \<and> ss_bytes s \<le> nw_chain_sync_max_bytes nw \<and>
     (ss_blocks s = [] \<or> (\<exists>tip. batch_tip (ss_expected s - int (length (ss_blocks s))) tip (ss_blocks s) = Some (ss_prev s)))"

definition sessions_ok :: "node \<Rightarrow> bool" where
  "sessions_ok n \<longleftrightarrow> (\<forall>p s. map_of (no_sync n) p = Some s \<longrightarrow> session_ok (network n) s)"

lemma batch_tip_join:
  "batch_tip i tip xs = Some mid \<Longrightarrow> batch_tip (i + int (length xs)) mid ys = Some h \<Longrightarrow>
   batch_tip i tip (xs @ ys) = Some h"
proof (induction xs arbitrary: i tip)
  case (Cons x xs)
  from Cons.prems(1) obtain t where t: "batch_block i tip x = Some t" "batch_tip (i + 1) t xs = Some mid"
    by (auto split: option.splits)
  then show ?case using Cons.IH [OF t(2)] Cons.prems(2) by (simp add: add.assoc)
qed simp

lemma accept_batch_ok:
  assumes "session_ok nw s" "accept_chain_batch nw s payload = Some s'"
  shows "session_ok nw s'"
proof -
  from assms(2) obtain blocks tip where b: "batch_tip (ss_expected s) (ss_prev s) blocks = Some tip"
    "int (length (ss_blocks s)) + int (length blocks) \<le> nw_chain_sync_max_blocks nw"
    "ss_bytes s + batch_bytes blocks \<le> nw_chain_sync_max_bytes nw"
    "s' = s\<lparr>ss_blocks := ss_blocks s @ blocks, ss_expected := ss_expected s + int (length blocks),
            ss_prev := tip, ss_bytes := ss_bytes s + batch_bytes blocks\<rparr>"
    by (auto simp: accept_chain_batch_def Let_def not_less split: pyval.splits option.splits if_splits bool.splits)
  show ?thesis
  proof (cases "ss_blocks s = []")
    case True
    with b show ?thesis by (auto simp: session_ok_def)
  next
    case False
    with assms(1) obtain tip0 where
      "batch_tip (ss_expected s - int (length (ss_blocks s))) tip0 (ss_blocks s) = Some (ss_prev s)"
      by (auto simp: session_ok_def)
    then have "batch_tip (ss_expected s - int (length (ss_blocks s))) tip0 (ss_blocks s @ blocks) = Some tip"
      by (rule batch_tip_join) (use b(1) in simp)
    with b show ?thesis by (auto simp: session_ok_def)
  qed
qed

lemma take_batch_ok:
  assumes "0 \<le> nw_chain_sync_max_blocks nw" "session_ok nw s" "take_batch nw s payload = (s', answer)"
  shows "session_ok nw s'"
proof (cases "ss_done s")
  case False
  have done_ok: "session_ok nw (r\<lparr>ss_done := True\<rparr>) = session_ok nw r" for r by (simp add: session_ok_def)
  have "session_ok nw (s\<lparr>ss_blocks := [], ss_done := True\<rparr>)"
    using assms(1,2) by (simp add: session_ok_def)
  with False done_ok assms(3) accept_batch_ok [OF assms(2), of payload] show ?thesis
    by (auto simp: take_batch_def split: option.splits if_splits)
qed (use assms in \<open>simp add: take_batch_def\<close>)

text \<open>New sessions: limits that are not negative leave room for nothing.\<close>

lemma new_session_ok:
  assumes "0 \<le> nw_chain_sync_max_blocks nw" "0 \<le> nw_chain_sync_max_bytes nw" "new_session ch = Inr s"
  shows "session_ok nw s"
  using assms by (auto simp: new_session_def Let_def bindE_eq_Inr session_ok_def split: if_splits)

end
