(* ===== verification/Node_System.thy ===== *)
theory Node_System
  imports Node_Facts Transitions
begin

text \<open>
  The node at work: its state and the tasks of its event loop, as a step relation.  A handler runs
  up to the point where it waits; then it is a task, and the connection whose listen loop waits
  for it takes no further message.  A step takes no time, and a send does not suspend.
\<close>

section \<open>Tasks\<close>

text \<open>
  Waiting for the session of a peer, with the peers to ask next; for a connection to a URL, with
  the URLs to dial next; for the authentication of a dialled connection; and a listen loop that
  is past its last message.  The owner is the connection whose listen loop waits, if any.
\<close>

datatype task =
    WaitSync "string option" string "string list"
  | Dialling "string option" string "string list"
  | Handshake "string option" string string "string list"
  | Closing string

fun task_owner :: "task \<Rightarrow> string option" where
  "task_owner (WaitSync owner p ps) = owner"
| "task_owner (Dialling owner url urls) = owner"
| "task_owner (Handshake owner url p urls) = owner"
| "task_owner (Closing p) = Some p"

type_synonym system = "node \<times> task list"

text \<open>An exception leaves the task: a listen loop closes its connection, other callers see it.\<close>

definition raised :: "string option \<Rightarrow> node \<Rightarrow> system" where
  "raised owner n =
     (case owner of
        None \<Rightarrow> (n, [])
      | Some p \<Rightarrow> (n\<lparr>no_p2p := close_conn p (no_p2p n)\<rparr>, [Closing p]))"

definition continue_sync :: "string option \<Rightarrow> string list \<Rightarrow> node \<Rightarrow> system" where
  "continue_sync owner ps n =
     (case begin_sync ps n of
        (n', SyncDone) \<Rightarrow> (n', [])
      | (n', SyncWaits p rest) \<Rightarrow> (n', [WaitSync owner p rest])
      | (n', SyncRaises e) \<Rightarrow> raised owner n')"

text \<open>The loops that dial: the first URL for which \<open>connect_peer\<close> has to wait.\<close>

fun dial_next :: "env \<Rightarrow> string option \<Rightarrow> string list \<Rightarrow> node \<Rightarrow> system" where
  "dial_next ev owner [] n = (n, [])"
| "dial_next ev owner (url # urls) n =
     (if \<not> may_dial ev url n then dial_next ev owner urls n
      else if may_connect url (no_p2p (begin_dial url n))
      then (begin_dial url n, [Dialling owner url urls])
      else case dial_failed ev url (begin_dial url n) of
          (n', Inl e) \<Rightarrow> raised owner n'
        | (n', Inr _) \<Rightarrow> dial_next ev owner urls n')"

definition dial_over :: "env \<Rightarrow> string option \<Rightarrow> string list \<Rightarrow> node \<times> unit res \<Rightarrow> system" where
  "dial_over ev owner urls r =
     (case r of (n, Inl e) \<Rightarrow> raised owner n | (n, Inr _) \<Rightarrow> dial_next ev owner urls n)"

definition after_handler :: "env \<Rightarrow> string \<Rightarrow> node \<times> outcome \<Rightarrow> system" where
  "after_handler ev p r =
     (case r of
        (n, Done) \<Rightarrow> (n, [])
      | (n, SyncWith ps) \<Rightarrow> continue_sync (Some p) ps n
      | (n, DialAll urls) \<Rightarrow> dial_next ev (Some p) urls n
      | (n, Raise e) \<Rightarrow> raised (Some p) n)"

section \<open>Messages, connections\<close>

text \<open>A text arrives on a connection: an iteration of its listen loop.\<close>

definition gate_of :: "env \<Rightarrow> string \<Rightarrow> string \<Rightarrow> node \<Rightarrow> node \<times> gate" where
  "gate_of ev p raw n =
     (case map_of (sv_conns (no_p2p n)) p of
        None \<Rightarrow> (n, Stop)
      | Some c \<Rightarrow>
          (case listen_gate (ev_clock ev) raw (sv_msg_limiter (no_p2p n)) c of
             (lm, c', g) \<Rightarrow> (n\<lparr>no_p2p := set_conn p c' ((no_p2p n)\<lparr>sv_msg_limiter := lm\<rparr>)\<rparr>, g)))"

definition receive :: "env \<Rightarrow> string \<Rightarrow> string \<Rightarrow> node \<Rightarrow> system" where
  "receive ev p raw n =
     (case gate_of ev p raw n of
        (n', Skip) \<Rightarrow> (n', [])
      | (n', Stop) \<Rightarrow> (n', [Closing p])
      | (n', Escape e) \<Rightarrow> raised (Some p) n'
      | (n', Handle t payload) \<Rightarrow> after_handler ev p (handle_message ev p t payload n'))"

text \<open>A session ends, by its last batch or by the time limit; then the next peer is asked.\<close>

definition sync_over :: "rsa_library \<Rightarrow> string option \<Rightarrow> string \<Rightarrow> string list \<Rightarrow> node \<Rightarrow> system" where
  "sync_over L owner p rest n =
     (case finish_request L p n of
        (n', Inl e) \<Rightarrow> raised owner n'
      | (n', Inr _) \<Rightarrow> continue_sync owner rest n')"

text \<open>A connection to a URL is up, at the address that was resolved and checked just before.\<close>

definition dial_up ::
    "env \<Rightarrow> string option \<Rightarrow> string \<Rightarrow> string \<Rightarrow> string \<Rightarrow> string list \<Rightarrow> node \<Rightarrow> system" where
  "dial_up ev owner url p host urls n =
     (case enter_peer p url (open_connection p host (no_p2p n)) of
        (sv, None) \<Rightarrow> dial_over ev owner urls (dial_failed ev url (n\<lparr>no_p2p := sv\<rparr>))
      | (sv, Some _) \<Rightarrow>
          (case dialled ev url p (n\<lparr>no_p2p := sv\<rparr>) of
             (n', Inl e) \<Rightarrow> raised owner n'
           | (n', Inr _) \<Rightarrow>
               if pa_enabled (nw_peer_auth (network n')) then (n', [Handshake owner url p urls])
               else dial_over ev owner urls (handshake_over ev url p True n')))"

definition handshake_done :: "string \<Rightarrow> node \<Rightarrow> bool" where
  "handshake_done p n =
     (case find_peer (no_p2p n) p of None \<Rightarrow> False | Some c \<Rightarrow> \<not> pr_closed c \<and> pr_authenticated c)"

definition fresh_id :: "string \<Rightarrow> node \<Rightarrow> bool" where
  "fresh_id p n \<longleftrightarrow> map_of (sv_conns (no_p2p n)) p = None \<and> p \<notin> set (sv_peers (no_p2p n))"

section \<open>Steps\<close>

datatype event =
    Received env string string
  | SyncDoneBy string
  | SyncExpired string
  | Accepted env string string
  | HandshakeExpired string
  | Lost env string
  | DialUp env string string connect_target
  | DialDown env string
  | HandshakeOver env string
  | OwnBlock env pyval pyval
  | OwnSync
  | OwnDial env "string list"
  | PingRound env
  | Announced env

inductive sys_step :: "rsa_library \<Rightarrow> system \<Rightarrow> event \<Rightarrow> system \<Rightarrow> bool" for L where
  received:
    "ev_rsa ev = L \<Longrightarrow> map_of (sv_conns (no_p2p n)) p \<noteq> None \<Longrightarrow> Some p \<notin> task_owner ` set ts \<Longrightarrow>
     receive ev p raw n = (n', us) \<Longrightarrow>
     sys_step L (n, ts) (Received ev p raw) (n', ts @ us)"
| sync_done:
    "map_of (no_sync n) p = Some s \<Longrightarrow> ss_done s \<Longrightarrow> sync_over L owner p rest n = (n', us) \<Longrightarrow>
     sys_step L (n, xs @ WaitSync owner p rest # ys) (SyncDoneBy p) (n', xs @ ys @ us)"
| sync_expired:
    "map_of (no_sync n) p = Some s \<Longrightarrow> \<not> ss_done s \<Longrightarrow>
     continue_sync owner rest (expire_request p n) = (n', us) \<Longrightarrow>
     sys_step L (n, xs @ WaitSync owner p rest # ys) (SyncExpired p) (n', xs @ ys @ us)"
| accepted:
    "fresh_id p n \<Longrightarrow> accept_connection (ev_clock ev) client_ip p (no_p2p n) = (sv, r) \<Longrightarrow>
     sys_step L (n, ts) (Accepted ev p client_ip) (n\<lparr>no_p2p := sv\<rparr>, ts)"
| handshake_expired:
    "p \<in> set (sv_peers (no_p2p n)) \<Longrightarrow> map_of (sv_urls (no_p2p n)) p = None \<Longrightarrow>
     map_of (sv_conns (no_p2p n)) p = Some c \<Longrightarrow> \<not> pr_authenticated c \<Longrightarrow>
     sys_step L (n, ts) (HandshakeExpired p) (n\<lparr>no_p2p := close_conn p (no_p2p n)\<rparr>, ts)"
| lost:
    "map_of (sv_conns (no_p2p n)) p \<noteq> None \<Longrightarrow> \<forall>t\<in>set ts. task_owner t = Some p \<longrightarrow> t = Closing p \<Longrightarrow>
     connection_lost ev p n = (n', r) \<Longrightarrow>
     sys_step L (n, ts) (Lost ev p) (n', removeAll (Closing p) ts)"
| dial_succeeds:
    "ev_rsa ev = L \<Longrightarrow> fresh_id p n \<Longrightarrow>
     resolve_peer_connect_target (ev_gai ev) url (network n) (nd_environment (ap_node (no_settings n))) = Some target \<Longrightarrow>
     dial_up ev owner url p (ct_host target) urls n = (n', us) \<Longrightarrow>
     sys_step L (n, xs @ Dialling owner url urls # ys) (DialUp ev url p target) (n', xs @ ys @ us)"
| dial_fails:
    "dial_over ev owner urls (dial_failed ev url n) = (n', us) \<Longrightarrow>
     sys_step L (n, xs @ Dialling owner url urls # ys) (DialDown ev url) (n', xs @ ys @ us)"
| handshake_ends:
    "dial_over ev owner urls (handshake_over ev url p (handshake_done p n) n) = (n', us) \<Longrightarrow>
     sys_step L (n, xs @ Handshake owner url p urls # ys) (HandshakeOver ev p) (n', xs @ ys @ us)"
| own_block:
    "ev_rsa ev = L \<Longrightarrow> node_add_block ev i out n = (n', r) \<Longrightarrow>
     sys_step L (n, ts) (OwnBlock ev i out) (n', ts)"
| own_sync:
    "continue_sync None (sv_peers (no_p2p n)) n = (n', us) \<Longrightarrow>
     sys_step L (n, ts) OwnSync (n', ts @ us)"
| own_dial:
    "dial_next ev None urls n = (n', us) \<Longrightarrow>
     sys_step L (n, ts) (OwnDial ev urls) (n', ts @ us)"
| ping:
    "sys_step L (n, ts) (PingRound ev) (ping_round ev n, ts)"
| announce:
    "ev_rsa ev = L \<Longrightarrow> announce_hello ev n = Inr n' \<Longrightarrow>
     sys_step L (n, ts) (Announced ev) (n', ts)"

inductive_cases sys_stepE: "sys_step L s e t"
inductive_cases receivedE: "sys_step L s (Received ev p raw) t"

end
