(* ===== verification/Node_Runs.thy ===== *)
theory Node_Runs
  imports Node_System
begin

text \<open>
  What every run of a node keeps: the chain verifies, sessions stay within their limits, the dict
  of peers within its size, and nothing but HELLO is handled before a HELLO was accepted.
\<close>

section \<open>Effects of the composed operations\<close>

definition tame :: "rsa_library \<Rightarrow> node \<Rightarrow> node \<Rightarrow> bool" where
  "tame L n n' \<longleftrightarrow> frame n' = frame n \<and> auths n' = auths n \<and> progress L n n'"

text \<open>A session nothing was received for yet.\<close>

definition untouched :: "session \<Rightarrow> bool" where
  "untouched s \<longleftrightarrow> ss_blocks s = [] \<and> ss_bytes s = 0 \<and> \<not> ss_done s"

text \<open>Outside \<open>P\<close>, sessions stay as they are, or are opened where there was none.\<close>

definition sessions_move :: "string set \<Rightarrow> node \<Rightarrow> node \<Rightarrow> bool" where
  "sessions_move P n n' \<longleftrightarrow>
     (\<forall>q. q \<notin> P \<longrightarrow> map_of (no_sync n') q = map_of (no_sync n) q \<or>
        (map_of (no_sync n) q = None \<and> (\<exists>s. map_of (no_sync n') q = Some s \<and> untouched s)))"

lemma tame_refl [simp]: "tame L n n"
  by (simp add: tame_def)

lemma tame_trans: "tame L a b \<Longrightarrow> tame L b c \<Longrightarrow> tame L a c"
  using progress_trans by (auto simp: tame_def)

lemma sessions_move_refl [simp]: "sessions_move P n n"
  by (simp add: sessions_move_def)

lemma sessions_move_trans:
  "sessions_move P a b \<Longrightarrow> sessions_move Q b c \<Longrightarrow> sessions_move (P \<union> Q) a c"
  unfolding sessions_move_def by (metis UnI1 UnI2)

lemma sessions_move_same: "no_sync n' = no_sync n \<Longrightarrow> sessions_move P n n'"
  by (simp add: sessions_move_def)

text \<open>Operations that touch neither the chain, nor the request to save it, nor the sessions.\<close>

definition quiet :: "node \<Rightarrow> node \<Rightarrow> bool" where
  "quiet n n' \<longleftrightarrow>
     frame n' = frame n \<and> auths n' = auths n \<and> no_bc n' = no_bc n \<and> no_sync n' = no_sync n \<and>
     no_persist_pending n' = no_persist_pending n"

lemma quiet_refl [simp]: "quiet n n"
  by (simp add: quiet_def)

lemma quiet_trans: "quiet a b \<Longrightarrow> quiet b c \<Longrightarrow> quiet a c"
  by (simp add: quiet_def)

lemma frame_parts: "frame n' = frame n \<Longrightarrow> core n' = core n \<and> no_settings n' = no_settings n \<and>
    no_stakes n' = no_stakes n \<and> sv_peers (no_p2p n') = sv_peers (no_p2p n) \<and> sv_settings (no_p2p n') = sv_settings (no_p2p n) \<and> requires n' = requires n"
  by (simp add: frame_def core_def)

lemma quiet_tame: "quiet n n' \<Longrightarrow> tame L n n'"
  using progress_cong [of n' n L] by (simp add: quiet_def tame_def)

lemma quiet_move: "quiet n n' \<Longrightarrow> sessions_move P n n'"
  by (simp add: quiet_def sessions_move_same)

lemma quiet_close_conn: "quiet n (n\<lparr>no_p2p := close_conn p (no_p2p n)\<rparr>)"
  by (auto simp: quiet_def frame_def core_def requires_def [abs_def] auths_def [abs_def] close_conn_conn fun_eq_iff option.map_comp comp_def)

lemma quiet_node_send: "quiet n (node_send p t payload n)"
  by (simp add: quiet_def)

lemma quiet_node_close: "quiet n (node_close p n)"
  by (simp add: quiet_def)

lemma quiet_raised: "raised owner n = (n', us) \<Longrightarrow> quiet n n'"
  using quiet_close_conn by (auto simp: raised_def split: option.splits)

lemma quiet_begin_dial: "quiet n (begin_dial url n)"
  by (simp add: quiet_def begin_dial_def)

lemma quiet_end_dial: "quiet n (end_dial url n)"
  by (simp add: quiet_def end_dial_def)

lemma quiet_node_failure: "node_failure ev url n = (n', r) \<Longrightarrow> quiet n n'"
  by (auto simp: quiet_def node_failure_def split: prod.splits)

lemma quiet_dial_failed: "dial_failed ev url n = (n', r) \<Longrightarrow> quiet n n'"
  by (auto simp: dial_failed_def split: prod.splits intro: quiet_trans quiet_node_failure quiet_end_dial)

lemma quiet_dial_next: "dial_next ev owner urls n = (n', us) \<Longrightarrow> quiet n n'"
proof (induction urls arbitrary: n)
  case (Cons url urls)
  show ?case
  proof (cases "may_dial ev url n \<and> \<not> may_connect url (no_p2p (begin_dial url n))")
    case True
    obtain m r where m: "dial_failed ev url (begin_dial url n) = (m, r)" by fastforce
    have "quiet n m" using quiet_trans [OF quiet_begin_dial quiet_dial_failed [OF m]] .
    moreover have "quiet m n'"
      using Cons True m by (cases r) (auto dest: quiet_raised)
    ultimately show ?thesis by (rule quiet_trans)
  qed (use Cons quiet_begin_dial in \<open>auto split: if_splits\<close>)
qed simp

lemma quiet_dial_over: "dial_over ev owner urls (m, r) = (n', us) \<Longrightarrow> quiet m n'"
  by (cases r) (auto simp: dial_over_def dest: quiet_raised quiet_dial_next)

lemma quiet_dialled: "dialled ev url p n = (n', r) \<Longrightarrow> quiet n n'"
  by (auto simp: dialled_def Let_def quiet_def end_dial_def dest!: send_hello_only split: sum.splits)

lemma quiet_share_peers: "quiet n (share_peers p n)"
  by (simp add: share_peers_def Let_def quiet_node_send)

lemma quiet_handshake_over:
  assumes "handshake_over ev url p b n = (n', r)"
  shows "quiet n n'"
proof (cases "pa_enabled (nw_peer_auth (network n)) \<and> \<not> b")
  case True
  let ?n0 = "n\<lparr>no_urls := AList.delete p (no_urls n), no_active := removeAll url (no_active n)\<rparr>"
  obtain m q where m: "node_failure ev url ?n0 = (m, q)" by fastforce
  have "quiet n ?n0" by (simp add: quiet_def)
  then have "quiet n m" using quiet_node_failure [OF m] by (rule quiet_trans)
  moreover have "quiet m n'"
    using assms True m by (cases q) (auto simp: handshake_over_def intro: quiet_trans quiet_node_close quiet_end_dial)
  ultimately show ?thesis by (rule quiet_trans)
next
  case False
  with assms show ?thesis
    by (auto simp: handshake_over_def intro: quiet_trans quiet_share_peers quiet_end_dial)
qed

lemma quiet_ping: "quiet n (ping_round ev n)"
proof -
  have one: "pr_require_auth (ping_one t now c) = pr_require_auth c \<and> pr_authenticated (ping_one t now c) = pr_authenticated c"
    for t now c by (auto simp: ping_one_def Let_def close_peer_def split: option.splits)
  let ?f = "\<lambda>p sv. case find_peer sv p of None \<Rightarrow> sv
      | Some c \<Rightarrow> set_conn p (ping_one (nw_pong_timeout (network n)) (ev_clock ev) c) sv"
  have "sv_settings (fold ?f ps sv) = sv_settings sv \<and> sv_peers (fold ?f ps sv) = sv_peers sv \<and>
      (\<forall>q. map_option pr_require_auth (map_of (sv_conns (fold ?f ps sv)) q) = map_option pr_require_auth (map_of (sv_conns sv) q) \<and>
        map_option pr_authenticated (map_of (sv_conns (fold ?f ps sv)) q) = map_option pr_authenticated (map_of (sv_conns sv) q))"
    for ps sv
  proof (induction ps arbitrary: sv)
    case (Cons p ps)
    have "?f p sv = sv \<or> (\<exists>c. find_peer sv p = Some c \<and> ?f p sv = set_conn p (ping_one (nw_pong_timeout (network n)) (ev_clock ev) c) sv)"
      by (cases "find_peer sv p") auto
    then show ?case
    proof
      assume "\<exists>c. find_peer sv p = Some c \<and> ?f p sv = set_conn p (ping_one (nw_pong_timeout (network n)) (ev_clock ev) c) sv"
      then obtain c where c: "find_peer sv p = Some c"
        "?f p sv = set_conn p (ping_one (nw_pong_timeout (network n)) (ev_clock ev) c) sv" by blast
      show ?thesis using Cons.IH [of "?f p sv"] find_peer_conn [OF c(1)] c(2) one by auto
    qed (use Cons.IH in simp)
  qed simp
  then show ?thesis
    by (auto simp: quiet_def ping_round_def Let_def frame_def core_def requires_def [abs_def] auths_def [abs_def] fun_eq_iff)
qed

lemma quiet_announce: "announce_hello ev n = Inr n' \<Longrightarrow> quiet n n'"
  by (auto simp: announce_hello_def bindE_eq_Inr quiet_def frame_def core_def requires_def [abs_def] auths_def [abs_def])

text \<open>The gate of the listen loop.\<close>

lemma quiet_gate: "gate_of ev p raw n = (n', g) \<Longrightarrow> quiet n n'"
  using listen_gate_peer
  by (auto simp: gate_of_def quiet_def frame_def core_def requires_def [abs_def] auths_def [abs_def] fun_eq_iff
      split: option.splits prod.splits)

section \<open>Effects of the synchronisation\<close>

text \<open>Tasks that were added wait for a session that was opened for them.\<close>

definition opens :: "node \<Rightarrow> node \<Rightarrow> task list \<Rightarrow> bool" where
  "opens n n' us \<longleftrightarrow> length us \<le> 1 \<and>
     (\<forall>owner q rest. WaitSync owner q rest \<in> set us \<longrightarrow>
        map_of (no_sync n) q = None \<and> (\<exists>s. map_of (no_sync n') q = Some s \<and> untouched s))"

lemma opens_quiet: "quiet m n \<Longrightarrow> opens n n' us \<Longrightarrow> opens m n' us"
  by (simp add: opens_def quiet_def)

lemma opens_none: "\<forall>t\<in>set us. \<forall>owner q rest. t \<noteq> WaitSync owner q rest \<Longrightarrow> length us \<le> 1 \<Longrightarrow> opens n n' us"
  by (auto simp: opens_def)

lemma request_chain_effect:
  assumes "request_chain p n = (n', r)" "map_of (no_sync n) p = None"
  shows "tame L n n'" "\<exists>s. no_sync n' = AList.update p s (no_sync n) \<and> untouched s"
proof -
  have new: "untouched s" if "new_session ch = Inr s" for ch s
    using that by (auto simp: new_session_def Let_def bindE_eq_Inr untouched_def split: if_splits)
  have "frame n' = frame n \<and> auths n' = auths n \<and> no_bc n' = no_bc n \<and> no_persist_pending n' = no_persist_pending n"
    using assms(1) by (auto simp: request_chain_def Let_def split: sum.splits)
  then show "tame L n n'" using progress_cong [of n' n L] by (simp add: tame_def)
  show "\<exists>s. no_sync n' = AList.update p s (no_sync n) \<and> untouched s"
    using assms new by (auto simp: request_chain_def Let_def untouched_def split: sum.splits)
qed

lemma begin_sync_effect:
  "begin_sync ps n = (n', r) \<Longrightarrow>
   tame L n n' \<and> sessions_move {} n n' \<and>
   (\<forall>q rest. r = SyncWaits q rest \<longrightarrow> map_of (no_sync n) q = None \<and> (\<exists>s. map_of (no_sync n') q = Some s \<and> untouched s))"
proof (induction ps arbitrary: n)
  case (Cons p ps)
  show ?case
  proof (cases "map_of (no_sync n) p")
    case None
    obtain m x where m: "request_chain p n = (m, x)" by fastforce
    with Cons.prems None have "n' = m" "r = (case x of Inl e \<Rightarrow> SyncRaises e | Inr _ \<Rightarrow> SyncWaits p ps)"
      by (auto split: sum.splits)
    moreover from request_chain_effect [OF m None] obtain s where
      "no_sync m = AList.update p s (no_sync n)" "untouched s" by blast
    ultimately show ?thesis
      using request_chain_effect(1) [OF m None] None
      by (auto simp: sessions_move_def update_conv' split: sum.splits)
  qed (use Cons in auto)
qed simp

lemma continue_sync_effect:
  assumes "continue_sync owner ps n = (n', us)"
  shows "tame L n n'" "sessions_move {} n n'" "opens n n' us"
proof -
  obtain m r where m: "begin_sync ps n = (m, r)" by fastforce
  note eff = begin_sync_effect [OF m, of L]
  have "tame L n n' \<and> sessions_move {} n n' \<and> opens n n' us"
  proof (cases r)
    case (SyncRaises e)
    with assms m have raised: "raised owner m = (n', us)" by (simp add: continue_sync_def)
    then have "quiet m n'" by (rule quiet_raised)
    moreover have "opens n n' us"
      using raised by (intro opens_none) (auto simp: raised_def split: option.splits)
    ultimately show ?thesis
      using eff quiet_tame quiet_move tame_trans sessions_move_trans [of "{}" n m "{}" n'] by fastforce
  qed (use assms m eff in \<open>auto simp: continue_sync_def opens_def\<close>)
  then show "tame L n n'" "sessions_move {} n n'" "opens n n' us" by blast+
qed

lemma raised_opens: "raised owner m = (n', us) \<Longrightarrow> opens n n' us"
  by (intro opens_none) (auto simp: raised_def split: option.splits)

lemma dial_next_opens: "dial_next ev owner urls m = (n', us) \<Longrightarrow> opens n n' us"
proof (induction urls arbitrary: m)
  case (Cons url urls)
  then show ?case
    by (auto split: if_splits prod.splits sum.splits dest: raised_opens intro: opens_none)
qed (simp add: opens_def)

lemma dial_over_opens: "dial_over ev owner urls x = (n', us) \<Longrightarrow> opens n n' us"
  by (auto simp: dial_over_def split: prod.splits sum.splits dest: raised_opens dial_next_opens)

lemma drop_session_move: "sessions_move {p} n (drop_session p n)"
  by (simp add: sessions_move_def drop_session_def delete_conv')

lemma sync_over_effect:
  assumes "sync_over L owner p rest n = (n', us)" "map_of (no_sync n) p = Some s"
  shows "tame L n n'" "sessions_move {} (drop_session p n) n'" "opens (drop_session p n) n' us"
proof -
  obtain m r where m: "finish_request L p n = (m, r)" by fastforce
  obtain k x where k: "(if ss_blocks s = [] then (n, Inr ()) else node_resolve_fork L (ss_blocks s) n) = (k, x)" by fastforce
  with m assms(2) have mk: "m = drop_session p k" by (auto simp: finish_request_def split: if_splits)
  have nk: "tame L n k \<and> no_sync k = no_sync n"
    using k node_resolve_fork_effect [of L "ss_blocks s" n k x] by (auto simp: tame_def split: if_splits)
  then have "tame L k m" unfolding mk tame_def using progress_cong [of "drop_session p k" k L]
    by (simp add: drop_session_def)
  with nk have nm: "tame L n m" using tame_trans by blast
  have sm: "no_sync m = no_sync (drop_session p n)"
    using nk by (simp add: mk drop_session_def)
  have "tame L m n' \<and> sessions_move {} m n' \<and> opens m n' us"
  proof (cases r)
    case (Inl e)
    with assms(1) m have "raised owner m = (n', us)" by (simp add: sync_over_def)
    then show ?thesis using quiet_raised quiet_tame quiet_move raised_opens by blast
  next
    case (Inr y)
    with assms(1) m have "continue_sync owner rest m = (n', us)" by (simp add: sync_over_def)
    from continue_sync_effect [OF this] show ?thesis by blast
  qed
  with nm sm show "tame L n n'" "sessions_move {} (drop_session p n) n'" "opens (drop_session p n) n' us"
    using tame_trans by (auto simp: opens_def sessions_move_def)
qed

lemma expire_effect:
  assumes "continue_sync owner rest (expire_request p n) = (n', us)"
  shows "tame L n n'" "sessions_move {} (drop_session p n) n'" "opens (drop_session p n) n' us"
proof -
  have "tame L n (drop_session p n)"
    unfolding tame_def using progress_cong [of "drop_session p n" n L] by (simp add: drop_session_def)
  with continue_sync_effect(1) [OF assms, of L] continue_sync_effect(2,3) [OF assms]
  show "tame L n n'" "sessions_move {} (drop_session p n) n'" "opens (drop_session p n) n' us"
    using tame_trans by (auto simp: expire_request_def)
qed

section \<open>The effect of a text that arrives\<close>

lemma accepted_hello_cong:
  "no_bc n' = no_bc n \<Longrightarrow> no_settings n' = no_settings n \<Longrightarrow> accepted_hello ev n' payload = accepted_hello ev n payload"
  by (simp add: accepted_hello_def same_network_def)

lemma gate_decodes:
  "gate_of ev p raw n = (m, Handle t payload) \<Longrightarrow> decode_message raw = Inr (t, payload)"
  using listen_gate_Handle by (auto simp: gate_of_def split: option.splits prod.splits)

text \<open>What becomes of the session of the connection the text arrives on.\<close>

definition session_of_sender :: "string \<Rightarrow> node \<Rightarrow> node \<Rightarrow> bool" where
  "session_of_sender p n n' \<longleftrightarrow>
     (case map_of (no_sync n) p of
        None \<Rightarrow> \<forall>s. map_of (no_sync n') p = Some s \<longrightarrow> untouched s
      | Some s \<Rightarrow> (\<exists>s'. map_of (no_sync n') p = Some s' \<and>
          (s' = s \<or> (\<exists>payload answer. take_batch (network n) s payload = (s', answer)))))"

lemma took_batch_sessions:
  assumes "took_batch n p m" "sessions_move {} m n'"
  shows "sessions_move {p} n n'" "session_of_sender p n n'"
    "map_of (no_sync m) q = None \<longleftrightarrow> map_of (no_sync n) q = None"
proof -
  from assms(1) show "map_of (no_sync m) q = None \<longleftrightarrow> map_of (no_sync n) q = None"
    by (auto simp: took_batch_def update_conv' split: if_splits)
  from assms(1) have "sessions_move {p} n m" by (auto simp: took_batch_def sessions_move_def update_conv')
  from sessions_move_trans [OF this assms(2)] show "sessions_move {p} n n'" by simp
  show "session_of_sender p n n'"
  proof (cases "map_of (no_sync n) p")
    case None
    with assms(1) have "map_of (no_sync m) p = None" by (auto simp: took_batch_def)
    with assms(2) have "map_of (no_sync n') p = None \<or> (\<exists>s. map_of (no_sync n') p = Some s \<and> untouched s)"
      unfolding sessions_move_def by (metis empty_iff)
    with None show ?thesis by (auto simp: session_of_sender_def)
  next
    case (Some s)
    with assms(1) have "\<exists>s'. map_of (no_sync m) p = Some s' \<and>
        (s' = s \<or> (\<exists>payload answer. take_batch (network n) s payload = (s', answer)))"
      unfolding took_batch_def by (elim disjE exE conjE) (auto simp: update_conv')
    then obtain s' where s': "map_of (no_sync m) p = Some s'"
      "s' = s \<or> (\<exists>payload answer. take_batch (network n) s payload = (s', answer))" by blast
    then have "map_of (no_sync n') p = Some s'" using assms(2) by (simp add: sessions_move_def) (metis option.distinct(1))
    with s'(2) Some show ?thesis by (simp add: session_of_sender_def)
  qed
qed

lemma handled_effect:
  assumes "after_handler ev p (handle_message ev p t payload n) = (n', us)"
  shows "frame n' = frame n" "progress (ev_rsa ev) n n'"
    "auths n' = auths n \<or> (auths n' = (auths n)(p := Some True) \<and> t = HELLO \<and> accepted_hello ev n payload)"
    "sessions_move {p} n n'" "session_of_sender p n n'" "opens n n' us"
proof -
  obtain m out where m: "handle_message ev p t payload n = (m, out)" by fastforce
  note eff = handle_message_effect [OF m]
  have after: "tame (ev_rsa ev) m n' \<and> sessions_move {} m n' \<and> opens m n' us"
  proof (cases out)
    case Done
    with assms m show ?thesis by (auto simp: after_handler_def opens_def)
  next
    case (SyncWith ps)
    with assms m have "continue_sync (Some p) ps m = (n', us)" by (simp add: after_handler_def)
    from continue_sync_effect [OF this] show ?thesis by blast
  next
    case (DialAll urls)
    with assms m have "dial_next ev (Some p) urls m = (n', us)" by (simp add: after_handler_def)
    then show ?thesis using quiet_dial_next quiet_tame quiet_move dial_next_opens by blast
  next
    case (Raise e)
    with assms m have "raised (Some p) m = (n', us)" by (simp add: after_handler_def)
    then show ?thesis using quiet_raised quiet_tame quiet_move raised_opens by blast
  qed
  from after eff progress_trans [of "ev_rsa ev" n m n'] show "frame n' = frame n" "progress (ev_rsa ev) n n'"
    "auths n' = auths n \<or> (auths n' = (auths n)(p := Some True) \<and> t = HELLO \<and> accepted_hello ev n payload)"
    by (simp_all add: tame_def)
  note moves = took_batch_sessions [OF eff(3) conjunct1 [OF conjunct2 [OF after]]]
  show "sessions_move {p} n n'" "session_of_sender p n n'" by (fact moves(1,2))+
  show "opens n n' us" using after moves(3) by (simp add: opens_def)
qed

lemma receive_effect:
  assumes "receive ev p raw n = (n', us)"
  shows "frame n' = frame n" "progress (ev_rsa ev) n n'"
    "auths n' = auths n \<or> (auths n' = (auths n)(p := Some True) \<and>
       (\<exists>payload. decode_message raw = Inr (HELLO, payload) \<and> accepted_hello ev n payload))"
    "sessions_move {p} n n'" "session_of_sender p n n'" "opens n n' us"
proof -
  obtain m g where m: "gate_of ev p raw n = (m, g)" by fastforce
  have qm: "quiet n m" using m by (rule quiet_gate)
  have "frame n' = frame n \<and> progress (ev_rsa ev) n n' \<and>
      (auths n' = auths n \<or> (auths n' = (auths n)(p := Some True) \<and>
         (\<exists>payload. decode_message raw = Inr (HELLO, payload) \<and> accepted_hello ev n payload))) \<and>
      sessions_move {p} n n' \<and> session_of_sender p n n' \<and> opens n n' us"
  proof (cases "\<exists>t payload. g = Handle t payload")
    case True
    then obtain t payload where g: "g = Handle t payload" by blast
    with assms m have h: "after_handler ev p (handle_message ev p t payload m) = (n', us)"
      by (simp add: receive_def)
    have same: "no_sync m = no_sync n" "network m = network n" "frame m = frame n" "auths m = auths n"
        "accepted_hello ev m payload = accepted_hello ev n payload"
      using qm frame_parts [of m n] accepted_hello_cong [of m n] by (simp_all add: quiet_def)
    have "progress L n m" for L using qm quiet_tame by (auto simp: tame_def)
    then have forth: "progress (ev_rsa ev) m n' \<Longrightarrow> progress (ev_rsa ev) n n'" using progress_trans by blast
    have cong: "sessions_move {p} m n' = sessions_move {p} n n'" "opens m n' us = opens n n' us"
        "session_of_sender p m n' = session_of_sender p n n'"
      by (simp_all add: sessions_move_def opens_def session_of_sender_def same(1,2) split: option.split)
    show ?thesis
      using handled_effect [OF h] gate_decodes [OF m [unfolded g]] forth unfolding cong same(3-5) by blast
  next
    case False
    then have "quiet m n' \<and> opens n n' us"
      using assms m by (cases g) (auto simp: receive_def dest: quiet_raised raised_opens intro: opens_none)
    then have "quiet n n'" "opens n n' us" using qm quiet_trans by blast+
    moreover from \<open>quiet n n'\<close> have "session_of_sender p n n'"
      by (auto simp: session_of_sender_def quiet_def split: option.split)
    ultimately show ?thesis using quiet_tame [of n n' "ev_rsa ev"] quiet_move by (simp add: tame_def)
  qed
  then show "frame n' = frame n" "progress (ev_rsa ev) n n'"
    "auths n' = auths n \<or> (auths n' = (auths n)(p := Some True) \<and>
       (\<exists>payload. decode_message raw = Inr (HELLO, payload) \<and> accepted_hello ev n payload))"
    "sessions_move {p} n n'" "session_of_sender p n n'" "opens n n' us" by blast+
qed

section \<open>Connections that come and go\<close>

text \<open>A connection is added, unauthenticated where authentication is required; one is removed.\<close>

definition admits :: "string \<Rightarrow> node \<Rightarrow> node \<Rightarrow> bool" where
  "admits p n n' \<longleftrightarrow>
     (let required = pa_enabled (nw_peer_auth (sv_settings (no_p2p n))) in
      core n' = core n \<and> no_settings n' = no_settings n \<and> no_bc n' = no_bc n \<and> no_sync n' = no_sync n \<and>
      no_persist_pending n' = no_persist_pending n \<and>
      sv_settings (no_p2p n') = sv_settings (no_p2p n) \<and>
      requires n' = (requires n)(p := Some required) \<and> auths n' = (auths n)(p := Some (\<not> required)) \<and>
      (sv_peers (no_p2p n') = sv_peers (no_p2p n) \<or>
       (\<not> full (no_p2p n) \<and> sv_peers (no_p2p n') = sv_peers (no_p2p n) @ [p])))"

definition drops :: "string \<Rightarrow> node \<Rightarrow> node \<Rightarrow> bool" where
  "drops p n n' \<longleftrightarrow>
     core n' = core n \<and> no_settings n' = no_settings n \<and> no_bc n' = no_bc n \<and> no_sync n' = no_sync n \<and>
     no_persist_pending n' = no_persist_pending n \<and>
     sv_settings (no_p2p n') = sv_settings (no_p2p n) \<and>
     requires n' = (requires n)(p := None) \<and> auths n' = (auths n)(p := None) \<and>
     sv_peers (no_p2p n') = removeAll p (sv_peers (no_p2p n))"

lemma admits_quiet: "admits p n m \<Longrightarrow> quiet m n' \<Longrightarrow> admits p n n'"
  using frame_parts [of n' m] by (auto simp: admits_def quiet_def Let_def)

lemma drops_quiet: "drops p n m \<Longrightarrow> quiet m n' \<Longrightarrow> drops p n n'"
  using frame_parts [of n' m] by (auto simp: drops_def quiet_def)

lemma new_connection:
  "pr_require_auth (connection_for sv key) = pa_enabled (nw_peer_auth (sv_settings sv))"
  "pr_authenticated (connection_for sv key) = (\<not> pa_enabled (nw_peer_auth (sv_settings sv)))"
  by (simp_all add: connection_for_def new_peer_def)

lemma accept_effect:
  assumes "accept_connection now ip p (no_p2p n) = (sv, r)"
  shows "quiet n (n\<lparr>no_p2p := sv\<rparr>) \<or> admits p n (n\<lparr>no_p2p := sv\<rparr>)"
  using assms
  by (auto simp: accept_connection_def Let_def quiet_def admits_def frame_def core_def requires_def [abs_def] auths_def [abs_def]
      new_connection full_def fun_eq_iff split: sum.splits prod.splits if_splits)

lemma enter_effect:
  assumes "enter_peer p url (open_connection p host (no_p2p n)) = (sv, r)"
  shows "admits p n (n\<lparr>no_p2p := sv\<rparr>)"
  using assms
  by (auto simp: enter_peer_def open_connection_def Let_def admits_def core_def requires_def [abs_def] auths_def [abs_def]
      new_connection full_def fun_eq_iff split: if_splits)

lemma dial_up_effect:
  assumes "dial_up ev owner url p host urls n = (n', us)"
  shows "admits p n n'" "opens k n' us"
proof -
  obtain sv r where sv: "enter_peer p url (open_connection p host (no_p2p n)) = (sv, r)" by fastforce
  let ?m = "n\<lparr>no_p2p := sv\<rparr>"
  have "quiet ?m n' \<and> opens k n' us"
  proof (cases r)
    case None
    obtain m x where m: "dial_failed ev url ?m = (m, x)" by fastforce
    with assms sv None have "dial_over ev owner urls (m, x) = (n', us)" by (simp add: dial_up_def)
    with m show ?thesis by (meson quiet_dial_failed quiet_dial_over quiet_trans dial_over_opens)
  next
    case (Some q)
    obtain m x where m: "dialled ev url p ?m = (m, x)" by fastforce
    have "quiet ?m m" using m by (rule quiet_dialled)
    moreover have "quiet m n' \<and> opens k n' us"
    proof (cases "\<exists>y. x = Inr y \<and> \<not> pa_enabled (nw_peer_auth (network m))")
      case True
      obtain m2 x2 where m2: "handshake_over ev url p True m = (m2, x2)" by fastforce
      with assms sv Some m True have "dial_over ev owner urls (m2, x2) = (n', us)" by (auto simp: dial_up_def)
      with m2 show ?thesis by (meson quiet_handshake_over quiet_dial_over quiet_trans dial_over_opens)
    next
      case False
      with assms sv Some m show ?thesis
        by (cases x) (auto simp: dial_up_def dest: quiet_raised raised_opens intro: opens_none)
    qed
    ultimately show ?thesis using quiet_trans by blast
  qed
  with enter_effect [OF sv] show "admits p n n'" "opens k n' us" using admits_quiet by blast+
qed

lemma lost_effect:
  assumes "connection_lost ev p n = (n', r)"
  shows "drops p n n'"
proof -
  let ?m = "n\<lparr>no_p2p := drop_peer p (no_p2p n)\<rparr>"
  have "drops p n ?m"
    by (auto simp: drops_def drop_peer_def core_def requires_def [abs_def] auths_def [abs_def] delete_conv' fun_eq_iff)
  moreover have "quiet ?m n'"
    using assms unfolding connection_lost_def on_disconnected_def Let_def
    by (auto simp: quiet_def split: option.splits list.splits if_splits dest!: quiet_node_failure)
  ultimately show ?thesis by (rule drops_quiet)
qed

lemma own_block_effect:
  assumes "node_add_block ev i out n = (n', r)"
  shows "frame n' = frame n" "auths n' = auths n" "no_sync n' = no_sync n"
    "ready (ev_rsa ev) (no_bc n) (Some (no_stakes n)) (ev_utc ev) \<Longrightarrow> progress (ev_rsa ev) n n'"
proof -
  obtain bc x where bc: "add_new_block (ev_rsa ev) (ev_random ev) (ev_utc ev) i out (no_bc n) = (bc, x)" by fastforce
  have n': "frame n' = frame n \<and> auths n' = auths n \<and> no_sync n' = no_sync n \<and> no_bc n' = bc \<and>
      no_persist_pending n' = (no_persist_pending n \<or> (\<exists>b. x = Inr b))"
    using assms bc
    by (auto simp: node_add_block_def Let_def schedule_persist_def frame_def core_def requires_def [abs_def] auths_def [abs_def]
        split: sum.splits)
  then show "frame n' = frame n" "auths n' = auths n" "no_sync n' = no_sync n" by blast+
  show "progress (ev_rsa ev) n n'"
    if now: "ready (ev_rsa ev) (no_bc n) (Some (no_stakes n)) (ev_utc ev)"
  proof (cases "chain_good (ev_rsa ev) n")
    case True
    have "(\<exists>b. x = Inr b) \<or> bc = no_bc n"
      using add_new_block_returned [OF _ now bc] True by (auto simp: chain_good_def)
    with n' have "settles n n'" by (auto simp: settles_def)
    with add_new_block_good [OF bc True now] n' chain_good_cong [of n' "n\<lparr>no_bc := bc\<rparr>"] show ?thesis
      by (simp add: progress_def)
  qed (simp add: progress_def)
qed

section \<open>The kinds of steps\<close>

definition waits :: "task list \<Rightarrow> task list" where
  "waits ts = filter (\<lambda>t. case t of WaitSync _ _ _ \<Rightarrow> True | _ \<Rightarrow> False) ts"

lemma waits_simps [simp]:
  "waits [] = []" "waits (xs @ ys) = waits xs @ waits ys"
  "waits (WaitSync owner p rest # ts) = WaitSync owner p rest # waits ts"
  "waits (Dialling owner url urls # ts) = waits ts" "waits (Handshake owner url p urls # ts) = waits ts"
  "waits (removeAll (Closing p) ts) = waits ts"
  by (simp_all add: waits_def) (induction ts; auto)

text \<open>
  A step is a text that arrives, a wait for a session that ends, a block of one's own, a connection
  that comes or goes, or something that leaves chain and connections alone.
\<close>

lemma step_kinds:
  assumes "sys_step L (n, ts) e (n', ts')"
  obtains
    (arrival) ev p raw us where "e = Received ev p raw" "ev_rsa ev = L" "Some p \<notin> task_owner ` set ts"
      "receive ev p raw n = (n', us)" "ts' = ts @ us"
  | (wait) owner p rest xs ys us s where "ts = xs @ WaitSync owner p rest # ys" "ts' = xs @ ys @ us"
      "map_of (no_sync n) p = Some s" "e = SyncExpired p \<or> (e = SyncDoneBy p \<and> ss_done s)"
      "tame L n n'" "sessions_move {} (drop_session p n) n'" "opens (drop_session p n) n' us"
  | (block) ev i out r where "e = OwnBlock ev i out" "ev_rsa ev = L" "node_add_block ev i out n = (n', r)" "ts' = ts"
  | (connection) p us where "fresh_id p n \<and> admits p n n' \<or> drops p n n'"
      "waits ts' = waits ts @ waits us" "opens n n' us"
  | (other) us where "tame L n n'" "sessions_move {} n n'" "waits ts' = waits ts @ waits us" "opens n n' us"
  using assms
proof (cases rule: sys_step.cases)
  case (received ev p raw us)
  then show ?thesis using arrival by blast
next
  case (sync_done p s owner rest us xs ys)
  then have o: "sync_over L owner p rest n = (n', us)" "map_of (no_sync n) p = Some s" by simp_all
  show ?thesis by (rule wait [OF _ _ o(2) _ sync_over_effect [OF o]]) (use sync_done in simp_all)
next
  case (sync_expired p s owner rest us xs ys)
  then have o: "continue_sync owner rest (expire_request p n) = (n', us)" by simp
  show ?thesis by (rule wait [OF _ _ _ _ expire_effect [OF o]]) (use sync_expired in simp_all)
next
  case (accepted p ev client_ip sv r)
  have "opens n n' []" by (simp add: opens_def)
  then show ?thesis
    using accepted accept_effect [of "ev_clock ev" client_ip p n sv r] connection [of p "[]"] other [of "[]"]
      quiet_tame quiet_move by auto
next
  case (handshake_expired p c)
  have "opens n n' []" by (simp add: opens_def)
  then show ?thesis
    using handshake_expired other [of "[]"] quiet_close_conn [of n p] quiet_tame quiet_move by auto
next
  case (lost p ev r)
  have "opens n n' []" by (simp add: opens_def)
  then show ?thesis using lost connection [of p "[]"] lost_effect by auto
next
  case (dial_succeeds ev p url target owner urls us xs ys)
  then show ?thesis using connection [of p us] dial_up_effect [of ev owner url p "ct_host target" urls n n' us] by auto
next
  case (dial_fails ev owner urls url us xs ys)
  then have "quiet n n'" by (metis surj_pair quiet_dial_failed quiet_dial_over quiet_trans)
  with dial_fails show ?thesis using other [of us] quiet_tame quiet_move dial_over_opens by auto
next
  case (handshake_ends ev owner urls url p us xs ys)
  then have "quiet n n'" by (metis surj_pair quiet_handshake_over quiet_dial_over quiet_trans)
  with handshake_ends show ?thesis using other [of us] quiet_tame quiet_move dial_over_opens by auto
next
  case (own_block ev i out r)
  then show ?thesis using block by blast
next
  case (own_sync us)
  then show ?thesis using other [of us] continue_sync_effect by auto
next
  case (own_dial ev urls us)
  then show ?thesis using other [of us] quiet_dial_next quiet_tame quiet_move dial_next_opens by auto
next
  case (ping ev)
  have "opens n n' []" by (simp add: opens_def)
  then show ?thesis using ping other [of "[]"] quiet_ping [of n ev] quiet_tame quiet_move by auto
next
  case (announce ev)
  have "opens n n' []" by (simp add: opens_def)
  then show ?thesis using announce other [of "[]"] quiet_announce quiet_tame quiet_move by auto
qed

section \<open>One step\<close>

text \<open>What a step does to the connections and to the parts that never change.\<close>

definition accepts_hello :: "rsa_library \<Rightarrow> string \<Rightarrow> node \<Rightarrow> event \<Rightarrow> bool" where
  "accepts_hello L p n e \<longleftrightarrow>
     (\<exists>ev raw hello. e = Received ev p raw \<and> ev_rsa ev = L \<and> decode_message raw = Inr (HELLO, hello) \<and>
        accepted_hello ev n hello)"

lemma step_connections:
  assumes "sys_step L (n, ts) e (n', ts')"
  shows "(\<exists>p. fresh_id p n \<and> admits p n n' \<or> drops p n n') \<or>
    (frame n' = frame n \<and>
     (auths n' = auths n \<or> (\<exists>p. auths n' = (auths n)(p := Some True) \<and> accepts_hello L p n e)))"
  using assms
proof (cases rule: step_kinds)
  case (arrival ev p raw us)
  with receive_effect(1,3) [OF arrival(4)] show ?thesis unfolding accepts_hello_def by blast
next
  case (block ev i out r)
  then show ?thesis using own_block_effect(1,2) by blast
qed (auto simp: tame_def)

text \<open>What a step does to the chain.\<close>

definition ready_event :: "node \<Rightarrow> event \<Rightarrow> bool" where
  "ready_event n e \<longleftrightarrow>
     (case e of OwnBlock ev i out \<Rightarrow> ready (ev_rsa ev) (no_bc n) (Some (no_stakes n)) (ev_utc ev) | _ \<Rightarrow> True)"

lemma step_progress:
  assumes "sys_step L (n, ts) e (n', ts')" "ready_event n e"
  shows "progress L n n'"
  using assms(1)
proof (cases rule: step_kinds)
  case (arrival ev p raw us)
  with receive_effect(2) [OF arrival(4)] show ?thesis by simp
next
  case (block ev i out r)
  with own_block_effect(4) [OF block(3)] assms(2) show ?thesis by (simp add: ready_event_def)
next
  case (connection p us)
  then show ?thesis by (auto simp: admits_def drops_def Let_def intro: progress_core)
qed (auto simp: tame_def)

lemma step_chain_good:
  assumes "sys_step L (n, ts) e (n', ts')" "ready_event n e" "chain_good L n"
  shows "chain_good L n'"
  using step_progress [OF assms(1,2)] assms(3) by (simp add: progress_def)

text \<open>What a step does to the sessions.\<close>

abbreviation sync_limits :: "node \<Rightarrow> bool" where
  "sync_limits n \<equiv> 0 \<le> nw_chain_sync_max_blocks (network n) \<and> 0 \<le> nw_chain_sync_max_bytes (network n)"

lemma untouched_ok: "sync_limits n \<Longrightarrow> untouched s \<Longrightarrow> session_ok (network n) s"
  by (simp add: untouched_def session_ok_def)

lemma sessions_ok_move:
  assumes "sessions_move P n n'" "network n' = network n" "sync_limits n" "sessions_ok n"
    and "\<And>p s. p \<in> P \<Longrightarrow> map_of (no_sync n') p = Some s \<Longrightarrow> session_ok (network n) s"
  shows "sessions_ok n'"
  unfolding sessions_ok_def
proof (intro allI impI)
  fix q s assume s: "map_of (no_sync n') q = Some s"
  show "session_ok (network n') s"
  proof (cases "q \<in> P")
    case False
    with assms(1) s have "map_of (no_sync n) q = Some s \<or> untouched s"
      unfolding sessions_move_def by (metis option.inject)
    with assms(2,3,4) show ?thesis using untouched_ok by (auto simp: sessions_ok_def)
  qed (use assms(2,5) s in simp)
qed

lemma sender_ok:
  assumes "session_of_sender p n n'" "sync_limits n" "sessions_ok n" "map_of (no_sync n') p = Some s'"
  shows "session_ok (network n) s'"
proof (cases "map_of (no_sync n) p")
  case None
  with assms have "untouched s'" by (simp add: session_of_sender_def)
  with assms(2) show ?thesis by (rule untouched_ok)
next
  case (Some s)
  with assms(3) have ok: "session_ok (network n) s" by (simp add: sessions_ok_def)
  from Some assms(1,4) have "s' = s \<or> (\<exists>payload answer. take_batch (network n) s payload = (s', answer))"
    by (simp add: session_of_sender_def)
  with ok assms(2) take_batch_ok show ?thesis by blast
qed

lemma step_settings: "sys_step L (n, ts) e (n', ts') \<Longrightarrow> no_settings n' = no_settings n"
  by (drule step_connections) (auto simp: admits_def drops_def Let_def dest: frame_parts)

lemma step_sessions_ok:
  assumes "sys_step L (n, ts) e (n', ts')" "sync_limits n" "sessions_ok n"
  shows "sessions_ok n'"
proof -
  have nw: "network n' = network n" using step_settings [OF assms(1)] by simp
  note move = sessions_ok_move [OF _ nw assms(2,3)]
  show ?thesis
    using assms(1)
  proof (cases rule: step_kinds)
    case (arrival ev p raw us)
    show ?thesis
      using move [OF receive_effect(4) [OF arrival(4)]] sender_ok [OF receive_effect(5) [OF arrival(4)] assms(2,3)] by blast
  next
    case (wait owner p rest xs ys us s)
    have "sessions_ok (drop_session p n)" "no_settings (drop_session p n) = no_settings n"
      using assms(3) by (auto simp: sessions_ok_def drop_session_def delete_conv')
    with sessions_ok_move [OF wait(6)] nw assms(2) show ?thesis by simp
  next
    case (block ev i out r)
    with own_block_effect(3) [OF block(3)] assms(3) nw show ?thesis by (simp add: sessions_ok_def)
  next
    case (connection p us)
    with assms(3) show ?thesis by (auto simp: admits_def drops_def sessions_ok_def Let_def)
  next
    case (other us)
    with move [OF other(2)] show ?thesis by simp
  qed
qed

end
