(* ===== verification/Node_Behaviour.thy ===== *)
theory Node_Behaviour
  imports Node_Runs
begin

text \<open>
  Properties of every run of a node: its chain verifies, its state is well-formed, other messages
  than HELLO are handled after a HELLO only, and a synchronisation that a HELLO starts can end in
  one way only.
\<close>

section \<open>A node that starts\<close>

text \<open>No connections yet, nothing to save, and the server has the settings of the node.\<close>

definition idle :: "node \<Rightarrow> bool" where
  "idle n \<longleftrightarrow>
     sv_conns (no_p2p n) = [] \<and> sv_peers (no_p2p n) = [] \<and> sv_settings (no_p2p n) = network n \<and> no_sync n = [] \<and>
     \<not> no_persist_pending n"

lemma restored:
  assumes "restore_chain L s n = Inr n'"
  shows "n' = n \<or> (\<exists>bc. replace_chain L (pe_chain s) (Some (no_stakes n)) (no_bc n) = (bc, Inr True) \<and> n' = n\<lparr>no_bc := bc\<rparr>)"
  using assms by (auto simp: restore_chain_def bindE_eq_Inr split: if_splits prod.splits sum.splits bool.splits)

lemma restored_good:
  assumes "restore_chain L s n = Inr n'" "chain_good L n"
  shows "chain_good L n'"
proof -
  have st: "verified_state L (Some (no_stakes n)) (no_bc n)" using assms(2) by (simp add: chain_good_def)
  from restored [OF assms(1)] show ?thesis
    using assms(2) chain_good_update [OF assms(2)] replace_chain_verified [OF st] replace_chain_rules by blast
qed

lemma consensus_configured:
  assumes "create_consensus L cs prev node_id sm gs = Inr co" "gs \<noteq> None"
  shows "verified_state L gs (new_blockchain sig (Some co) prev)"
  using assms
  by (auto simp: create_consensus_def bindE_eq_Inr verified_state_def configured_def verify_chain_def new_blockchain_def
      split: consensus_kind.splits)

text \<open>The node before its chain is restored.\<close>

definition fresh_node ::
    "app_settings \<Rightarrow> string \<Rightarrow> stakes \<Rightarrow> signature_manager \<Rightarrow> bool \<Rightarrow> signature_manager \<Rightarrow> bool \<Rightarrow>
     consensus_obj \<Rightarrow> string \<Rightarrow> node" where
  "fresh_node st node_id stakes manager vext identity iext co url =
     \<lparr>no_settings = st, no_id = node_id, no_stakes = stakes, no_manager = manager, no_validator_external = vext,
      no_identity = identity, no_identity_external = iext,
      no_bc = new_blockchain (cs_type (ap_consensus st) = Pos) (Some co) (ap_genesis_prev_hash st),
      no_persist_pending = False, no_sync = [], no_active = [], no_connecting = [], no_urls = [],
      no_reconnect = new_reconnect (nw_reconnect (ap_network st)),
      no_p2p = new_server (ap_network st) (nd_environment (ap_node st)) url, no_known = []\<rparr>"

lemma create_node_Inr:
  "create_node ev st uuid url given vpem ipem p = Inr n \<longleftrightarrow>
     (\<exists>manager identity co.
        (if cs_type (ap_consensus st) = Pos
         then choose_manager (ev_rsa ev) (ev_random ev) vpem (nd_require_external_keys (ap_node st))
                (case p of Some s \<Rightarrow> pe_private_key s | None \<Rightarrow> None)
         else Inr new_manager) = Inr manager \<and>
        choose_manager (ev_rsa ev) (ev_random ev) ipem (nd_require_external_keys (ap_node st))
          (case p of Some s \<Rightarrow> pe_p2p_identity s | None \<Rightarrow> None) = Inr identity \<and>
        create_consensus (ev_rsa ev) (ap_consensus st) (ap_genesis_prev_hash st)
          (if cs_type (ap_consensus st) = Pos then Some (node_identity st uuid p) else None) (Some manager)
          (Some (node_stakes given p)) = Inr co \<and>
        (case p of
           Some s \<Rightarrow> restore_chain (ev_rsa ev) s (fresh_node st (node_identity st uuid p) (node_stakes given p) manager
             (vpem \<noteq> None) identity (ipem \<noteq> None) co url)
         | None \<Rightarrow> Inr (fresh_node st (node_identity st uuid p) (node_stakes given p) manager
             (vpem \<noteq> None) identity (ipem \<noteq> None) co url)) = Inr n)"
  unfolding create_node_def Let_def bindE_eq_Inr fresh_node_def by blast

lemma fresh_node_good:
  assumes "create_consensus L (ap_consensus st) (ap_genesis_prev_hash st)
      (if cs_type (ap_consensus st) = Pos then Some node_id else None) (Some manager) (Some stakes) = Inr co"
  shows "chain_good L (fresh_node st node_id stakes manager vext identity iext co url)"
    "idle (fresh_node st node_id stakes manager vext identity iext co url)"
proof -
  let ?n = "fresh_node st node_id stakes manager vext identity iext co url"
  have "first_consensus L ?n = Inr co" 
    using assms by (cases "cs_type (ap_consensus st) = Pos") (simp_all add: first_consensus_def fresh_node_def)
  moreover have "verified_state L (Some stakes) (no_bc ?n)" "bc_consensus (no_bc ?n) = Some co"
    "bc_genesis_prev_hash (no_bc ?n) = ap_genesis_prev_hash st" "no_stakes ?n = stakes" "no_settings ?n = st"
    using consensus_configured [OF assms] by (simp_all add: fresh_node_def) (simp_all add: new_blockchain_def)
  ultimately show "chain_good L ?n" using same_rules_refl by (auto simp: chain_good_def)
  show "idle ?n" by (simp add: fresh_node_def idle_def new_server_def)
qed

lemma created_core:
  assumes "create_node ev st uuid url given vpem ipem p = Inr n"
  shows "\<exists>manager identity co. core n = core (fresh_node st (node_identity st uuid p) (node_stakes given p) manager
      (vpem \<noteq> None) identity (ipem \<noteq> None) co url) \<and>
    (if cs_type (ap_consensus st) = Pos
     then choose_manager (ev_rsa ev) (ev_random ev) vpem (nd_require_external_keys (ap_node st))
            (case p of Some s \<Rightarrow> pe_private_key s | None \<Rightarrow> None)
     else Inr new_manager) = Inr manager \<and>
    choose_manager (ev_rsa ev) (ev_random ev) ipem (nd_require_external_keys (ap_node st))
      (case p of Some s \<Rightarrow> pe_p2p_identity s | None \<Rightarrow> None) = Inr identity"
proof -
  have same: "core n' = core m" if "restore_chain L s m = Inr n'" for L s m and n' :: node
    using restored [OF that] by (auto simp: core_def)
  from assms show ?thesis unfolding create_node_Inr
    by (elim exE conjE, intro exI conjI) (auto dest: same split: option.splits)
qed

lemma created:
  assumes "create_node ev st uuid url given vpem ipem p = Inr n"
  shows "chain_good (ev_rsa ev) n" "idle n" "no_settings n = st"
proof -
  from assms obtain manager identity co where
    co: "create_consensus (ev_rsa ev) (ap_consensus st) (ap_genesis_prev_hash st)
      (if cs_type (ap_consensus st) = Pos then Some (node_identity st uuid p) else None) (Some manager)
      (Some (node_stakes given p)) = Inr co"
    and n: "(case p of
           Some s \<Rightarrow> restore_chain (ev_rsa ev) s (fresh_node st (node_identity st uuid p) (node_stakes given p) manager
             (vpem \<noteq> None) identity (ipem \<noteq> None) co url)
         | None \<Rightarrow> Inr (fresh_node st (node_identity st uuid p) (node_stakes given p) manager
             (vpem \<noteq> None) identity (ipem \<noteq> None) co url)) = Inr n"
    unfolding create_node_Inr by blast
  define n0 where "n0 = fresh_node st (node_identity st uuid p) (node_stakes given p) manager
             (vpem \<noteq> None) identity (ipem \<noteq> None) co url"
  have n0: "chain_good (ev_rsa ev) n0" "idle n0" "no_settings n0 = st"
    unfolding n0_def by (rule fresh_node_good [OF co])+ (simp add: fresh_node_def)
  from n have "n = n0 \<or> (\<exists>s bc. restore_chain (ev_rsa ev) s n0 = Inr n \<and> n = n0\<lparr>no_bc := bc\<rparr>)"
    unfolding n0_def [symmetric] using restored by (cases p) (simp, simp, blast)
  with n0 show "chain_good (ev_rsa ev) n" "idle n" "no_settings n = st"
    using restored_good by (auto simp: idle_def)
qed

section \<open>Invariants\<close>

text \<open>What an own block needs is demanded of every step at which the node makes one.\<close>

definition ready_step :: "rsa_library \<Rightarrow> system \<Rightarrow> event \<Rightarrow> system \<Rightarrow> bool" where
  "ready_step L s e s' \<longleftrightarrow> sys_step L s e s' \<and> ready_event (fst s) e"

interpretation chain_inv: inductive_invariant "ready_step L" "\<lambda>s. chain_good L (fst s)" for L
  by unfold_locales (auto simp: ready_step_def intro: step_chain_good)

text \<open>The dict of peers has no more entries than allowed, each for a connection of its own.\<close>

definition peers_ok :: "node \<Rightarrow> bool" where
  "peers_ok n \<longleftrightarrow>
     distinct (sv_peers (no_p2p n)) \<and> (\<forall>p\<in>set (sv_peers (no_p2p n)). requires n p \<noteq> None) \<and>
     int (length (sv_peers (no_p2p n))) \<le> max 0 (nw_max_peers (network n))"

text \<open>Every connection asks for authentication as the settings of the node say.\<close>

definition server_ok :: "node \<Rightarrow> bool" where
  "server_ok n \<longleftrightarrow>
     sv_settings (no_p2p n) = network n \<and>
     (\<forall>p b. requires n p = Some b \<longrightarrow> b = pa_enabled (nw_peer_auth (network n)))"

definition node_ok :: "node \<Rightarrow> bool" where
  "node_ok n \<longleftrightarrow> server_ok n \<and> peers_ok n \<and> sync_limits n \<and> sessions_ok n"

lemma length_removeAll_le: "length (removeAll x xs) \<le> length xs"
  by (simp add: removeAll_filter_not_eq)

lemma admits_ok: "fresh_id p n \<Longrightarrow> admits p n n' \<Longrightarrow> server_ok n \<and> peers_ok n \<Longrightarrow> server_ok n' \<and> peers_ok n'"
  by (auto simp: admits_def server_ok_def peers_ok_def fresh_id_def full_def Let_def split: if_splits)

lemma drops_ok:
  assumes "drops p n n'" "server_ok n \<and> peers_ok n"
  shows "server_ok n' \<and> peers_ok n'"
proof -
  have "int (length (removeAll p (sv_peers (no_p2p n)))) \<le> int (length (sv_peers (no_p2p n)))"
    by (simp add: length_removeAll_le)
  also have "\<dots> \<le> max 0 (nw_max_peers (network n))" using assms(2) by (simp add: peers_ok_def)
  finally have "int (length (removeAll p (sv_peers (no_p2p n)))) \<le> max 0 (nw_max_peers (network n))" .
  with assms show ?thesis by (simp add: drops_def server_ok_def peers_ok_def distinct_removeAll)
qed

lemma frame_ok: "frame n' = frame n \<Longrightarrow> server_ok n \<and> peers_ok n \<Longrightarrow> server_ok n' \<and> peers_ok n'"
  by (drule frame_parts) (simp add: server_ok_def peers_ok_def)

lemma step_server_ok:
  "sys_step L (n, ts) e (n', ts') \<Longrightarrow> server_ok n \<and> peers_ok n \<Longrightarrow> server_ok n' \<and> peers_ok n'"
  using admits_ok drops_ok frame_ok by (meson step_connections)

lemma step_node_ok: "sys_step L (n, ts) e (n', ts') \<Longrightarrow> node_ok n \<Longrightarrow> node_ok n'"
  unfolding node_ok_def
  using step_server_ok [of L n ts e n' ts'] step_sessions_ok [of L n ts e n' ts'] step_settings [of L n ts e n' ts'] by simp

interpretation node_inv: inductive_invariant "sys_step L" "\<lambda>s. node_ok (fst s)" for L
  by unfold_locales (auto intro: step_node_ok)

lemma idle_ok: "idle n \<Longrightarrow> sync_limits n \<Longrightarrow> node_ok n"
  by (simp add: idle_def node_ok_def server_ok_def peers_ok_def sessions_ok_def requires_def)

text \<open>
  Tasks and sessions: the sessions waited for are different ones, all open, and the one that a
  listen loop waits for on its own connection is not complete.
\<close>

definition asked :: "task list \<Rightarrow> string list" where
  "asked ts = map (\<lambda>t. case t of WaitSync owner p rest \<Rightarrow> p | _ \<Rightarrow> []) (waits ts)"

definition waits_ok :: "node \<Rightarrow> task list \<Rightarrow> bool" where
  "waits_ok n ts \<longleftrightarrow>
     distinct (asked ts) \<and>
     (\<forall>owner p rest. WaitSync owner p rest \<in> set ts \<longrightarrow>
        (\<exists>s. map_of (no_sync n) p = Some s \<and> (owner = Some p \<longrightarrow> \<not> ss_done s)))"

lemma in_waits: "WaitSync owner p rest \<in> set ts \<longleftrightarrow> WaitSync owner p rest \<in> set (waits ts)"
  by (simp add: waits_def)

lemma waits_only: "t \<in> set (waits ts) \<Longrightarrow> \<exists>owner p rest. t = WaitSync owner p rest"
  by (cases t) (auto simp: waits_def)

lemma in_asked: "p \<in> set (asked ts) \<longleftrightarrow> (\<exists>owner rest. WaitSync owner p rest \<in> set ts)"
proof
  assume "p \<in> set (asked ts)"
  then obtain t where t: "t \<in> set (waits ts)" "p = (case t of WaitSync owner p rest \<Rightarrow> p | _ \<Rightarrow> [])"
    by (auto simp: asked_def)
  from waits_only [OF t(1)] obtain owner q rest where "t = WaitSync owner q rest" by blast
  with t show "\<exists>owner rest. WaitSync owner p rest \<in> set ts" using in_waits by fastforce
next
  assume "\<exists>owner rest. WaitSync owner p rest \<in> set ts"
  then obtain owner rest where "WaitSync owner p rest \<in> set (waits ts)" using in_waits by blast
  then show "p \<in> set (asked ts)" unfolding asked_def by force
qed

lemma asked_simps [simp]:
  "asked (xs @ ys) = asked xs @ asked ys" "asked (WaitSync owner p rest # ts) = p # asked ts"
  by (simp_all add: asked_def)

lemma opens_asked:
  assumes "opens n n' us"
  shows "distinct (asked us)" "p \<in> set (asked us) \<Longrightarrow> map_of (no_sync n) p = None"
proof -
  have "length (asked us) \<le> 1"
    using assms le_trans [OF length_filter_le [of _ us]] by (simp add: opens_def asked_def waits_def)
  then show "distinct (asked us)" by (cases "asked us") auto
  show "p \<in> set (asked us) \<Longrightarrow> map_of (no_sync n) p = None"
    using assms by (auto simp: in_asked opens_def)
qed

lemma waits_ok_move:
  assumes "waits_ok n ts" "sessions_move P n n'" "opens n n' us" "waits ts' = waits ts @ waits us"
    and "\<And>owner p rest. WaitSync owner p rest \<in> set ts \<Longrightarrow> p \<in> P \<Longrightarrow>
      \<exists>s. map_of (no_sync n') p = Some s \<and> (owner = Some p \<longrightarrow> \<not> ss_done s)"
  shows "waits_ok n' ts'"
proof -
  have asked: "asked ts' = asked ts @ asked us" by (simp add: asked_def assms(4))
  have "map_of (no_sync n) p \<noteq> None" if "p \<in> set (asked ts)" for p
    using assms(1) that by (fastforce simp: waits_ok_def in_asked)
  then have apart: "set (asked ts) \<inter> set (asked us) = {}" 
    using opens_asked(2) [OF assms(3)] by (meson disjoint_iff)
  have "distinct (asked ts)" using assms(1) unfolding waits_ok_def by (rule conjunct1)
  with apart opens_asked(1) [OF assms(3)] have "distinct (asked ts')" by (simp only: asked distinct_append)
  moreover have "\<exists>s. map_of (no_sync n') p = Some s \<and> (owner = Some p \<longrightarrow> \<not> ss_done s)"
    if "WaitSync owner p rest \<in> set ts'" for owner p rest
  proof -
    from that have "WaitSync owner p rest \<in> set ts \<or> WaitSync owner p rest \<in> set us"
      using in_waits [of owner p rest] assms(4) by (metis Un_iff set_append)
    then show ?thesis
    proof
      assume t: "WaitSync owner p rest \<in> set ts"
      show ?thesis
      proof (cases "p \<in> P")
        case False
        from t assms(1) obtain s where s: "map_of (no_sync n) p = Some s" "owner = Some p \<longrightarrow> \<not> ss_done s"
          unfolding waits_ok_def by blast
        with False assms(2) have "map_of (no_sync n') p = Some s"
          unfolding sessions_move_def by (metis option.distinct(1))
        with s show ?thesis by blast
      qed (use t assms(5) in blast)
    qed (use assms(3) in \<open>unfold opens_def untouched_def, blast\<close>)
  qed
  ultimately show ?thesis by (simp add: waits_ok_def)
qed

lemma waits_ok_drop:
  assumes "waits_ok n (xs @ WaitSync owner p rest # ys)"
  shows "waits_ok (drop_session p n) (xs @ ys)"
proof -
  have "p \<notin> set (asked (xs @ ys))" using assms by (simp add: waits_ok_def)
  with assms show ?thesis
    unfolding waits_ok_def in_asked by (auto simp: drop_session_def delete_conv')
qed

lemma step_waits_ok:
  assumes "sys_step L (n, ts) e (n', ts')" "waits_ok n ts"
  shows "waits_ok n' ts'"
  using assms(1)
proof (cases rule: step_kinds)
  case (arrival ev p raw us)
  show ?thesis
  proof (rule waits_ok_move [OF assms(2) receive_effect(4,6) [OF arrival(4)]])
    fix owner q rest assume q: "WaitSync owner q rest \<in> set ts" "q \<in> {p}"
    then obtain s where "map_of (no_sync n) p = Some s" using assms(2) by (auto simp: waits_ok_def)
    then have "\<exists>s'. map_of (no_sync n') p = Some s'"
      using receive_effect(5) [OF arrival(4)] by (auto simp: session_of_sender_def)
    moreover have "owner \<noteq> Some p" using arrival(3) q(1) by force
    ultimately show "\<exists>s. map_of (no_sync n') q = Some s \<and> (owner = Some q \<longrightarrow> \<not> ss_done s)" using q(2) by simp
  qed (simp add: arrival(5))
next
  case (wait owner p rest xs ys us s)
  have "waits_ok (drop_session p n) (xs @ ys)" using assms(2) unfolding wait(1) by (rule waits_ok_drop)
  then show ?thesis by (rule waits_ok_move [OF _ wait(6,7)]) (simp_all add: wait(2))
next
  case (block ev i out r)
  show ?thesis
    using waits_ok_move [OF assms(2) sessions_move_same [OF own_block_effect(3) [OF block(3)], of "{}"], of "[]"]
    by (simp add: block(4) opens_def)
next
  case (connection p us)
  then have "no_sync n' = no_sync n" by (auto simp: admits_def drops_def Let_def)
  from waits_ok_move [OF assms(2) sessions_move_same [OF this, of "{}"] connection(3,2)] show ?thesis by simp
next
  case (other us)
  from waits_ok_move [OF assms(2) other(2,4,3)] show ?thesis by simp
qed

interpretation waits_inv: inductive_invariant "sys_step L" "\<lambda>s. waits_ok (fst s) (snd s)" for L
  by unfold_locales (auto intro: step_waits_ok)

section \<open>Greetings\<close>

text \<open>
  A connection was greeted: at some point of the run a HELLO arrived on it that the node accepted
  in the state it was in, and the connection was not lost since.
\<close>

definition greeted :: "rsa_library \<Rightarrow> node \<Rightarrow> string \<Rightarrow> event list \<Rightarrow> bool" where
  "greeted L n0 p es \<longleftrightarrow>
     (\<exists>pre ev raw hello post u us. es = pre @ Received ev p raw # post \<and> ev_rsa ev = L \<and>
        (\<forall>ev'. Lost ev' p \<notin> set post) \<and> run (sys_step L) (n0, []) pre (u, us) \<and>
        decode_message raw = Inr (HELLO, hello) \<and> accepted_hello ev u hello)"

lemma greeted_later: "greeted L n0 p es \<Longrightarrow> \<forall>ev. e \<noteq> Lost ev p \<Longrightarrow> greeted L n0 p (es @ [e])"
  unfolding greeted_def
  by (elim exE conjE, rule exI, rule exI, rule exI, rule exI, rule_tac x = "post @ [e]" in exI) auto

lemma lost_unauthenticated: "sys_step L (n, ts) (Lost ev p) (n', ts') \<Longrightarrow> auths n' p = None"
  by (cases rule: sys_step.cases, assumption) (auto simp: drops_def dest: lost_effect)

lemma authenticated_greeted:
  assumes "run (sys_step L) s es t" "s = (n0, [])" "idle n0" "pa_enabled (nw_peer_auth (network n0))"
  shows "network (fst t) = network n0 \<and> (server_ok (fst t) \<and> peers_ok (fst t)) \<and>
    (\<forall>p. auths (fst t) p = Some True \<longrightarrow> greeted L n0 p es)"
  using assms
proof (induction rule: run.induct)
  case (run_start s)
  then show ?case by (simp add: idle_def server_ok_def peers_ok_def requires_def auths_def)
next
  case (run_step s es t e u)
  obtain n ts n' ts' where tu: "t = (n, ts)" "u = (n', ts')" by (cases t, cases u)
  note step = run_step.hyps(2) [unfolded tu]
  from run_step tu have IH: "network n = network n0" "server_ok n \<and> peers_ok n" "auths n p = Some True \<Longrightarrow> greeted L n0 p es" for p
    by auto
  have "network n' = network n0" using step_settings [OF step] IH(1) by simp
  moreover have "server_ok n' \<and> peers_ok n'" using step IH(2) by (rule step_server_ok)
  moreover have "greeted L n0 p (es @ [e])" if p: "auths n' p = Some True" for p
  proof (cases "auths n p = Some True")
    case True
    have "\<forall>ev. e \<noteq> Lost ev p" using lost_unauthenticated [of L n ts _ p n' ts'] step p by auto
    then show ?thesis using greeted_later [OF IH(3) [OF True]] by blast
  next
    case False
    with p step_connections [OF step] IH(1,2) run_step.prems(3) have "accepts_hello L p n e"
      by (auto simp: admits_def drops_def server_ok_def Let_def fun_upd_def split: if_splits)
    then obtain ev raw hello where "e = Received ev p raw" "ev_rsa ev = L" "decode_message raw = Inr (HELLO, hello)"
      "accepted_hello ev n hello" unfolding accepts_hello_def by blast
    then show ?thesis
      unfolding greeted_def using run_step.hyps(1) run_step.prems(1) tu(1)
      by (intro exI [of _ es] exI [of _ ev] exI [of _ raw] exI [of _ hello] exI [of _ "[]"]) auto
  qed
  ultimately show ?case using tu by simp
qed

lemma gate_needs_authentication:
  assumes "gate_of ev p raw n = (m, Handle t payload)" "t \<noteq> HELLO" "requires n p = Some True \<or> requires n p = None"
  shows "auths n p = Some True"
  using assms
  by (auto simp: gate_of_def requires_def auths_def dest: listen_gate_Handle split: option.splits prod.splits)

section \<open>Waiting inside a listen loop\<close>

text \<open>The only session that the handling of a HELLO waits for is the one of its own connection.\<close>

lemma hello_waits:
  assumes "receive ev p raw n = (n', us)" "decode_message raw = Inr (HELLO, hello)" "WaitSync owner q rest \<in> set us"
  shows "owner = Some p \<and> q = p \<and> rest = []"
proof -
  obtain m g where m: "gate_of ev p raw n = (m, g)" by fastforce
  show ?thesis
  proof (cases "\<exists>t payload. g = Handle t payload")
    case True
    then obtain t payload where g: "g = Handle t payload" by blast
    with gate_decodes m assms(2) have "t = HELLO" "payload = hello" by fastforce+
    moreover obtain k out where k: "on_hello ev p hello m = (k, out)" by fastforce
    ultimately have after: "after_handler ev p (k, out) = (n', us)"
      using assms(1) m g by (simp add: receive_def handle_message_def)
    have "out = Done \<or> out = SyncWith [p] \<or> (\<exists>e. out = Raise e)"
      using k by (auto simp: on_hello_def admit_peer_def Let_def split: option.splits sum.splits bool.splits if_splits)
    with after assms(3) show ?thesis
      by (auto simp: after_handler_def continue_sync_def raised_def split: prod.splits sum.splits sync_outcome.splits if_splits)
  next
    case False
    with assms m show ?thesis
      by (cases g) (auto simp: receive_def raised_def split: option.splits)
  qed
qed

text \<open>A wait of a listen loop for its own connection stays until its time is up.\<close>

lemma own_wait_stays:
  assumes "sys_step L (n, ts) e (n', ts')" "waits_ok n ts" "WaitSync (Some p) p rest \<in> set ts" "e \<noteq> SyncExpired p"
  shows "WaitSync (Some p) p rest \<in> set ts'"
  using assms(1)
proof (cases rule: step_kinds)
  case (wait owner q rest' xs ys us s)
  have "WaitSync owner q rest' \<noteq> WaitSync (Some p) p rest"
  proof
    assume eq: "WaitSync owner q rest' = WaitSync (Some p) p rest"
    from assms(2,3) obtain s' where "map_of (no_sync n) p = Some s'" "\<not> ss_done s'" unfolding waits_ok_def by blast
    with eq wait(3,4) assms(4) show False by auto
  qed
  with assms(3) wait(1,2) show ?thesis by auto
next
  case (connection q us)
  then show ?thesis using assms(3) by (metis UnI1 in_waits set_append)
next
  case (other us)
  then show ?thesis using assms(3) by (metis UnI1 in_waits set_append)
qed (use assms(3) in auto)

lemma own_wait_run:
  "run (sys_step L) s es t \<Longrightarrow> waits_ok (fst s) (snd s) \<Longrightarrow> WaitSync (Some p) p rest \<in> set (snd s) \<Longrightarrow>
   SyncExpired p \<notin> set es \<Longrightarrow> WaitSync (Some p) p rest \<in> set (snd t)"
proof (induction rule: run.induct)
  case (run_step s es t e u)
  then have "waits_ok (fst t) (snd t)" using waits_inv.holds by blast
  moreover have "SyncExpired p \<noteq> e" "WaitSync (Some p) p rest \<in> set (snd t)" using run_step by auto
  ultimately show ?case
    using own_wait_stays [of L "fst t" "snd t" e "fst u" "snd u" p rest] run_step.hyps(2) by auto
qed simp

section \<open>A sample run\<close>

text \<open>
  A node with the default settings accepts a connection, and a HELLO of another node with a longer
  chain arrives on it.
\<close>

definition sample_env :: env where
  "sample_env = \<lparr>ev_rsa = sample_rsa, ev_random = 0, ev_utc = \<lparr>dt_year = 2024, dt_month = 1, dt_day = 1, dt_hour = 0, dt_minute = 0, dt_second = 0\<rparr>, ev_time = Fin 120, ev_seconds = 0,
     ev_clock = Fin 0, ev_gai = (\<lambda>_. None), ev_log = (\<lambda>_. Inl ValueError), ev_power = (\<lambda>_ _. Inl OverflowError)\<rparr>"

definition sample_settings :: app_settings where
  "sample_settings = default_app\<lparr>ap_genesis_prev_hash := ''1''\<rparr>"

definition sample_node :: node where
  "sample_node = (case create_node sample_env sample_settings ''me'' ''ws://me'' [] None None None of Inr n \<Rightarrow> n)"

lemma sample_created:
  "create_node sample_env sample_settings ''me'' ''ws://me'' [] None None None = Inr sample_node"
  by (simp add: sample_node_def create_node_def sample_settings_def sample_env_def default_app_def default_consensus_def
      default_node_def choose_manager_def generate_key_pair_def sample_rsa_def create_consensus_def Let_def)

definition sample_greeting :: pydict where
  "sample_greeting = (case build_hello_payload sample_rsa 0 0 ''n'' ''pow'' 3 ''1'' sample_manager None of Inr v \<Rightarrow> v)"

definition sample_text :: string where
  "sample_text = encode_message HELLO sample_greeting"

lemma sample_greeting_built:
  "build_hello_payload sample_rsa 0 0 ''n'' ''pow'' 3 ''1'' sample_manager None = Inr sample_greeting"
  using sample_hello by (auto simp: sample_greeting_def)

lemma sample_greeting_items:
  obtains hex where "sample_greeting = hello_base ''n'' ''pow'' 3 ''1'' 0 None @
    [(''public_key'', PStr (lib_public_pem sample_rsa ''k'')), (''signature'', PStr hex)]"
  using build_hello_Inr [OF sample_rsa_laws sample_greeting_built] by (auto simp: sample_manager_def)

lemma sample_decoded:
  "decode_message sample_text = Inr (HELLO, sorted_payload sample_greeting)"
  "map_of (sorted_payload sample_greeting) = map_of sample_greeting"
proof -
  obtain hex where g: "sample_greeting = hello_base ''n'' ''pow'' 3 ''1'' 0 None @
    [(''public_key'', PStr (lib_public_pem sample_rsa ''k'')), (''signature'', PStr hex)]" by (rule sample_greeting_items)
  have "json_plain (PDict sample_greeting)" "''type'' \<notin> fst ` set sample_greeting"
    by (simp_all add: g hello_base_def show_nat.simps)
  then show "decode_message sample_text = Inr (HELLO, sorted_payload sample_greeting)"
    by (simp add: sample_text_def decode_encode_message)
  show "map_of (sorted_payload sample_greeting) = map_of sample_greeting"
    by (rule ext) (simp add: map_of_sorted_payload g hello_base_def)
qed

lemma sample_verifies: "verify_hello sample_rsa default_peer_auth (Fin 120) (sorted_payload sample_greeting) = Inr True"
proof -
  show ?thesis
    by (rule built_hello_verifies [OF sample_rsa_laws sample_clock(1) _ sample_greeting_built sample_clock(2,3) sample_decoded(2)]) simp
qed

lemma sample_differences:
  "float_sub (Fin 0) (Fin 0) = Fin 0" "float_sub (Fin 0) (Fin 60) = Fin (- 60)" "float_sub (Fin 0) (Fin 1) = Fin (- 1)"
  by code_simp+

text \<open>The connection is accepted.\<close>

definition sample_connected :: node where
  "sample_connected =
     sample_node\<lparr>no_p2p := fst (accept_connection (Fin 0) ''ip'' ''p'' (no_p2p sample_node))\<rparr>"

lemma show_zero: "show_nat 0 = ''0''"
  by code_simp

lemma sample_node_parts:
  "no_p2p sample_node = new_server default_network Development ''ws://me''" "no_settings sample_node = sample_settings"
  "no_sync sample_node = []" "no_urls sample_node = []" "no_stakes sample_node = []" "bc_chain (no_bc sample_node) = []"
  "no_id sample_node = ''me''" "no_identity sample_node = \<lparr>sm_private = Some ''0'', sm_public = Some ''0''\<rparr>"
  by (simp_all add: sample_node_def create_node_def sample_settings_def sample_env_def default_app_def default_consensus_def
      default_node_def choose_manager_def generate_key_pair_def sample_rsa_def create_consensus_def Let_def new_blockchain_def
      node_identity_def node_stakes_def new_manager_def show_zero)

abbreviation sample_conn :: peer_conn where
  "sample_conn \<equiv> new_peer True default_rate_limit ''ip'' 1048576"

lemma sample_connected_parts:
  "no_settings sample_connected = sample_settings" "no_sync sample_connected = []" "no_urls sample_connected = []"
  "no_bc sample_connected = no_bc sample_node" "no_stakes sample_connected = []"
  "sv_conns (no_p2p sample_connected) = [(''p'', sample_conn)]" "sv_peers (no_p2p sample_connected) = [''p'']"
  "sv_settings (no_p2p sample_connected) = default_network" "sv_local_url (no_p2p sample_connected) = ''ws://me''"
  "sv_msg_limiter (no_p2p sample_connected) = new_limiter 50 (Fin 1)"
  "no_id sample_connected = ''me''" "no_identity sample_connected = \<lparr>sm_private = Some ''0'', sm_public = Some ''0''\<rparr>"
  by (simp_all add: sample_connected_def sample_node_parts accept_connection_def new_server_def allow_def new_limiter_def
      prune_stale_keys_def events_of_def sample_differences default_network_def default_rate_limit_def full_def
      connection_for_def default_peer_auth_def set_conn_def float_lt_def Let_def)

lemma sample_accepts:
  "sys_step sample_rsa (sample_node, []) (Accepted sample_env ''p'' ''ip'') (sample_connected, [])"
proof -
  obtain r where r: "accept_connection (Fin 0) ''ip'' ''p'' (no_p2p sample_node) = (no_p2p sample_connected, r)"
    by (cases "accept_connection (Fin 0) ''ip'' ''p'' (no_p2p sample_node)") (simp add: sample_connected_def)
  have "fresh_id ''p'' sample_node" by (simp add: fresh_id_def sample_node_parts new_server_def)
  then have "sys_step sample_rsa (sample_node, []) (Accepted sample_env ''p'' ''ip'')
      (sample_node\<lparr>no_p2p := no_p2p sample_connected\<rparr>, [])"
    by (rule sys_step.accepted) (simp add: sample_env_def r)
  then show ?thesis by (simp add: sample_connected_def)
qed

lemma sample_run: "run (sys_step sample_rsa) (sample_node, []) [Accepted sample_env ''p'' ''ip''] (sample_connected, [])"
  using sample_accepts by (rule run_one)

text \<open>The HELLO arrives, and then a PING.\<close>

definition sample_limiter :: limiter where
  "sample_limiter = \<lparr>rl_max = 50, rl_window = Fin 1, rl_events = [(''ip'', [Fin 0])], rl_last = [(''ip'', Fin 0)],
     rl_last_prune = Fin 0\<rparr>"

lemma sample_allowed:
  "allow ''ip'' (Fin 0) (new_limiter 50 (Fin 1)) = Inr (sample_limiter, True)"
  "\<exists>lm. allow ''ip'' (Fin 0) sample_limiter = Inr (lm, True)"
  by (simp_all add: sample_limiter_def allow_def new_limiter_def prune_stale_keys_def events_of_def sample_differences
      float_lt_def Let_def)

definition sample_greeted :: node where
  "sample_greeted = sample_connected\<lparr>no_p2p := set_conn ''p'' sample_conn
     ((no_p2p sample_connected)\<lparr>sv_msg_limiter := sample_limiter\<rparr>)\<rparr>"

lemma sample_gate:
  "gate_of sample_env ''p'' sample_text sample_connected = (sample_greeted, Handle HELLO (sorted_payload sample_greeting))"
  by (simp add: gate_of_def sample_connected_parts sample_greeted_def listen_gate_def sample_allowed(1) sample_decoded(1)
      sample_env_def new_peer_def)

lemma sample_greeted_parts:
  "no_settings sample_greeted = sample_settings" "no_sync sample_greeted = []" "no_urls sample_greeted = []"
  "no_bc sample_greeted = no_bc sample_node" "no_stakes sample_greeted = []"
  "find_peer (no_p2p sample_greeted) ''p'' = Some sample_conn"
  "sv_local_url (no_p2p sample_greeted) = ''ws://me''" "sv_msg_limiter (no_p2p sample_greeted) = sample_limiter"
  "no_id sample_greeted = ''me''" "no_identity sample_greeted = \<lparr>sm_private = Some ''0'', sm_public = Some ''0''\<rparr>"
  by (simp_all add: sample_greeted_def sample_connected_parts find_peer_def set_conn_def)

lemma sample_items:
  "dict_get (sorted_payload sample_greeting) ''consensus_type'' = PStr ''pow''"
  "dict_get (sorted_payload sample_greeting) ''genesis_hash'' = PStr ''1''"
  "dict_get (sorted_payload sample_greeting) ''chain_height'' = PInt 3"
  "dict_get (sorted_payload sample_greeting) ''advertised_url'' = PNone"
proof -
  obtain hex where g: "sample_greeting = hello_base ''n'' ''pow'' 3 ''1'' 0 None @
    [(''public_key'', PStr (lib_public_pem sample_rsa ''k'')), (''signature'', PStr hex)]" by (rule sample_greeting_items)
  show "dict_get (sorted_payload sample_greeting) ''consensus_type'' = PStr ''pow''"
    "dict_get (sorted_payload sample_greeting) ''genesis_hash'' = PStr ''1''"
    "dict_get (sorted_payload sample_greeting) ''chain_height'' = PInt 3"
    "dict_get (sorted_payload sample_greeting) ''advertised_url'' = PNone"
    by (simp_all add: dict_get_def sample_decoded(2)) (simp_all add: g hello_base_def)
qed

lemma sample_sends_hello:
  assumes "no_settings n = sample_settings" "bc_chain (no_bc n) = []"
    "no_identity n = \<lparr>sm_private = Some ''0'', sm_public = Some ''0''\<rparr>"
  obtains payload where "send_hello sample_env p n = Inr (node_send p HELLO payload n)"
proof -
  obtain payload where "hello_payload sample_env n = Inr payload"
    using sample_builds [of 0 0 "no_id n" "''pow''" "chain_height n" "''1''" "''0''" "Some (sv_local_url (no_p2p n))"] assms
    by (auto simp: hello_payload_def genesis_hash_def sample_settings_def default_app_def default_consensus_def
        sample_env_def kind_text_def)
  then show ?thesis using that by (simp add: send_hello_def)
qed

lemma sample_reception:
  obtains n where "receive sample_env ''p'' sample_text sample_connected = (n, [WaitSync (Some ''p'') ''p'' []])"
    "map_of (sv_conns (no_p2p n)) ''p'' = Some (mark_authenticated sample_conn)"
    "sv_msg_limiter (no_p2p n) = sample_limiter"
proof -
  let ?hello = "sorted_payload sample_greeting"
  let ?n1 = "sample_greeted\<lparr>no_p2p := set_conn ''p'' (mark_authenticated sample_conn) (no_p2p sample_greeted)\<rparr>"
  have chain: "bc_chain (no_bc sample_greeted) = []" by (simp add: sample_greeted_parts sample_node_parts)
  obtain payload where sent: "send_hello sample_env ''p'' ?n1 = Inr (node_send ''p'' HELLO payload ?n1)"
    using sample_sends_hello [of ?n1 "''p''"] chain by (auto simp: sample_greeted_parts)
  let ?n2 = "node_send ''p'' HELLO payload ?n1"
  have net: "network sample_greeted = default_network" "nw_peer_auth default_network = default_peer_auth"
    by (simp_all add: sample_greeted_parts sample_settings_def default_app_def default_network_def)
  have "same_network sample_greeted ?hello = Inr True"
    by (simp add: same_network_def sample_items kind_text_def genesis_hash_def sample_greeted_parts sample_node_parts(6) sample_settings_def
        default_app_def default_consensus_def)
  moreover have "admit_peer sample_env ''p'' sample_conn ?hello sample_greeted = (?n2, SyncWith [''p''])"
    using sent
    by (simp add: admit_peer_def Let_def sample_greeted_parts sample_node_parts(6) sample_items register_advertised_def chain_height_def
        resolve_chain_height_def py_int_def)
  moreover have "verify_hello sample_rsa default_peer_auth (ev_time sample_env) ?hello = Inr True"
    using sample_verifies by (simp add: sample_env_def)
  ultimately have hello: "on_hello sample_env ''p'' ?hello sample_greeted = (?n2, SyncWith [''p''])"
    by (simp add: on_hello_def sample_greeted_parts(6) net sample_env_def)
  let ?s = "\<lparr>ss_blocks = [], ss_done = False, ss_expected = 1, ss_prev = PNone, ss_bytes = 0\<rparr>"
  obtain q where sync: "request_chain ''p'' ?n2 = (node_send ''p'' GET_CHAIN q (?n2\<lparr>no_sync := [(''p'', ?s)]\<rparr>), Inr ())"
    by (auto simp: request_chain_def new_session_def chain_height_def sample_greeted_parts sample_node_parts(6))
  let ?n3 = "node_send ''p'' GET_CHAIN q (?n2\<lparr>no_sync := [(''p'', ?s)]\<rparr>)"
  have "begin_sync [''p''] ?n2 = (?n3, SyncWaits ''p'' [])"
    using sync by (simp add: sample_greeted_parts)
  then have "receive sample_env ''p'' sample_text sample_connected = (?n3, [WaitSync (Some ''p'') ''p'' []])"
    by (simp add: receive_def sample_gate handle_message_def hello after_handler_def continue_sync_def del: begin_sync.simps)
  then show ?thesis
    by (rule that) (simp_all add: node_send_def sample_greeted_parts)
qed


text \<open>The two steps of the run, and a message handled after them.\<close>

lemma sample_second_step:
  obtains n where
    "sys_step sample_rsa (sample_connected, []) (Received sample_env ''p'' sample_text) (n, [WaitSync (Some ''p'') ''p'' []])"
    "\<exists>m. gate_of sample_env ''p'' (encode_message PING []) n = (m, Handle PING [])"
proof -
  obtain n where n: "receive sample_env ''p'' sample_text sample_connected = (n, [WaitSync (Some ''p'') ''p'' []])"
    "map_of (sv_conns (no_p2p n)) ''p'' = Some (mark_authenticated sample_conn)"
    "sv_msg_limiter (no_p2p n) = sample_limiter" by (rule sample_reception)
  have "map_of (sv_conns (no_p2p sample_connected)) ''p'' \<noteq> None" "ev_rsa sample_env = sample_rsa"
    by (simp_all add: sample_connected_parts sample_env_def)
  from sys_step.received [OF this(2,1) _ n(1), of "[]"] have
    step: "sys_step sample_rsa (sample_connected, []) (Received sample_env ''p'' sample_text) (n, [WaitSync (Some ''p'') ''p'' []])"
    by simp
  obtain lm where "allow ''ip'' (Fin 0) sample_limiter = Inr (lm, True)" using sample_allowed(2) by blast
  moreover have "decode_message (encode_message PING []) = Inr (PING, [])"
    by (simp add: decode_encode_message sorted_payload_def)
  ultimately have "\<exists>m. gate_of sample_env ''p'' (encode_message PING []) n = (m, Handle PING [])"
    by (simp add: gate_of_def n(2,3) listen_gate_def sample_env_def new_peer_def mark_authenticated_def)
  with step show ?thesis by (rule that)
qed

section \<open>Properties of every run\<close>


lemma sample_ready_run:
  obtains n ts where "run (ready_step sample_rsa) (sample_node, [])
    [Accepted sample_env ''p'' ''ip'', Received sample_env ''p'' sample_text] (n, ts)"
proof -
  obtain n where n: "sys_step sample_rsa (sample_connected, []) (Received sample_env ''p'' sample_text)
      (n, [WaitSync (Some ''p'') ''p'' []])" by (rule sample_second_step)
  have a: "ready_step sample_rsa (sample_node, []) (Accepted sample_env ''p'' ''ip'') (sample_connected, [])"
    by (simp add: ready_step_def ready_event_def sample_accepts)
  have b: "ready_step sample_rsa (sample_connected, []) (Received sample_env ''p'' sample_text)
      (n, [WaitSync (Some ''p'') ''p'' []])"
    by (simp add: ready_step_def ready_event_def n)
  show ?thesis
    by (rule that, rule run_more [where step = "ready_step sample_rsa", OF run_one [where step = "ready_step sample_rsa", OF a] b])
      simp
qed


text \<open>
  C38: At every moment the dict of peers holds at most the configured number of connections, each of
  them once and with its connection object, and every session holds at most the configured number of
  blocks and bytes, its blocks following one another by index and hash.
\<close>

theorem node_state_wellformed:
  assumes "create_node ev st uuid url given vpem ipem p = Inr n0" "sync_limits n0"
    and "run (sys_step L) (n0, []) es (n, ts)"
  shows "distinct (sv_peers (no_p2p n)) \<and>
    (\<forall>q\<in>set (sv_peers (no_p2p n)). map_of (sv_conns (no_p2p n)) q \<noteq> None) \<and>
    int (length (sv_peers (no_p2p n))) \<le> max 0 (nw_max_peers (network n)) \<and> sessions_ok n"
proof -
  have "node_ok n" using node_inv.holds [OF assms(3)] idle_ok [OF created(2) [OF assms(1)] assms(2)] by simp
  then show ?thesis by (simp add: node_ok_def peers_ok_def requires_def)
qed

theorem node_state_wellformed_witness:
  "sv_peers (no_p2p sample_connected) = [''p''] \<and> map_of (sv_conns (no_p2p sample_connected)) ''p'' \<noteq> None"
proof -
  have "sync_limits sample_node"
    by (simp add: sample_node_parts sample_settings_def default_app_def default_network_def)
  from node_state_wellformed [OF sample_created this sample_run] show ?thesis
    by (simp add: sample_connected_parts)
qed

text \<open>
  C39: Where authentication is required, a message other than HELLO reaches its handler only on a
  connection on which, in the same run and since the connection is up, a HELLO arrived that was
  signed for its sender, fresh, and of the network of the node.
\<close>

theorem handled_only_after_hello:
  assumes "create_node ev0 st uuid url given vpem ipem q = Inr n0" "pa_enabled (nw_peer_auth (ap_network st))"
    and "run (sys_step L) (n0, []) es (n, ts)"
    and "gate_of ev p raw n = (m, Handle t payload)" "t \<noteq> HELLO"
  shows "greeted L n0 p es"
proof -
  have auth: "pa_enabled (nw_peer_auth (network n0))" using created(3) [OF assms(1)] assms(2) by simp
  from authenticated_greeted [OF assms(3) refl created(2) [OF assms(1)] auth] have
    n: "network n = network n0" "server_ok n" "\<forall>p. auths n p = Some True \<longrightarrow> greeted L n0 p es" by simp_all
  from n(1,2) auth have "requires n p = Some True \<or> requires n p = None"
    by (cases "requires n p") (auto simp: server_ok_def)
  from gate_needs_authentication [OF assms(4,5) this] n(3) show ?thesis by blast
qed

theorem handled_only_after_hello_witness:
  "greeted sample_rsa sample_node ''p'' [Accepted sample_env ''p'' ''ip'', Received sample_env ''p'' sample_text]"
proof -
  obtain n where n: "sys_step sample_rsa (sample_connected, []) (Received sample_env ''p'' sample_text)
      (n, [WaitSync (Some ''p'') ''p'' []])"
    "\<exists>m. gate_of sample_env ''p'' (encode_message PING []) n = (m, Handle PING [])" by (rule sample_second_step)
  have auth: "pa_enabled (nw_peer_auth (ap_network sample_settings))"
    by (simp add: sample_settings_def default_app_def default_network_def default_peer_auth_def)
  from n(2) obtain m where "gate_of sample_env ''p'' (encode_message PING []) n = (m, Handle PING [])" by blast
  moreover have "run (sys_step sample_rsa) (sample_node, [])
      [Accepted sample_env ''p'' ''ip'', Received sample_env ''p'' sample_text] (n, [WaitSync (Some ''p'') ''p'' []])"
    using sample_run n(1) by (rule run_more) simp
  ultimately show ?thesis using handled_only_after_hello [OF sample_created auth] by blast
qed

text \<open>
  C40: A synchronisation that a HELLO starts waits, inside the listen loop of the connection the HELLO
  arrived on, for blocks on that same connection; until its time is up it cannot end, whatever
  happens.
\<close>

theorem hello_sync_only_expires:
  assumes "run (sys_step L) (n0, []) pre (n, ts)"
    and "sys_step L (n, ts) (Received ev p raw) (n1, ts1)" "decode_message raw = Inr (HELLO, hello)"
    and "WaitSync owner q rest \<in> set ts1 - set ts"
    and "run (sys_step L) (n1, ts1) es (n2, ts2)" "SyncExpired p \<notin> set es"
  shows "WaitSync (Some p) p [] \<in> set ts2"
proof -
  from assms(2) obtain us where us: "receive ev p raw n = (n1, us)" "ts1 = ts @ us" by (auto elim: receivedE)
  with assms(4) have "WaitSync owner q rest \<in> set us" by auto
  with hello_waits [OF us(1) assms(3) this] us(2) have wait: "WaitSync (Some p) p [] \<in> set ts1" by auto
  have "waits_ok n ts" using waits_inv.holds [OF assms(1)] by (simp add: waits_ok_def asked_def)
  then have "waits_ok n1 ts1" by (rule step_waits_ok [OF assms(2)])
  with own_wait_run [OF assms(5) _ _ assms(6), of "[]"] wait show ?thesis by simp
qed

theorem hello_sync_only_expires_witness:
  "\<exists>n. sys_step sample_rsa (sample_connected, []) (Received sample_env ''p'' sample_text) (n, [WaitSync (Some ''p'') ''p'' []]) \<and>
     WaitSync (Some ''p'') ''p'' [] \<in> set [WaitSync (Some ''p'') ''p'' []]"
proof -
  obtain n where n: "sys_step sample_rsa (sample_connected, []) (Received sample_env ''p'' sample_text)
      (n, [WaitSync (Some ''p'') ''p'' []])" by (rule sample_second_step)
  have "WaitSync (Some ''p'') ''p'' [] \<in> set [WaitSync (Some ''p'') ''p'' []] - set []" by simp
  from hello_sync_only_expires [OF sample_run n sample_decoded(1) this run.run_start] n show ?thesis by auto
qed

end
