(* ===== verification/Node_Restart.thy ===== *)
theory Node_Restart
  imports Node_Behaviour
begin

text \<open>
  A node that stops and starts again: \<open>stop\<close> saves its state, and the creation from that state
  gives the chain, the identity and the keys back.
\<close>

section \<open>What a run never changes\<close>

lemma step_core: "sys_step L (n, ts) e (n', ts') \<Longrightarrow> core n' = core n"
  by (drule step_connections) (auto simp: admits_def drops_def Let_def dest: frame_parts)

interpretation core_inv: inductive_invariant "ready_step L" "\<lambda>s. core (fst s) = c" for L c
  by unfold_locales (auto simp: ready_step_def dest: step_core)

section \<open>Keys\<close>

text \<open>A private key that was exported is the one that is imported again.\<close>

definition private_pem_law :: "rsa_library \<Rightarrow> bool" where
  "private_pem_law L \<longleftrightarrow>
     (\<forall>sk. looks_pem (lib_private_pem L sk) \<and> lib_load_private_pem L (lib_private_pem L sk) = Inr (RsaKey sk))"

lemma sample_private_pem: "private_pem_law sample_rsa"
  using sample_rsa_laws by (simp add: private_pem_law_def rsa_laws_def sample_rsa_def)

lemma imported_manager:
  assumes "import_private_key L new_manager pem = Inr m"
  shows "\<exists>sk. m = \<lparr>sm_private = Some sk, sm_public = Some (lib_public L sk)\<rparr>"
proof -
  from assms obtain k where
    "(case k of OtherKey \<Rightarrow> Inl ValueError
      | RsaKey sk \<Rightarrow> Inr (new_manager\<lparr>sm_private := Some sk, sm_public := Some (lib_public L sk)\<rparr>)) = Inr m"
    unfolding import_private_key_def bindE_eq_Inr by blast
  then show ?thesis by (cases k) (auto simp: new_manager_def)
qed

lemma chosen_manager:
  assumes "choose_manager L rnd outside required stored = Inr m"
  obtains sk where "m = \<lparr>sm_private = Some sk, sm_public = Some (lib_public L sk)\<rparr>"
  using assms imported_manager [of L _ m]
  by (auto simp: choose_manager_def generate_key_pair_def bindE_eq_Inr new_manager_def split: option.splits if_splits)

lemma chosen_again:
  assumes "choose_manager L rnd outside required stored = Inr m" "private_pem_law L"
    and "outside = None \<Longrightarrow> stored' = Some (lib_private_pem L (the (sm_private m)))"
  shows "choose_manager L rnd' outside required stored' = Inr m"
proof (cases outside)
  case None
  obtain sk where m: "m = \<lparr>sm_private = Some sk, sm_public = Some (lib_public L sk)\<rparr>"
    using assms(1) by (rule chosen_manager)
  have "\<not> required" using assms(1) None by (auto simp: choose_manager_def)
  with None assms(2,3) m show ?thesis
    by (simp add: choose_manager_def import_private_key_def private_pem_law_def new_manager_def)
qed (use assms(1) in \<open>simp add: choose_manager_def\<close>)

lemma stored_key_chosen:
  assumes "choose_manager L rnd outside required stored = Inr m"
  shows "stored_key L store m (outside \<noteq> None) =
    Inr (if store \<and> outside = None then Some (lib_private_pem L (the (sm_private m))) else None)"
proof -
  obtain sk where "m = \<lparr>sm_private = Some sk, sm_public = Some (lib_public L sk)\<rparr>"
    using assms by (rule chosen_manager)
  then show ?thesis by (simp add: stored_key_def export_private_key_def lower_char_def)
qed

section \<open>The chain\<close>

lemma replace_by_verified:
  assumes "verify_chain_integrity L ch (bc_consensus bc) (bc_genesis_prev_hash bc) gs = Inr chain_ok"
  shows "\<exists>bc'. replace_chain L ch gs bc = (bc', Inr True) \<and> bc_chain bc' = ch"
proof (cases "\<exists>po s. bc_consensus bc = Some (PosC po) \<and> gs = Some s")
  case True
  then obtain po s where po: "bc_consensus bc = Some (PosC po)" "gs = Some s" by blast
  with assms obtain vs where "compute_validators_from_chain ch s (po_settings po) = Inr vs"
    by (auto simp: verify_chain_integrity_def dest: verify_stakes_compute)
  with po assms show ?thesis
    by (simp add: replace_chain_def chain_ok_def sync_validators_from_chain_def Let_def)
next
  case False
  with assms show ?thesis
    by (auto simp: replace_chain_def chain_ok_def Let_def split: option.splits consensus_obj.splits)
qed

lemma restore_verified:
  assumes "chain_good L n" "pe_genesis_prev_hash s = [] \<or> pe_genesis_prev_hash s = ap_genesis_prev_hash (no_settings n)"
    and "pe_chain s = [] \<longrightarrow> bc_chain (no_bc n) = []"
    and "verify_chain_integrity L (pe_chain s) (bc_consensus (no_bc n)) (bc_genesis_prev_hash (no_bc n)) (Some (no_stakes n)) = Inr chain_ok"
  shows "\<exists>n'. restore_chain L s n = Inr n' \<and> bc_chain (no_bc n') = pe_chain s \<and> core n' = core n"
proof (cases "pe_chain s = []")
  case True
  with assms(2,3) show ?thesis by (auto simp: restore_chain_def)
next
  case False
  obtain bc where bc: "replace_chain L (pe_chain s) (Some (no_stakes n)) (no_bc n) = (bc, Inr True)" "bc_chain bc = pe_chain s"
    using replace_by_verified [OF assms(4)] by blast
  have "verified_state L (Some (no_stakes n)) (no_bc n)" using assms(1) by (simp add: chain_good_def)
  then have "verify_chain L bc (Some (no_stakes n)) = Inr chain_ok"
    using replace_chain_verified [OF _ bc(1)] by (simp add: verified_state_def)
  with bc False assms(2) show ?thesis
    by (auto simp: restore_chain_def chain_ok_def core_def)
qed

section \<open>Stopping and starting\<close>

text \<open>What is stored of a node whose keys come from outside or go to the disk.\<close>

definition kept_state :: "rsa_library \<Rightarrow> node \<Rightarrow> persisted_state" where
  "kept_state L n =
     (let store = ps_store_keys_on_disk (ap_persistence (no_settings n));
          pem = (\<lambda>m. lib_private_pem L (the (sm_private m)))
      in \<lparr>pe_chain = bc_chain (no_bc n), pe_node_id = no_id n,
          pe_genesis_prev_hash = ap_genesis_prev_hash (no_settings n), pe_stakes = no_stakes n,
          pe_private_key = (if store \<and> consensus_kind_of n = Pos \<and> \<not> no_validator_external n
            then Some (pem (no_manager n)) else None),
          pe_p2p_identity = (if store \<and> \<not> no_identity_external n then Some (pem (no_identity n)) else None)\<rparr>)"

text \<open>The keys of a node were chosen as its creation chooses them.\<close>

definition keys_chosen :: "rsa_library \<Rightarrow> bytes option \<Rightarrow> bytes option \<Rightarrow> node \<Rightarrow> bool" where
  "keys_chosen L vpem ipem n \<longleftrightarrow>
     (let required = nd_require_external_keys (ap_node (no_settings n)) in
      no_validator_external n = (vpem \<noteq> None) \<and> no_identity_external n = (ipem \<noteq> None) \<and>
      (if consensus_kind_of n = Pos
       then (\<exists>rnd stored. choose_manager L rnd vpem required stored = Inr (no_manager n))
       else no_manager n = new_manager) \<and>
      (\<exists>rnd stored. choose_manager L rnd ipem required stored = Inr (no_identity n)))"

lemma keys_chosen_core: "core n' = core n \<Longrightarrow> keys_chosen L vpem ipem n' = keys_chosen L vpem ipem n"
  by (simp add: core_def keys_chosen_def)

lemma created_keys:
  assumes "create_node ev st uuid url given vpem ipem p = Inr n"
  shows "keys_chosen (ev_rsa ev) vpem ipem n" "no_id n = node_identity st uuid p" "no_stakes n = node_stakes given p"
proof -
  from created_core [OF assms] obtain manager identity co where
    c: "core n = core (fresh_node st (node_identity st uuid p) (node_stakes given p) manager
      (vpem \<noteq> None) identity (ipem \<noteq> None) co url)"
    and v: "(if cs_type (ap_consensus st) = Pos
     then choose_manager (ev_rsa ev) (ev_random ev) vpem (nd_require_external_keys (ap_node st))
            (case p of Some s \<Rightarrow> pe_private_key s | None \<Rightarrow> None)
     else Inr new_manager) = Inr manager"
    and i: "choose_manager (ev_rsa ev) (ev_random ev) ipem (nd_require_external_keys (ap_node st))
      (case p of Some s \<Rightarrow> pe_p2p_identity s | None \<Rightarrow> None) = Inr identity" by blast
  show "keys_chosen (ev_rsa ev) vpem ipem n"
    unfolding keys_chosen_core [OF c]
    using v i by (cases "cs_type (ap_consensus st) = Pos") (auto simp: keys_chosen_def fresh_node_def Let_def)
  show "no_id n = node_identity st uuid p" "no_stakes n = node_stakes given p"
    using c by (simp_all add: core_def fresh_node_def)
qed

lemma built_state:
  assumes "keys_chosen L vpem ipem n"
  shows "build_persisted_state L n = Inr (kept_state L n)"
proof -
  let ?store = "ps_store_keys_on_disk (ap_persistence (no_settings n))"
  have v: "stored_key L (?store \<and> consensus_kind_of n = Pos) (no_manager n) (no_validator_external n) =
      Inr (if ?store \<and> consensus_kind_of n = Pos \<and> \<not> no_validator_external n
        then Some (lib_private_pem L (the (sm_private (no_manager n)))) else None)"
  proof (cases "consensus_kind_of n = Pos")
    case True
    with assms obtain rnd r stored where "choose_manager L rnd vpem r stored = Inr (no_manager n)"
      "no_validator_external n = (vpem \<noteq> None)" by (auto simp: keys_chosen_def Let_def)
    with stored_key_chosen [OF this(1), of ?store] True show ?thesis by simp
  qed (simp add: stored_key_def)
  from assms obtain rnd r stored where "choose_manager L rnd ipem r stored = Inr (no_identity n)"
    "no_identity_external n = (ipem \<noteq> None)" by (auto simp: keys_chosen_def Let_def)
  with stored_key_chosen [OF this(1), of ?store] have
    i: "stored_key L ?store (no_identity n) (no_identity_external n) =
      Inr (if ?store \<and> \<not> no_identity_external n then Some (lib_private_pem L (the (sm_private (no_identity n)))) else None)"
    by simp
  show ?thesis by (simp add: build_persisted_state_def Let_def v i kept_state_def)
qed

text \<open>The creation of a node from the state that was kept of another.\<close>

lemma created_again:
  assumes "chain_good L n" "keys_chosen L vpem ipem n" "private_pem_law L" "ev_rsa ev = L"
    and "pe_chain t = bc_chain (no_bc n)" "pe_genesis_prev_hash t = ap_genesis_prev_hash (no_settings n)"
    and "node_identity (no_settings n) uuid (Some t) = no_id n" "node_stakes given (Some t) = no_stakes n"
    and "consensus_kind_of n = Pos \<Longrightarrow> vpem = None \<Longrightarrow>
      pe_private_key t = Some (lib_private_pem L (the (sm_private (no_manager n))))"
    and "ipem = None \<Longrightarrow> pe_p2p_identity t = Some (lib_private_pem L (the (sm_private (no_identity n))))"
  shows "\<exists>m. create_node ev (no_settings n) uuid url given vpem ipem (Some t) = Inr m \<and>
    bc_chain (no_bc m) = bc_chain (no_bc n) \<and> core m = core n"
proof -
  let ?st = "no_settings n"
  let ?pos = "cs_type (ap_consensus ?st) = Pos"
  from assms(1) obtain co where co: "first_consensus L n = Inr co" "same_rules (Some co) (bc_consensus (no_bc n))"
    and prev: "bc_genesis_prev_hash (no_bc n) = ap_genesis_prev_hash ?st"
    and ver: "verify_chain L (no_bc n) (Some (no_stakes n)) = Inr chain_ok"
    by (auto simp: chain_good_def verified_state_def)
  define n0 where "n0 = fresh_node ?st (no_id n) (no_stakes n) (no_manager n) (vpem \<noteq> None) (no_identity n) (ipem \<noteq> None) co url"
  have made: "create_consensus L (ap_consensus ?st) (ap_genesis_prev_hash ?st)
      (if ?pos then Some (no_id n) else None) (Some (no_manager n)) (Some (no_stakes n)) = Inr co"
    using co(1) by (simp only: first_consensus_def)
  have good: "chain_good L n0" unfolding n0_def by (rule fresh_node_good [OF made])
  have n0: "core n0 = core n" "no_settings n0 = ?st" "bc_chain (no_bc n0) = []" "bc_consensus (no_bc n0) = Some co"
      "bc_genesis_prev_hash (no_bc n0) = ap_genesis_prev_hash ?st" "no_stakes n0 = no_stakes n"
    using assms(2) by (simp_all add: n0_def fresh_node_def core_def keys_chosen_def Let_def new_blockchain_def)
  have "verify_chain_integrity L (pe_chain t) (bc_consensus (no_bc n0)) (bc_genesis_prev_hash (no_bc n0)) (Some (no_stakes n0)) = Inr chain_ok"
    using ver verify_same_rules [OF co(2), of "Some (no_stakes n)"] by (simp add: verify_chain_def n0 assms(5) prev)
  from restore_verified [OF good _ _ this] obtain m where
    m: "restore_chain L t n0 = Inr m" "bc_chain (no_bc m) = pe_chain t" "core m = core n0"
    using assms(6) n0(2,3) by auto
  have manager: "(if ?pos then choose_manager L (ev_random ev) vpem (nd_require_external_keys (ap_node ?st)) (pe_private_key t)
      else Inr new_manager) = Inr (no_manager n)"
  proof (cases ?pos)
    case True
    with assms(2) obtain rnd stored where
      "choose_manager L rnd vpem (nd_require_external_keys (ap_node ?st)) stored = Inr (no_manager n)"
      by (auto simp: keys_chosen_def Let_def)
    from chosen_again [OF this assms(3), of "pe_private_key t" "ev_random ev"] assms(9) True show ?thesis by simp
  qed (use assms(2) in \<open>simp add: keys_chosen_def Let_def\<close>)
  from assms(2) obtain rnd stored where
    "choose_manager L rnd ipem (nd_require_external_keys (ap_node ?st)) stored = Inr (no_identity n)"
    by (auto simp: keys_chosen_def Let_def)
  from chosen_again [OF this assms(3), of "pe_p2p_identity t" "ev_random ev"] assms(10) have
    identity: "choose_manager L (ev_random ev) ipem (nd_require_external_keys (ap_node ?st)) (pe_p2p_identity t) = Inr (no_identity n)"
    by simp
  have "create_node ev ?st uuid url given vpem ipem (Some t) = Inr m"
    unfolding create_node_Inr
    by (rule exI [of _ "no_manager n"], rule exI [of _ "no_identity n"], rule exI [of _ co], intro conjI)
      (simp_all only: option.case assms(4,7,8) manager identity made m(1) [unfolded n0_def])
  with m n0(1) assms(5) show ?thesis by auto
qed

text \<open>\<open>stop\<close> on files that nothing keeps from being written.\<close>

lemma stopped:
  assumes "keys_chosen L vpem ipem n" "savable (ap_persistence (no_settings n)) (kept_state L n)"
    and "paths_ok (ap_persistence (no_settings n))" "all_inside inside (ap_persistence (no_settings n))"
    and "stop_node inside (\<lambda>_. False) L None n fs = (n1, fs1, r)"
  shows "r = Inr () \<and> core n1 = core n \<and> no_bc n1 = no_bc n \<and>
    (\<exists>t. load inside (ap_persistence (no_settings n)) fs1 = Inr (Some t) \<and>
      pe_chain t = bc_chain (no_bc n) \<and> pe_node_id t = no_id n \<and>
      pe_genesis_prev_hash t = ap_genesis_prev_hash (no_settings n) \<and> pe_stakes t = no_stakes n \<and>
      (ps_store_keys_on_disk (ap_persistence (no_settings n)) \<longrightarrow>
        (consensus_kind_of n = Pos \<and> vpem = None \<longrightarrow>
           pe_private_key t = Some (lib_private_pem L (the (sm_private (no_manager n))))) \<and>
        (ipem = None \<longrightarrow> pe_p2p_identity t = Some (lib_private_pem L (the (sm_private (no_identity n)))))))"
proof -
  let ?ps = "ap_persistence (no_settings n)"
  obtain fs2 q where save: "save inside (\<lambda>_. False) ?ps (kept_state L n) fs = (fs2, q)" by fastforce
  define m where "m = n\<lparr>no_p2p := (fold close_conn (sv_peers (no_p2p n)) (no_p2p n))\<lparr>sv_peers := [], sv_urls := []\<rparr>,
                no_active := [], no_connecting := [], no_urls := [], no_persist_pending := False\<rparr>"
  have m: "core m = core n" "no_bc m = no_bc n" "no_settings m = no_settings n" "kept_state L m = kept_state L n"
    by (simp_all add: m_def core_def kept_state_def Let_def)
  have "build_persisted_state L m = Inr (kept_state L n)"
    using built_state [of L vpem ipem m] assms(1) keys_chosen_core [OF m(1)] m(4) by simp
  then have persist: "persist_state inside (\<lambda>_. False) L m fs = (fs2, q)"
    by (simp add: persist_state_def m(3) save)
  have "stop_node inside (\<lambda>_. False) L None n fs = (m, fs2, q)"
    unfolding stop_node_def Let_def m_def [symmetric] by (simp add: persist)
  with assms(5) have n1: "n1 = m" "fs1 = fs2" "r = q" by simp_all
  from saved_loads [OF assms(3,4,2) save] show ?thesis
    using assms(1) by (auto simp: n1 m(1,2) kept_state_def keys_chosen_def Let_def)
qed

text \<open>
  A save that failed while the node ran fails its stop as well: the exception of the worker is
  raised again before the last save, which is not tried, although it could succeed by now.
\<close>

lemma stop_after_failure: "\<exists>n1. stop_node inside broken L (Some e) n fs = (n1, fs, Inl e)"
  by (simp add: stop_node_def Let_def)


lemma sample_kept: "pe_chain (kept_state sample_rsa sample_connected) = []" "pe_stakes (kept_state sample_rsa sample_connected) = []"
  by (simp_all add: kept_state_def Let_def sample_connected_parts sample_node_parts)

lemma sample_kept_savable: "savable default_persistence (kept_state sample_rsa sample_connected)"
proof -
  have "assert_size (ps_max_chain_file_bytes default_persistence) (dump_json_bytes (PList [])) = Inr ()" by code_simp
  moreover have "json_plain (PInt (ps_schema_version default_persistence))" using sample_savable(2) unfolding savable_def by blast
  ultimately show ?thesis by (simp add: savable_def stakes_value_def sample_kept)
qed


end
