(* ===== verification/Health.thy ===== *)
theory Health
  imports Node
begin

text \<open>
  \<open>observability/metrics.py\<close> and \<open>observability/health_server.py\<close>: the counters of a node and the
  HTTP server that shows them.  The package \<open>prometheus_client\<close> is a record of its operations, or
  absent.  A connection is the list of what its reads answer, each with the time of the loop just
  before, the end of the input being the empty bytes; a connection that sends nothing more after the
  last one keeps its reader waiting until its time is over.  Texts outside Latin-1 are answered by \<open>Unmodelled\<close>.
\<close>

section \<open>Metrics\<close>

record 'm prometheus =
  pm_registry :: 'm
  pm_set :: "string \<Rightarrow> int \<Rightarrow> 'm \<Rightarrow> 'm"
  pm_inc :: "string \<Rightarrow> int \<Rightarrow> 'm \<Rightarrow> 'm"
  pm_generate :: "'m \<Rightarrow> bytes"

datatype 'm backend = NoOpMetrics | PrometheusMetrics "'m prometheus" 'm

definition create_backend :: "'m prometheus option \<Rightarrow> 'm backend \<times> bool" where
  "create_backend installed =
     (case installed of
        Some lib \<Rightarrow> (PrometheusMetrics lib (pm_registry lib), True)
      | None \<Rightarrow> (NoOpMetrics, False))"

record 'm collector =
  mc_settings :: observability_settings
  mc_available :: bool
  mc_backend :: "'m backend"

definition new_collector :: "observability_settings \<Rightarrow> 'm prometheus option \<Rightarrow> 'm collector" where
  "new_collector st installed =
     (if ob_enabled st
      then (case create_backend installed of
              (b, available) \<Rightarrow> \<lparr>mc_settings = st, mc_available = available, mc_backend = b\<rparr>)
      else \<lparr>mc_settings = st, mc_available = False, mc_backend = NoOpMetrics\<rparr>)"

definition metrics_enabled :: "'m collector \<Rightarrow> bool" where
  "metrics_enabled c \<longleftrightarrow> ob_enabled (mc_settings c) \<and> mc_available c"

definition set_gauge :: "string \<Rightarrow> int \<Rightarrow> 'm collector \<Rightarrow> 'm collector" where
  "set_gauge name v c =
     (case mc_backend c of
        NoOpMetrics \<Rightarrow> c
      | PrometheusMetrics lib m \<Rightarrow> c\<lparr>mc_backend := PrometheusMetrics lib (pm_set lib name v m)\<rparr>)"

definition inc_counter :: "string \<Rightarrow> int \<Rightarrow> 'm collector \<Rightarrow> 'm collector" where
  "inc_counter name amount c =
     (case mc_backend c of
        NoOpMetrics \<Rightarrow> c
      | PrometheusMetrics lib m \<Rightarrow> c\<lparr>mc_backend := PrometheusMetrics lib (pm_inc lib name amount m)\<rparr>)"

definition set_chain_height :: "int \<Rightarrow> 'm collector \<Rightarrow> 'm collector" where
  "set_chain_height = set_gauge ''ebc_chain_height''"

definition set_peer_count :: "int \<Rightarrow> 'm collector \<Rightarrow> 'm collector" where
  "set_peer_count = set_gauge ''ebc_peer_count''"

definition inc_blocks_accepted :: "int \<Rightarrow> 'm collector \<Rightarrow> 'm collector" where
  "inc_blocks_accepted = inc_counter ''ebc_blocks_accepted_total''"

definition inc_sync_operations :: "int \<Rightarrow> 'm collector \<Rightarrow> 'm collector" where
  "inc_sync_operations = inc_counter ''ebc_sync_operations_total''"

definition inc_pong_timeouts :: "int \<Rightarrow> 'm collector \<Rightarrow> 'm collector" where
  "inc_pong_timeouts = inc_counter ''ebc_pong_timeouts_total''"

definition render :: "'m collector \<Rightarrow> bytes" where
  "render c =
     (case mc_backend c of NoOpMetrics \<Rightarrow> [] | PrometheusMetrics lib m \<Rightarrow> pm_generate lib m)"

text \<open>\<open>Node._update_metrics\<close> and \<open>Node._check_readiness\<close>.\<close>

definition update_metrics :: "node \<Rightarrow> 'm collector \<Rightarrow> 'm collector" where
  "update_metrics n c = set_peer_count (active_peer_count (no_p2p n)) (set_chain_height (chain_height n) c)"

definition check_readiness :: "bool \<Rightarrow> node \<Rightarrow> bool" where
  "check_readiness up n \<longleftrightarrow>
     up \<and> ob_min_peers (ap_observability (no_settings n)) \<le> active_peer_count (no_p2p n)"

section \<open>Requests\<close>

datatype read_result = ReadBytes bytes | ReadTimeout | ReadBroken

datatype answer = Dropped | Answer int string string bytes | Unmodelled

definition max_header_lines :: nat where "max_header_lines = 100"
definition max_header_bytes :: nat where "max_header_bytes = 16384"

text \<open>\<open>str.split()\<close>.\<close>

fun words_from :: "string \<Rightarrow> string \<Rightarrow> string list" where
  "words_from word [] = (if word = [] then [] else [rev word])"
| "words_from word (c # cs) =
     (if is_space c then (if word = [] then [] else [rev word]) @ words_from [] cs
      else words_from (c # word) cs)"

text \<open>A header line: the item of the dict it gives, if any.\<close>

definition header_field :: "string \<Rightarrow> (string \<times> string) option" where
  "header_field line =
     (case partition_at (CHR '':'') (py_strip line) of
        (key, found, value) \<Rightarrow> if found then Some (py_lower (py_strip key), py_strip value) else None)"

definition add_field :: "string \<Rightarrow> (string \<times> string) list \<Rightarrow> (string \<times> string) list" where
  "add_field line hs = (case header_field line of Some (k, v) \<Rightarrow> AList.update k v hs | None \<Rightarrow> hs)"

datatype headers = NoHeaders | StrangeHeaders | Headers "(string \<times> string) list"

text \<open>The loop over the header lines, with what was counted so far.\<close>

fun read_headers ::
    "pyfloat \<Rightarrow> nat \<Rightarrow> nat \<Rightarrow> (string \<times> string) list \<Rightarrow> (pyfloat \<times> read_result) list \<Rightarrow> headers" where
  "read_headers deadline lines used hs [] = NoHeaders"
| "read_headers deadline lines used hs ((now, r) # reads) =
     (if max_header_lines \<le> lines \<or> max_header_bytes \<le> used then NoHeaders
      else if float_le (float_sub deadline now) (Fin 0) then NoHeaders
      else case r of
          ReadTimeout \<Rightarrow> NoHeaders
        | ReadBroken \<Rightarrow> NoHeaders
        | ReadBytes line \<Rightarrow>
            if line = [] \<or> line = [char_of (13 :: nat), char_of (10 :: nat)] \<or> line = [char_of (10 :: nat)] then Headers hs
            else if max_header_bytes < used + length line then NoHeaders
            else case utf8_decode line of
                Inl _ \<Rightarrow> StrangeHeaders
              | Inr s \<Rightarrow> read_headers deadline (Suc lines) (used + length line) (add_field s hs) reads)"

definition requires_auth :: "observability_settings \<Rightarrow> string \<Rightarrow> bool" where
  "requires_auth st path = (if \<not> ob_auth_enabled st then False else path = ob_metrics_path st)"

text \<open>The comparison of the lengths and \<open>secrets.compare_digest\<close>.\<close>

definition is_authorized :: "observability_settings \<Rightarrow> (string \<times> string) list \<Rightarrow> bool" where
  "is_authorized st hs =
     (let expected = ''Bearer '' @ ob_auth_token st;
          given = (case map_of hs ''authorization'' of None \<Rightarrow> [] | Some v \<Rightarrow> v)
      in if length given \<noteq> length expected then False else utf8_encode given = utf8_encode expected)"

definition status_body :: "string \<Rightarrow> bytes" where
  "status_body s = utf8_encode (json_dumps (PDict [(''status'', PStr s)]))"

definition route :: "observability_settings \<Rightarrow> bool \<Rightarrow> bytes \<Rightarrow> string \<Rightarrow> string \<Rightarrow> (string \<times> string) list \<Rightarrow> answer" where
  "route st up metrics verb path hs =
     (if verb \<noteq> ''GET'' then Answer 405 ''Method Not Allowed'' ''text/plain'' []
      else if requires_auth st path \<and> \<not> is_authorized st hs then Answer 401 ''Unauthorized'' ''text/plain'' []
      else if path = ob_health_path st then Answer 200 ''OK'' ''application/json'' (status_body ''ok'')
      else if path = ob_ready_path st then
        (if up then Answer 200 ''OK'' ''application/json'' (status_body ''ready'')
         else Answer 503 ''Service Unavailable'' ''application/json'' (status_body ''not_ready''))
      else if path = ob_metrics_path st then
        (if metrics = [] then Answer 503 ''Service Unavailable'' ''text/plain'' (utf8_encode ''metrics disabled'')
         else Answer 200 ''OK'' ''text/plain; version=0.0.4; charset=utf-8'' metrics)
      else Answer 404 ''Not Found'' ''text/plain'' [])"

text \<open>What the read of the first line gives.\<close>

datatype request = NoRequest | StrangeRequest | Request string string

definition request_line :: "read_result \<Rightarrow> request" where
  "request_line r =
     (case r of
        ReadTimeout \<Rightarrow> NoRequest
      | ReadBroken \<Rightarrow> NoRequest
      | ReadBytes b \<Rightarrow>
          if b = [] then NoRequest
          else case utf8_decode b of
              Inl _ \<Rightarrow> StrangeRequest
            | Inr line \<Rightarrow> (case words_from [] (py_strip line) of verb # path # _ \<Rightarrow> Request verb path | _ \<Rightarrow> NoRequest))"

text \<open>\<open>start\<close> is the time of the loop after the request line, which has a time limit of its own.\<close>

fun handle_client ::
    "observability_settings \<Rightarrow> bool \<Rightarrow> bytes \<Rightarrow> pyfloat \<Rightarrow> (pyfloat \<times> read_result) list \<Rightarrow> answer" where
  "handle_client st up metrics start [] = Dropped"
| "handle_client st up metrics start (first_read # rest) =
     (case request_line (snd first_read) of
        NoRequest \<Rightarrow> Dropped
      | StrangeRequest \<Rightarrow> Unmodelled
      | Request verb path \<Rightarrow>
          (case read_headers (float_add start (Fin 5)) 0 0 [] rest of
             NoHeaders \<Rightarrow> Dropped
           | StrangeHeaders \<Rightarrow> Unmodelled
           | Headers hs \<Rightarrow> route st up metrics verb path hs))"

text \<open>\<open>_write_response\<close>: the bytes of an answer.\<close>

definition crlf :: string where "crlf = [char_of (13 :: nat), char_of (10 :: nat)]"

definition response_bytes :: "int \<Rightarrow> string \<Rightarrow> string \<Rightarrow> bytes \<Rightarrow> bytes" where
  "response_bytes status cause ctype body =
     utf8_encode (''HTTP/1.1 '' @ show_int status @ '' '' @ cause @ crlf @
       ''Content-Type: '' @ ctype @ crlf @
       ''Content-Length: '' @ show_int (int (length body)) @ crlf @
       ''Connection: close'' @ crlf @ crlf) @ body"

section \<open>Facts\<close>

lemma authorized_iff: "is_authorized st hs \<longleftrightarrow> map_of hs ''authorization'' = Some (''Bearer '' @ ob_auth_token st)"
  by (auto simp: is_authorized_def Let_def utf8_encode_inject split: option.splits)

text \<open>A header that was read stands on one of the first lines.\<close>

lemma read_headers_step:
  assumes "read_headers deadline lines used hs ((now, r) # reads) = Headers hs'"
  obtains l where "r = ReadBytes l" "lines < max_header_lines" "hs' = hs"
  | l s where "r = ReadBytes l" "lines < max_header_lines" "utf8_decode l = Inr s"
      "read_headers deadline (Suc lines) (used + length l) (add_field s hs) reads = Headers hs'"
proof -
  from assms have room: "lines < max_header_lines" by (simp split: if_split_asm)
  from assms obtain l where r: "r = ReadBytes l" by (cases r) (simp_all split: if_split_asm)
  show ?thesis
  proof (cases "hs' = hs")
    case False
    with assms r obtain s where s: "utf8_decode l = Inr s" by (cases "utf8_decode l") (simp_all split: if_split_asm)
    with assms r False show ?thesis using that(2) [OF r room s] by (simp split: if_split_asm)
  qed (use that(1) r room in simp)
qed

lemma add_field_new: "map_of (add_field s hs) k = Some v \<Longrightarrow> map_of hs k \<noteq> Some v \<Longrightarrow> header_field s = Some (k, v)"
  by (auto simp: add_field_def update_conv' split: option.splits if_splits)

lemma read_headers_line:
  "read_headers deadline lines used hs reads = Headers hs' \<Longrightarrow> map_of hs' k = Some v \<Longrightarrow> map_of hs k \<noteq> Some v \<Longrightarrow>
   \<exists>i now l s. i < length reads \<and> lines + i < max_header_lines \<and> reads ! i = (now, ReadBytes l) \<and>
     utf8_decode l = Inr s \<and> header_field s = Some (k, v)"
proof (induction reads arbitrary: lines used hs)
  case (Cons x reads)
  obtain now r where x: "x = (now, r)" by (cases x)
  from Cons.prems(1) [unfolded x] show ?case
  proof (cases rule: read_headers_step)
    case 1
    with Cons.prems show ?thesis by simp
  next
    case (2 l s)
    show ?thesis
    proof (cases "map_of (add_field s hs) k = Some v")
      case True
      then have "header_field s = Some (k, v)" using Cons.prems(3) by (rule add_field_new)
      with x 2 show ?thesis by (intro exI [of _ 0] exI [of _ now] exI [of _ l] exI [of _ s]) simp
    next
      case False
      from Cons.IH [OF 2(4) Cons.prems(2) False] obtain i now' l' s' where
        "i < length reads" "Suc lines + i < max_header_lines" "reads ! i = (now', ReadBytes l')"
        "utf8_decode l' = Inr s'" "header_field s' = Some (k, v)" by blast
      then show ?thesis by (intro exI [of _ "Suc i"] exI [of _ now'] exI [of _ l'] exI [of _ s']) simp
    qed
  qed
qed simp

text \<open>No more lines are read than the limit allows.\<close>

lemma read_headers_bounded:
  "max_header_lines < lines + k \<Longrightarrow>
   read_headers deadline lines used hs (take k reads) = read_headers deadline lines used hs reads"
proof (induction reads arbitrary: k lines used hs)
  case (Cons x reads)
  show ?case
  proof (cases k)
    case 0
    with Cons.prems show ?thesis by (cases x) simp
  next
    case (Suc j)
    with Cons.prems have "max_header_lines < Suc lines + j" by simp
    from Cons.IH [OF this] Suc show ?thesis
      by (cases x) (simp cong: read_result.case_cong sum.case_cong if_cong)
  qed
qed simp

lemma request_bounded: "handle_client st up metrics start (take 102 reads) = handle_client st up metrics start reads"
proof (cases reads)
  case (Cons x rest)
  have "read_headers d 0 0 [] (take 101 rest) = read_headers d 0 0 [] rest" for d
    by (rule read_headers_bounded) (simp add: max_header_lines_def)
  with Cons show ?thesis by (cases "request_line (snd x)") simp_all
qed simp

section \<open>Who sees the metrics\<close>

lemma guarded_headers:
  assumes "ob_auth_enabled st"
    and "handle_client st up metrics start reads \<noteq> handle_client st up metrics' start reads"
  obtains r rest hs where "reads = r # rest" "read_headers (float_add start (Fin 5)) 0 0 [] rest = Headers hs"
    "map_of hs ''authorization'' = Some (''Bearer '' @ ob_auth_token st)"
proof -
  from assms(2) obtain r rest where reads: "reads = r # rest" by (cases reads) simp_all
  with assms(2) obtain verb path where req: "request_line (snd r) = Request verb path"
    by (cases "request_line (snd r)") simp_all
  with assms(2) reads obtain hs where hs: "read_headers (float_add start (Fin 5)) 0 0 [] rest = Headers hs"
    by (cases "read_headers (float_add start (Fin 5)) 0 0 [] rest") simp_all
  from assms(2) reads req hs have "route st up metrics verb path hs \<noteq> route st up metrics' verb path hs" by simp
  with assms(1) have "is_authorized st hs"
    by (auto simp: route_def requires_auth_def split: if_split_asm)
  then show ?thesis using that [OF reads hs] by (simp add: authorized_iff)
qed

text \<open>
  C36: With authentication on, what a client is answered depends on the metrics only if one of the
  first hundred header lines of its request carries the token, as a bearer token and nothing else;
  whatever it sends, it learns nothing about them otherwise.
\<close>

theorem metrics_guarded:
  assumes "ob_auth_enabled st"
    and "handle_client st up metrics start reads \<noteq> handle_client st up metrics' start reads"
  shows "\<exists>i now l s. 1 \<le> i \<and> i \<le> 100 \<and> i < length reads \<and> reads ! i = (now, ReadBytes l) \<and> utf8_decode l = Inr s \<and>
    header_field s = Some (''authorization'', ''Bearer '' @ ob_auth_token st)"
proof -
  obtain r rest hs where h: "reads = r # rest" "read_headers (float_add start (Fin 5)) 0 0 [] rest = Headers hs"
    "map_of hs ''authorization'' = Some (''Bearer '' @ ob_auth_token st)" using assms by (rule guarded_headers)
  from read_headers_line [OF h(2,3)] obtain i now l s where
    "i < length rest" "i < max_header_lines" "rest ! i = (now, ReadBytes l)" "utf8_decode l = Inr s"
    "header_field s = Some (''authorization'', ''Bearer '' @ ob_auth_token st)" by auto
  then show ?thesis using h(1) by (intro exI [of _ "Suc i"]) (auto simp: max_header_lines_def)
qed

definition sample_reads :: "(pyfloat \<times> read_result) list" where
  "sample_reads = [(Fin 0, ReadBytes (''GET /metrics HTTP/1.1'' @ crlf)), (Fin 0, ReadBytes (''Authorization: Bearer t'' @ crlf)),
     (Fin 0, ReadBytes crlf)]"

definition guarded_settings :: observability_settings where
  "guarded_settings = default_observability\<lparr>ob_enabled := True, ob_auth_enabled := True, ob_auth_token := ''t''\<rparr>"

lemma sample_answers:
  "handle_client guarded_settings True [] (Fin 0) sample_reads = Answer 503 ''Service Unavailable'' ''text/plain'' (utf8_encode ''metrics disabled'')"
  "handle_client guarded_settings True ''x'' (Fin 0) sample_reads =
     Answer 200 ''OK'' ''text/plain; version=0.0.4; charset=utf-8'' ''x''"
  by code_simp+

theorem metrics_guarded_witness:
  "\<exists>i now l s. 1 \<le> (i::nat) \<and> sample_reads ! i = (now, ReadBytes l) \<and> utf8_decode l = Inr s \<and>
     header_field s = Some (''authorization'', ''Bearer t'')"
proof -
  have "ob_auth_enabled guarded_settings" "ob_auth_token guarded_settings = ''t''" by (simp_all add: guarded_settings_def)
  with metrics_guarded [of guarded_settings True "[]" "Fin 0" sample_reads "''x''"] show ?thesis
    by (auto simp: sample_answers)
qed

text \<open>
  A header value is stripped before it is compared: a token that ends in white space, such as one
  read from a file with its newline, is never accepted.
\<close>

lemma stripped_value: "header_field line = Some (k, v) \<Longrightarrow> v = [] \<or> \<not> is_space (last v)"
proof -
  have "py_strip s = [] \<or> \<not> is_space (last (py_strip s))" for s
  proof -
    let ?t = "dropWhile is_space (rev (dropWhile is_space s))"
    show ?thesis using hd_dropWhile [of is_space "rev (dropWhile is_space s)"]
      by (cases "?t = []") (auto simp: py_strip_def last_rev)
  qed
  then show "header_field line = Some (k, v) \<Longrightarrow> v = [] \<or> \<not> is_space (last v)"
    by (auto simp: header_field_def split: prod.splits if_splits)
qed

lemma spaced_token_locked:
  assumes "ob_auth_enabled st" "ob_auth_token st \<noteq> []" "is_space (last (ob_auth_token st))"
  shows "handle_client st up metrics start reads = handle_client st up metrics' start reads"
proof (rule ccontr)
  assume "handle_client st up metrics start reads \<noteq> handle_client st up metrics' start reads"
  with assms(1) obtain r rest hs where "read_headers (float_add start (Fin 5)) 0 0 [] rest = Headers hs"
    "map_of hs ''authorization'' = Some (''Bearer '' @ ob_auth_token st)" by (rule guarded_headers)
  then obtain s where "header_field s = Some (''authorization'', ''Bearer '' @ ob_auth_token st)"
    using read_headers_line by fastforce
  with stripped_value [OF this] assms(2,3) show False by auto
qed

end
