(* ===== verification/Local_Url.thy ===== *)
theory Local_Url
  imports Peer_Url P2P_Server
begin

text \<open>
  \<open>network/server.py\<close> and \<open>network/peer.py\<close>: the URL under which a node is known to others, the
  address of a client, and what a dial asks of the web socket library.  The main fact is a round
  trip: a peer that parses the advertised URL finds the host and the port it was made of.
\<close>

section \<open>The advertised URL\<close>

text \<open>The property \<open>local_url\<close>; the port is the one the server listens on.\<close>

definition bound_host :: "string \<Rightarrow> string" where
  "bound_host raw =
     (if raw = ''0.0.0.0'' \<or> raw = [] then ''127.0.0.1''
      else if raw = ''::'' then ''::1''
      else raw)"

definition display_host :: "string \<Rightarrow> string" where
  "display_host h = (case ip_address h of Some (V6 _ _) \<Rightarrow> CHR ''['' # h @ '']'' | _ \<Rightarrow> h)"

definition local_url :: "network_settings \<Rightarrow> int \<Rightarrow> string" where
  "local_url nw port =
     websocket_scheme (tls_enabled (nw_tls nw)) @ ''://'' @ display_host (bound_host (nw_host nw)) @
       '':'' @ show_int port"

text \<open>The port of the first socket, else the configured one.\<close>

definition listening_port :: "network_settings \<Rightarrow> int list \<Rightarrow> int" where
  "listening_port nw ports = (case ports of [] \<Rightarrow> nw_port nw | p # _ \<Rightarrow> p)"

text \<open>\<open>_client_ip\<close>: the first part of the remote address of a web socket.\<close>

definition client_ip :: "string option \<Rightarrow> string" where
  "client_ip remote = (case remote of None \<Rightarrow> ''unknown'' | Some host \<Rightarrow> host)"

section \<open>The call that dials\<close>

text \<open>\<open>connect_to_peer\<close>: the arguments of \<open>websockets.connect\<close>.\<close>

record connect_call =
  cc_url :: string
  cc_max_size :: int
  cc_ssl :: "ssl_context option"
  cc_host :: "string option"
  cc_port :: "int option"

definition connect_arguments ::
    "string \<Rightarrow> int \<Rightarrow> ssl_context option \<Rightarrow> connect_target option \<Rightarrow> connect_call" where
  "connect_arguments url max_size ssl target =
     \<lparr>cc_url = (case target of Some t \<Rightarrow> ct_url t | None \<Rightarrow> url), cc_max_size = max_size, cc_ssl = ssl,
      cc_host = map_option ct_host target, cc_port = map_option ct_port target\<rparr>"

text \<open>What \<open>connect_peer\<close> does before it waits for the connection.\<close>

definition dial_call ::
    "resolver \<Rightarrow> (string \<Rightarrow> bool) \<Rightarrow> string \<Rightarrow> p2p_server \<Rightarrow> connect_call option" where
  "dial_call gai is_file url sv =
     (if \<not> may_connect url sv then None
      else case resolve_peer_connect_target gai url (sv_settings sv) (sv_environment sv) of
          None \<Rightarrow> None
        | Some target \<Rightarrow>
            (let call = (\<lambda>ssl. connect_arguments url (nw_max_message_bytes (sv_settings sv)) ssl (Some target)) in
             if starts_with url ''wss://''
             then (case build_client_ssl_context is_file (nw_tls (sv_settings sv)) of
                     Inl _ \<Rightarrow> None
                   | Inr ssl \<Rightarrow> Some (call (Some ssl)))
             else Some (call None)))"

text \<open>
  Under verified TLS, and in production, every connection is dialled with the certificate
  authority of the settings; always, to the address that was checked.
\<close>

lemma dial_call_pinned:
  assumes "dial_call gai is_file url sv = Some call"
  shows "\<exists>t. resolve_peer_connect_target gai url (sv_settings sv) (sv_environment sv) = Some t \<and>
    cc_url call = url \<and> cc_host call = Some (ct_host t) \<and> cc_port call = Some (ct_port t)"
proof -
  from assms obtain t ssl where "resolve_peer_connect_target gai url (sv_settings sv) (sv_environment sv) = Some t"
    "call = connect_arguments url (nw_max_message_bytes (sv_settings sv)) ssl (Some t)"
    by (auto simp: dial_call_def Let_def split: if_splits option.splits sum.splits)
  moreover from this(1) have "ct_url t = url"
    by (auto simp: resolve_peer_connect_target_def Let_def split: option.splits if_splits)
  ultimately show ?thesis by (auto simp: connect_arguments_def)
qed

lemma dial_call_verified:
  assumes "dial_call gai is_file url sv = Some call" "tls_verify_peer (nw_tls (sv_settings sv))"
    and "tls_enabled (nw_tls (sv_settings sv)) \<or> sv_environment sv = Production"
  shows "cc_ssl call = Some (ClientVerified (tls_ca_file (nw_tls (sv_settings sv))))"
proof -
  from assms(1) obtain t where t: "resolve_peer_connect_target gai url (sv_settings sv) (sv_environment sv) = Some t"
    by (auto simp: dial_call_def split: if_splits option.splits)
  then obtain u where "parse_peer_url url (sv_settings sv) (sv_environment sv) = Some u"
    by (auto simp: resolve_peer_connect_target_def split: option.splits)
  from parse_peer_url_encrypted [OF this assms(3)] have wss: "starts_with url ''wss://''" .
  with assms(1,2) t show ?thesis
    by (auto simp: dial_call_def Let_def connect_arguments_def build_client_ssl_context_def
        split: if_splits sum.splits)
qed

section \<open>Parsing a URL of host and port\<close>

text \<open>A character that has no meaning of its own in a URL.\<close>

definition inert :: "char \<Rightarrow> bool" where
  "inert c \<longleftrightarrow> 32 < code c \<and> c \<notin> set ''/?#[]@%''"

definition bracket_or_inert :: "char \<Rightarrow> bool" where
  "bracket_or_inert c \<longleftrightarrow> inert c \<or> c = CHR ''['' \<or> c = CHR '']''"

lemma not_inert:
  "\<not> inert CHR ''/''" "\<not> inert CHR ''?''" "\<not> inert CHR ''#''" "\<not> inert CHR ''[''"
  "\<not> inert CHR '']''" "\<not> inert CHR ''@''" "\<not> inert CHR ''%''"
  by code_simp+

lemma inert_free: "list_all inert s \<Longrightarrow> \<not> inert c \<Longrightarrow> c \<notin> set s"
  by (auto simp: list_all_iff)

lemma not_bracket:
  "\<not> bracket_or_inert CHR ''/''" "\<not> bracket_or_inert CHR ''?''" "\<not> bracket_or_inert CHR ''#''"
  "\<not> bracket_or_inert CHR ''@''"
  by code_simp+

lemma bracket_free: "list_all bracket_or_inert s \<Longrightarrow> \<not> bracket_or_inert c \<Longrightarrow> c \<notin> set s"
  by (auto simp: list_all_iff)

lemma printable: "bracket_or_inert c \<Longrightarrow> 32 < code c"
  by (auto simp: bracket_or_inert_def inert_def)

lemma split_scheme_ws:
  "split_scheme (''ws://'' @ r) = (''ws'', ''//'' @ r)" "split_scheme (''wss://'' @ r) = (''wss'', ''//'' @ r)"
  by (simp_all add: split_scheme_def partition_at_def scheme_char_def is_digit_def py_lower_def)

lemma clean_url:
  assumes "list_all (\<lambda>c. 32 < code c) url"
  shows "filter (\<lambda>c. code c \<notin> {9, 10, 13}) (dropWhile (\<lambda>c. code c \<le> 32) url) = url"
proof -
  have "dropWhile (\<lambda>c. code c \<le> 32) url = url" using assms by (cases url) simp_all
  moreover have "filter (\<lambda>c. code c \<notin> {9, 10, 13}) url = url"
    using assms by (intro filter_True) (auto simp: list_all_iff)
  ultimately show ?thesis by (simp only:)
qed

lemma split_netloc_all:
  assumes "list_all bracket_or_inert netloc"
  shows "split_netloc (''//'' @ netloc) = (netloc, [])"
proof -
  let ?stop = "\<lambda>c. c \<in> {CHR ''/'', CHR ''?'', CHR ''#''}"
  have "\<forall>c\<in>set netloc. \<not> ?stop c"
    using bracket_free [OF assms] not_bracket by blast
  then have "takeWhile (\<lambda>c. \<not> ?stop c) netloc = netloc" "dropWhile (\<lambda>c. \<not> ?stop c) netloc = []"
    by (simp_all only: takeWhile_eq_all_conv dropWhile_eq_Nil_conv)
  then show ?thesis by (simp add: split_netloc_def Let_def)
qed

lemma url_of_netloc:
  assumes "list_all bracket_or_inert netloc" "netloc_ok netloc"
  shows "urlparse (websocket_scheme tls @ ''://'' @ netloc) =
    Some \<lparr>ur_scheme = websocket_scheme tls, ur_netloc = netloc, ur_path = [], ur_query = [], ur_fragment = []\<rparr>"
proof -
  let ?url = "websocket_scheme tls @ ''://'' @ netloc"
  have "list_all (\<lambda>c. 32 < code c) netloc"
    using assms(1) printable by (simp only: list_all_iff) blast
  then have "list_all (\<lambda>c. 32 < code c) ?url" by (cases tls) (simp_all add: websocket_scheme_def)
  note clean = clean_url [OF this]
  have scheme: "split_scheme ?url = (websocket_scheme tls, ''//'' @ netloc)"
    using split_scheme_ws [of netloc] by (cases tls) (simp_all add: websocket_scheme_def)
  show ?thesis
    unfolding urlparse_def Let_def clean scheme
    by (simp only: prod.case split_netloc_all [OF assms(1)] assms(2)) (simp add: partition_at_def)
qed

lemma after_last_none: "c \<notin> set s \<Longrightarrow> after_last c s = s \<and> before_last c s = []"
proof -
  assume "c \<notin> set s"
  then have "\<forall>d\<in>set (rev s). d \<noteq> c" by auto
  then have "takeWhile (\<lambda>d. d \<noteq> c) (rev s) = rev s" "dropWhile (\<lambda>d. d \<noteq> c) (rev s) = []"
    by (simp_all only: takeWhile_eq_all_conv dropWhile_eq_Nil_conv)
  then show ?thesis by (simp only: after_last_def before_last_def) simp
qed

lemma host_info_plain:
  assumes "list_all inert (host @ CHR '':'' # port)" "CHR '':'' \<notin> set host"
  shows "host_info (host @ CHR '':'' # port) = (host, port)"
proof -
  note free = inert_free [OF assms(1)]
  show ?thesis
    unfolding host_info_def Let_def after_last_none [OF free [OF not_inert(6)], THEN conjunct1]
      partition_none [OF free [OF not_inert(4)]] partition_found [OF assms(2)] by simp
qed

lemma host_info_bracketed:
  assumes "list_all inert (host @ CHR '':'' # port)"
  shows "host_info (CHR ''['' # host @ '']:'' @ port) = (host, port)"
proof -
  let ?n = "CHR ''['' # host @ '']:'' @ port"
  from assms have inert: "list_all inert host" "list_all inert port" by simp_all
  have "CHR ''@'' \<notin> set ?n"
    using inert_free [OF inert(1) not_inert(6)] inert_free [OF inert(2) not_inert(6)] by simp
  note last = after_last_none [OF this, THEN conjunct1]
  have "partition_at CHR ''['' ?n = ([], True, host @ '']:'' @ port)"
    using partition_found [of "CHR ''[''" "[]" "host @ '']:'' @ port"] by simp
  moreover have "partition_at CHR '']'' (host @ '']:'' @ port) = (host, True, CHR '':'' # port)"
    using partition_found [OF inert_free [OF inert(1) not_inert(5)], of "CHR '':'' # port"] by simp
  moreover have "partition_at CHR '':'' (CHR '':'' # port) = ([], True, port)"
    using partition_found [of "CHR '':''" "[]" port] by simp
  ultimately show ?thesis unfolding host_info_def Let_def last by simp
qed

section \<open>The round trip\<close>

text \<open>A host that is a name or an IPv4 address, or an IPv6 address without a scope.\<close>

definition name_char :: "char \<Rightarrow> bool" where
  "name_char c \<longleftrightarrow> (97 \<le> code c \<and> code c \<le> 122) \<or> (65 \<le> code c \<and> code c \<le> 90) \<or> is_digit c \<or> c \<in> set ''-._''"

definition hex_char :: "char \<Rightarrow> bool" where
  "hex_char c \<longleftrightarrow> hex_val c \<noteq> None \<or> c \<in> set '':.''"

definition plain_host :: "string \<Rightarrow> bool" where
  "plain_host h = (case ip_address h of Some (V6 _ _) \<Rightarrow> list_all hex_char h | _ \<Rightarrow> list_all name_char h)"

lemma printable_chars: "name_char c \<Longrightarrow> 32 < code c" "hex_char c \<Longrightarrow> 32 < code c" "is_digit c \<Longrightarrow> 32 < code c"
  by (auto simp: name_char_def hex_char_def is_digit_def hex_val_def split: if_splits)

lemma no_marks:
  "list_all (\<lambda>d. \<not> name_char d) ''/?#[]@%:''" "list_all (\<lambda>d. \<not> hex_char d) ''/?#[]@%v''"
  "list_all (\<lambda>d. \<not> is_digit d) ''/?#[]@%:''"
  by code_simp+

lemma name_char_inert: "name_char c \<Longrightarrow> inert c \<and> c \<noteq> CHR '':''"
  using no_marks(1) printable_chars(1) [of c] by (auto simp: inert_def)

lemma hex_char_inert: "hex_char c \<Longrightarrow> inert c \<and> c \<noteq> CHR ''v''"
  using no_marks(2) printable_chars(2) [of c] by (auto simp: inert_def)

lemma digit_inert: "is_digit c \<Longrightarrow> inert c"
  using no_marks(3) printable_chars(3) [of c] by (auto simp: inert_def)

lemma list_all_imp: "list_all P xs \<Longrightarrow> (\<And>x. P x \<Longrightarrow> Q x) \<Longrightarrow> list_all Q xs"
  by (simp add: list_all_iff)

lemma show_port: "0 \<le> port \<Longrightarrow> port \<le> 65535 \<Longrightarrow>
   show_int port = show_nat (nat port) \<and> length (show_nat (nat port)) \<le> 5"
  using show_nat_length [of "nat port" 5] by (simp add: show_int_def nat_less_iff)

text \<open>The text between the scheme and the end of an advertised URL.\<close>

lemma advertised_netloc:
  assumes "plain_host h" "0 \<le> port" "port \<le> 65535"
  defines "netloc \<equiv> display_host h @ '':'' @ show_int port"
  shows "list_all bracket_or_inert netloc \<and> netloc_ok netloc \<and> host_info netloc = (h, show_int port) \<and> list_all inert h"
proof -
  have "inert CHR '':''" by code_simp
  moreover have "list_all inert (show_int port)"
    using show_port [OF assms(2,3)] list_all_imp [OF show_nat_digits digit_inert] by simp
  ultimately have port: "list_all inert (CHR '':'' # show_int port)" by simp
  show ?thesis
  proof (cases "\<exists>w s. ip_address h = Some (V6 w s)")
    case True
    then obtain w s where v6: "ip_address h = Some (V6 w s)" by blast
    with assms(1) have chars: "list_all hex_char h" by (simp add: plain_host_def)
    then have h: "list_all inert h" using hex_char_inert by (auto simp only: elim: list_all_imp)
    with port have all: "list_all inert (h @ CHR '':'' # show_int port)" by simp
    from v6 have netloc: "netloc = CHR ''['' # h @ '']:'' @ show_int port" by (simp add: netloc_def display_host_def)
    have "bracketed_host_ok h"
    proof (cases h)
      case (Cons c cs)
      with chars hex_char_inert [of c] have "c \<noteq> CHR ''v''" by simp
      then have "bracketed_host_ok (c # cs) = (case ip_address (c # cs) of Some (V6 _ _) \<Rightarrow> True | _ \<Rightarrow> False)"
        unfolding bracketed_host_ok_def by (auto split: char.split bool.split)
      with Cons v6 show ?thesis by simp
    qed (use v6 in \<open>simp add: bracketed_host_ok_def\<close>)
    moreover have "partition_at CHR ''['' netloc = ([], True, h @ '']:'' @ show_int port)"
      using partition_found [of "CHR ''[''" "[]" "h @ '']:'' @ show_int port"] by (simp add: netloc)
    moreover have "partition_at CHR '']'' (h @ '']:'' @ show_int port) = (h, True, CHR '':'' # show_int port)"
      using partition_found [OF inert_free [OF h not_inert(5)], of "CHR '':'' # show_int port"] by simp
    ultimately have "netloc_ok netloc" unfolding netloc_ok_def by (simp add: netloc)
    moreover have "list_all bracket_or_inert netloc"
      using list_all_imp [OF h] list_all_imp [OF port] by (auto simp: netloc bracket_or_inert_def)
    ultimately show ?thesis using host_info_bracketed [OF all] h by (simp add: netloc)
  next
    case False
    with assms(1) have chars: "list_all name_char h" by (auto simp: plain_host_def split: option.splits ip.splits)
    then have h: "list_all inert h" and colon: "CHR '':'' \<notin> set h"
      using name_char_inert by (auto simp only: list_all_iff)
    with port have all: "list_all inert (h @ CHR '':'' # show_int port)" by simp
    from False have netloc: "netloc = h @ CHR '':'' # show_int port"
      by (auto simp: netloc_def display_host_def split: option.splits ip.splits)
    have "netloc_ok netloc"
      using inert_free [OF all not_inert(4)] inert_free [OF all not_inert(5)] by (simp add: netloc_ok_def netloc)
    moreover have "list_all bracket_or_inert netloc"
      using all unfolding netloc by (rule list_all_imp) (simp add: bracket_or_inert_def)
    ultimately show ?thesis using host_info_plain [OF all colon] h by (simp add: netloc)
  qed
qed

lemma local_url_parses:
  assumes "plain_host (bound_host (nw_host nw))" "0 \<le> port" "port \<le> 65535"
  shows "\<exists>u. urlparse (local_url nw port) = Some u \<and> ur_scheme u = websocket_scheme (tls_enabled (nw_tls nw)) \<and>
    url_hostname u = py_lower (bound_host (nw_host nw)) \<and> url_port u = Some (Some (nat port)) \<and>
    ur_path u = [] \<and> ur_query u = [] \<and> ur_fragment u = [] \<and> \<not> has_userinfo u"
proof -
  let ?h = "bound_host (nw_host nw)" and ?scheme = "websocket_scheme (tls_enabled (nw_tls nw))"
  let ?netloc = "display_host ?h @ '':'' @ show_int port"
  let ?u = "\<lparr>ur_scheme = ?scheme, ur_netloc = ?netloc, ur_path = [], ur_query = [], ur_fragment = []\<rparr>"
  note net = advertised_netloc [OF assms]
  from net have net: "list_all bracket_or_inert ?netloc" "netloc_ok ?netloc" "host_info ?netloc = (?h, show_int port)"
    "list_all inert ?h" by blast+
  have "urlparse (?scheme @ ''://'' @ ?netloc) = Some ?u" by (rule url_of_netloc [OF net(1,2)])
  then have "urlparse (local_url nw port) = Some ?u" by (simp add: local_url_def)
  moreover have "url_hostname ?u = py_lower ?h"
    using net(3) partition_none [OF inert_free [OF net(4) not_inert(7)]] by (simp add: url_hostname_def)
  moreover have "url_port ?u = Some (Some (nat port))"
    using net(3) show_port [OF assms(2,3)] show_nat_digits assms(3) by (auto simp: url_port_def Let_def)
  moreover have "\<not> has_userinfo ?u"
  proof -
    from after_last_none [OF bracket_free [OF net(1) not_bracket(4)]] show ?thesis by (simp add: has_userinfo_def partition_none)
  qed
  ultimately show ?thesis by (intro exI [of _ ?u]) simp
qed

text \<open>A peer under the same TLS setting takes the URL as a peer URL.\<close>

lemma local_url_accepted:
  assumes "plain_host (bound_host (nw_host nw))" "0 \<le> port" "port \<le> 65535"
    and "tls_enabled (nw_tls st) = tls_enabled (nw_tls nw)" "tls_enabled (nw_tls st) \<or> env = Development"
  shows "\<exists>u. parse_peer_url (local_url nw port) st env = Some u \<and>
    url_hostname u = py_lower (bound_host (nw_host nw)) \<and> url_port u = Some (Some (nat port))"
proof -
  from local_url_parses [OF assms(1-3)] obtain u where u:
    "urlparse (local_url nw port) = Some u" "ur_scheme u = websocket_scheme (tls_enabled (nw_tls nw))"
    "url_hostname u = py_lower (bound_host (nw_host nw))" "url_port u = Some (Some (nat port))"
    "ur_path u = []" "ur_query u = []" "ur_fragment u = []" "\<not> has_userinfo u" by blast
  have "local_url nw port \<noteq> []" "url_scheme_matches_tls (local_url nw port) (tls_enabled (nw_tls st))"
    using assms(4) by (auto simp: local_url_def websocket_scheme_def url_scheme_matches_tls_def starts_with_def)
  moreover have "bound_host (nw_host nw) \<noteq> []" by (auto simp: bound_host_def)
  ultimately show ?thesis using u assms(4,5)
    by (auto simp: parse_peer_url_def Let_def websocket_scheme_def py_lower_def rejects_plain_websocket_def)
qed

end
