(* ===== verification/Mdns.thy ===== *)
theory Mdns
  imports Local_Url Discovery Transitions Py_Json
begin

text \<open>
  \<open>network/discovery.py\<close>: discovery by mDNS.  The package \<open>zeroconf\<close> is outside; what it reports is
  an argument of each step.  The resolver threads, the browser's calls and the event loop interleave
  at the points where they wait, or take the lock of the known peers.
\<close>

section \<open>TXT records\<close>

text \<open>Keys and values of the properties are bytes, texts or \<open>None\<close>.\<close>

datatype txt_item = TxtBytes bytes | TxtStr string | TxtNone

text \<open>
  \<open>bytes.decode("utf-8", errors="ignore")\<close>, as code points: invalid bytes are dropped, the longest
  beginning of a character at a time.
\<close>

definition utf8_cont :: "nat \<Rightarrow> bool" where
  "utf8_cont b \<longleftrightarrow> 128 \<le> b \<and> b < 192"

text \<open>How many bytes follow, and what the first of them may be.\<close>

definition utf8_lead :: "nat \<Rightarrow> (nat \<times> nat \<times> nat) option" where
  "utf8_lead b =
     (if 194 \<le> b \<and> b \<le> 223 then Some (1, 128, 191)
      else if b = 224 then Some (2, 160, 191)
      else if b = 237 then Some (2, 128, 159)
      else if 225 \<le> b \<and> b \<le> 239 then Some (2, 128, 191)
      else if b = 240 then Some (3, 144, 191)
      else if 241 \<le> b \<and> b \<le> 243 then Some (3, 128, 191)
      else if b = 244 then Some (3, 128, 143)
      else None)"

text \<open>The continuation bytes there are, at most \<open>k\<close> of them.\<close>

definition utf8_tail :: "nat \<Rightarrow> nat \<Rightarrow> nat \<Rightarrow> nat list \<Rightarrow> nat list" where
  "utf8_tail k low high bs =
     (case bs of
        [] \<Rightarrow> []
      | c # cs \<Rightarrow> if low \<le> c \<and> c \<le> high then c # takeWhile utf8_cont (take (k - 1) cs) else [])"

fun utf8_ignore :: "nat list \<Rightarrow> nat list" where
  "utf8_ignore [] = []"
| "utf8_ignore (b # bs) =
     (if b < 128 then b # utf8_ignore bs
      else case utf8_lead b of
          None \<Rightarrow> utf8_ignore bs
        | Some (k, low, high) \<Rightarrow>
            let tail = utf8_tail k low high bs; rest = utf8_ignore (drop (length tail) bs) in
            if length tail = k then foldl (\<lambda>n c. 64 * n + c mod 64) (b mod 2 ^ (6 - k)) tail # rest
            else rest)"

text \<open>\<open>_mdns_tls_enabled\<close>.\<close>

definition mdns_tls_enabled :: "(txt_item \<times> txt_item) list option \<Rightarrow> bool" where
  "mdns_tls_enabled properties =
     (case properties of
        None \<Rightarrow> False
      | Some [] \<Rightarrow> False
      | Some (p # ps) \<Rightarrow>
          (case (case map_of (p # ps) (TxtBytes ''tls'') of
                   Some v \<Rightarrow> v
                 | None \<Rightarrow> (case map_of (p # ps) (TxtStr ''tls'') of Some v \<Rightarrow> v | None \<Rightarrow> TxtNone)) of
             TxtBytes b \<Rightarrow> utf8_ignore (map of_char b) = [49]
           | TxtStr s \<Rightarrow> s = ''1''
           | TxtNone \<Rightarrow> False))"

section \<open>Addresses in bytes\<close>

definition word_bytes :: "32 word \<Rightarrow> bytes" where
  "word_bytes w = map char_of (octets_of w)"

text \<open>\<open>socket.inet_ntoa\<close>, \<open>None\<close> for the \<open>OSError\<close> of another length.\<close>

definition inet_ntoa :: "bytes \<Rightarrow> string option" where
  "inet_ntoa b = (if length b = 4 then Some (join ''.'' (map (\<lambda>c. show_nat (of_char c)) b)) else None)"

text \<open>\<open>socket.inet_aton\<close>: one to four numbers, decimal, octal or hexadecimal; the last one fills up.\<close>

definition c_number :: "string \<Rightarrow> nat option" where
  "c_number s =
     (let value = (\<lambda>base ds. foldl (\<lambda>n d. base * n + d) 0 ds) in
      case s of
        [] \<Rightarrow> None
      | c # cs \<Rightarrow>
          if \<not> is_digit c then None
          else if c = CHR ''0'' \<and> take 1 cs \<in> {''x'', ''X''}
          then (if drop 1 cs = [] then None else map_option (value 16) (those (map hex_val (drop 1 cs))))
          else if list_all is_digit s \<and> (c \<noteq> CHR ''0'' \<or> list_all (\<lambda>d. digit_val d < 8) s)
          then Some (value (if c = CHR ''0'' then 8 else 10) (map digit_val s))
          else None)"

definition c_space :: "char \<Rightarrow> bool" where
  "c_space c \<longleftrightarrow> code c = 32 \<or> (9 \<le> code c \<and> code c \<le> 13)"

definition inet_aton :: "string \<Rightarrow> bytes option" where
  "inet_aton s =
     (let parts = py_split CHR ''.'' (takeWhile (\<lambda>c. \<not> c_space c) s) in
      if 4 < length parts then None
      else case those (map c_number parts) of
          None \<Rightarrow> None
        | Some ns \<Rightarrow>
            if list_all (\<lambda>n. n < 256) (butlast ns) \<and> last ns < 256 ^ (5 - length ns)
            then Some (word_bytes (of_nat (foldl (\<lambda>v (i, n). v + n * 256 ^ (3 - i)) 0
                   (List.enumerate 0 (butlast ns)) + last ns)))
            else None)"

section \<open>The node's own service\<close>

record service_info =
  si_addresses :: "bytes list"
  si_port :: "int option"
  si_properties :: "(txt_item \<times> txt_item) list option"

text \<open>\<open>_register_self\<close>: the name and the service that is registered, if any.\<close>

definition register_self :: "network_settings \<Rightarrow> string \<Rightarrow> (string \<times> service_info) option res" where
  "register_self nw url =
     (case urlparse url of
        None \<Rightarrow> Inl ValueError
      | Some u \<Rightarrow>
          (case url_port u of
             None \<Rightarrow> Inl ValueError
           | Some port \<Rightarrow>
               if url_hostname u = [] \<or> port = None \<or> port = Some 0 then Inr None
               else case inet_aton (url_hostname u) of
                   None \<Rightarrow> Inr None
                 | Some address \<Rightarrow>
                     Inr (Some (''easyblockchain-'' @ url_hostname u @ ''-'' @ show_nat (the port) @ ''.'' @
                            nw_mdns_service_name nw,
                          \<lparr>si_addresses = [address], si_port = map_option int port,
                           si_properties = Some [(TxtStr ''tls'', TxtStr (if tls_enabled (nw_tls nw) then ''1'' else ''0''))]\<rparr>))))"

text \<open>Others receive the properties as bytes.\<close>

definition txt_wire :: "txt_item \<Rightarrow> txt_item" where
  "txt_wire t = (case t of TxtStr s \<Rightarrow> TxtBytes (utf8_encode s) | _ \<Rightarrow> t)"

definition received_info :: "service_info \<Rightarrow> service_info" where
  "received_info i = i\<lparr>si_properties := map_option (map (map_prod txt_wire txt_wire)) (si_properties i)\<rparr>"

section \<open>Resolving a service\<close>

definition service_url :: "service_info \<Rightarrow> string res" where
  "service_url i =
     (case si_addresses i of
        [] \<Rightarrow> Inl IndexError
      | a # _ \<Rightarrow>
          (case inet_ntoa a of
             None \<Rightarrow> Inl OSError
           | Some host \<Rightarrow>
               Inr (websocket_scheme (mdns_tls_enabled (si_properties i)) @ ''://'' @ host @ '':'' @
                    (case si_port i of Some p \<Rightarrow> show_int p | None \<Rightarrow> ''None''))))"

text \<open>
  The body of the loop of \<open>_resolve_mdns_services\<close> up to the call of \<open>add_peer\<close>: the URL to add, if
  any.  What \<open>get_service_info\<close> answers may be an exception; every exception is only logged.
\<close>

definition checked_service ::
    "resolver \<Rightarrow> network_settings \<Rightarrow> environment \<Rightarrow> bool \<Rightarrow> service_info option res \<Rightarrow> string option" where
  "checked_service gai nw env stopped answer =
     (case answer of
        Inr (Some i) \<Rightarrow>
          if si_addresses i = [] \<or> stopped then None
          else (case service_url i of
                  Inl _ \<Rightarrow> None
                | Inr url \<Rightarrow> if validate_peer_url gai url nw env \<noteq> None then Some url else None)
      | _ \<Rightarrow> None)"

section \<open>The advertisement and the URL\<close>

lemma show_octet_number: "n < 256 \<Longrightarrow> c_number (show_nat n) = Some n"
proof -
  assume n: "n < 256"
  obtain c cs where c: "show_nat n = c # cs" by (cases "show_nat n") simp_all
  have digits: "list_all is_digit (c # cs)" using show_nat_digits [of n] c by simp
  have decimal: "foldl (\<lambda>k d. 10 * k + d) 0 (map digit_val (c # cs)) = n"
    using parse_show_nat [of n] by (simp add: c parse_nat_def foldl_map)
  have "c = CHR ''0'' \<Longrightarrow> n = 0" using show_nat_hd [of n] c by auto
  moreover have "show_nat 0 = ''0''" by code_simp
  moreover have "c_number ''0'' = Some 0" by code_simp
  ultimately show ?thesis using digits decimal c by (cases "n = 0") (auto simp: c_number_def Let_def)
qed

lemma word_of_octets: "foldl (\<lambda>v (i, n). v + n * 256 ^ (3 - i)) 0 (List.enumerate 0 (butlast (octets_of w))) + last (octets_of w) = unat w"
proof -
  have "unat w div 16777216 * 256 + unat w div 65536 mod 256 = unat w div 65536"
    "unat w div 65536 * 256 + unat w div 256 mod 256 = unat w div 256"
    using div_mult_mod_eq [of "unat w div 65536" 256] div_mult_mod_eq [of "unat w div 256" 256]
    by (simp_all add: div_div_nat)
  moreover have "unat w div 256 * 256 + unat w mod 256 = unat w" by simp
  ultimately have "unat w div 16777216 * 16777216 + unat w div 65536 mod 256 * 65536 + unat w div 256 mod 256 * 256 + unat w mod 256 = unat w"
    by linarith
  then show ?thesis by (simp add: octets_of_div)
qed

lemma aton_address: "inet_aton (str_ip (V4 w)) = Some (word_bytes w)"
proof -
  let ?t = "join ''.'' (map show_nat (octets_of w))"
  have no: "CHR ''.'' \<notin> set (show_nat n)" for n using show_nat_no by (simp add: is_digit_def)
  have chars: "c \<in> set ?t \<Longrightarrow> is_digit c \<or> c = CHR ''.''" for c
    using show_nat_digits by (auto simp: octets_of_def list_all_iff)
  have "\<not> c_space c" if "c \<in> set ?t" for c using chars [OF that] by (auto simp: is_digit_def c_space_def)
  then have words: "takeWhile (\<lambda>c. \<not> c_space c) ?t = ?t" by (simp only: takeWhile_eq_all_conv) blast
  have "py_split CHR ''.'' ?t = map show_nat (octets_of w)"
    by (rule py_split_join) (simp_all add: octets_of_def no)
  moreover have "those (map c_number (map show_nat (octets_of w))) = Some (octets_of w)"
    using octets_small [of w] by (simp add: octets_of_def show_octet_number del: unsigned_and_eq)
  moreover have "length (octets_of w) = 4" "list_all (\<lambda>n. n < 256) (butlast (octets_of w))" "last (octets_of w) < 256"
    using octets_small [of w] by (simp_all add: octets_of_def del: unsigned_and_eq)
  ultimately show ?thesis by (simp add: inet_aton_def Let_def str_ip_def words word_of_octets)
qed

lemma ntoa_address: "inet_ntoa (word_bytes w) = Some (str_ip (V4 w))"
proof -
  have "map (\<lambda>c. show_nat (of_char c)) (word_bytes w) = map show_nat (octets_of w)"
    using octets_small [of w] by (auto simp: word_bytes_def list_all_iff)
  then show ?thesis by (simp add: inet_ntoa_def str_ip_def word_bytes_def octets_of_def)
qed

lemma address_text: "list_all name_char (str_ip (V4 w))" "py_lower (str_ip (V4 w)) = str_ip (V4 w)"
proof -
  have chars: "c \<in> set (str_ip (V4 w)) \<Longrightarrow> is_digit c \<or> c = CHR ''.''" for c
    using show_nat_digits by (auto simp: str_ip_def octets_of_def list_all_iff)
  then show "list_all name_char (str_ip (V4 w))" by (auto simp: list_all_iff name_char_def)
  show "py_lower (str_ip (V4 w)) = str_ip (V4 w)"
    unfolding py_lower_def using chars by (intro map_idI) (fastforce simp: is_digit_def)
qed

lemma tls_flag:
  "mdns_tls_enabled (Some [(TxtBytes (utf8_encode ''tls''), TxtBytes (utf8_encode ''1''))])"
  "\<not> mdns_tls_enabled (Some [(TxtBytes (utf8_encode ''tls''), TxtBytes (utf8_encode ''0''))])"
  by code_simp+

text \<open>What a node with an IPv4 address advertises leads others to exactly its URL.\<close>

lemma advertised_url_found:
  assumes "bound_host (nw_host nw) = str_ip (V4 w)" "0 < port" "port \<le> 65535"
  shows "\<exists>name i. register_self nw (local_url nw port) = Inr (Some (name, i)) \<and>
    service_url (received_info i) = Inr (local_url nw port)"
proof -
  let ?h = "str_ip (V4 w)"
  have plain: "plain_host ?h" by (simp add: plain_host_def ip_address_str_v4 address_text)
  from local_url_parses [of nw port] plain assms obtain u where u: "urlparse (local_url nw port) = Some u"
    "url_hostname u = ?h" "url_port u = Some (Some (nat port))" by (auto simp: address_text(2))
  moreover have "local_url nw port = websocket_scheme (tls_enabled (nw_tls nw)) @ ''://'' @ ?h @ '':'' @ show_int port"
    by (simp add: local_url_def assms(1) display_host_def ip_address_str_v4)
  moreover have "?h \<noteq> []" by (simp add: str_ip_def octets_of_def)
  ultimately show ?thesis using assms(2)
    by (simp add: tls_flag register_self_def aton_address received_info_def txt_wire_def service_url_def ntoa_address)
qed

text \<open>
  With the default settings that URL has the loopback address, which others refuse under the
  default settings: the advertisement of a node that listens on all interfaces is of no use.
\<close>

lemma default_port_text: "show_int 8765 = ''8765''"
  by (simp add: show_int_def show_nat.simps digit_char_def) code_simp

lemma default_advert_refused:
  "local_url default_network 8765 = ''ws://127.0.0.1:8765'' \<and>
   validate_peer_url gai (local_url default_network 8765) default_network Development = None"
proof -
  have url: "local_url default_network 8765 = ''ws://127.0.0.1:8765''"
    by (simp add: local_url_def bound_host_def display_host_def default_network_def default_tls_def websocket_scheme_def
        ip_eval default_port_text)
  have "parse_peer_url ''ws://127.0.0.1:8765'' default_network Development =
     Some \<lparr>ur_scheme = ''ws'', ur_netloc = ''127.0.0.1:8765'', ur_path = [], ur_query = [], ur_fragment = []\<rparr>"
    by (simp add: parse_peer_url_def url_eval ip_eval default_network_def default_tls_def)
  moreover have "resolve_peer_ips gai ''127.0.0.1'' = [V4 0x7F000001]"
    by (simp add: resolve_peer_ips_def has_ambiguous_ipv4_notation_def str_isdigit_def ip_eval)
  moreover have "\<not> peer_ips_allowed [V4 0x7F000001] default_network"
    by (simp add: peer_ips_allowed_def default_network_def default_peer_connect_def is_restricted_ip_def
        normalize_ip_def metadata_eval default_blocked_eval in_any_def in_net_def prefix_mask_not mask_eq_exp_minus_1)
  ultimately have "validate_peer_url gai ''ws://127.0.0.1:8765'' default_network Development = None"
    by (simp add: validate_peer_url_def url_hostname_def host_info_def after_last_def partition_at_def py_lower_def Let_def)
  with url show ?thesis by simp
qed

section \<open>The threads\<close>

text \<open>
  A start makes a new event, a new queue and, when it gets so far, a new thread; those of earlier
  starts may still be at work.  The newest one stands first.
\<close>

datatype worker =
    NotStarted
  | Fetching
  | Asking string string
  | Adding string
  | Pausing
  | Ended

record resolver_run =
  rr_stop :: bool
  rr_queue :: "(string \<times> string) list"
  rr_worker :: worker

record mdns =
  md_open :: bool
  md_runs :: "resolver_run list"
  md_known :: known_peers
  md_found :: "string list"

definition peer_ok :: "resolver \<Rightarrow> network_settings \<Rightarrow> environment \<Rightarrow> string \<Rightarrow> bool" where
  "peer_ok gai nw env url = (validate_peer_url gai url nw env \<noteq> None)"

definition set_run :: "nat \<Rightarrow> resolver_run \<Rightarrow> mdns \<Rightarrow> mdns" where
  "set_run i r md = md\<lparr>md_runs := (md_runs md)[i := r]\<rparr>"

text \<open>How far a start gets: to the import, the socket, the browser, the thread, its registration.\<close>

datatype start_outcome = NoPackage | NoSocket | NoBrowser | NoThread | NoAdvert | Started

text \<open>\<open>stop_mdns\<close> with \<open>_cleanup_mdns\<close>: the newest thread is told to end and waited for, for a while.\<close>

definition stop_mdns :: "mdns \<Rightarrow> mdns" where
  "stop_mdns md =
     md\<lparr>md_open := False,
        md_runs := (case md_runs md of [] \<Rightarrow> [] | r # rs \<Rightarrow> r\<lparr>rr_stop := True\<rparr> # rs)\<rparr>"

definition new_run :: "worker \<Rightarrow> mdns \<Rightarrow> mdns" where
  "new_run w md = md\<lparr>md_runs := \<lparr>rr_stop = False, rr_queue = [], rr_worker = w\<rparr> # md_runs md\<rparr>"

definition start_mdns :: "network_settings \<Rightarrow> start_outcome \<Rightarrow> mdns \<Rightarrow> mdns" where
  "start_mdns nw outcome md =
     (if \<not> nw_mdns_enabled nw \<or> md_open md then md
      else case outcome of
          NoPackage \<Rightarrow> md
        | NoSocket \<Rightarrow> new_run NotStarted md
        | NoBrowser \<Rightarrow> stop_mdns (new_run NotStarted md)
        | NoThread \<Rightarrow> stop_mdns (new_run NotStarted md)
        | NoAdvert \<Rightarrow> stop_mdns (new_run Fetching md)
        | Started \<Rightarrow> (new_run Fetching md)\<lparr>md_open := True\<rparr>)"

text \<open>\<open>Listener.add_service\<close>; a queue without a positive limit is unbounded.\<close>

definition add_service :: "network_settings \<Rightarrow> string \<times> string \<Rightarrow> resolver_run \<Rightarrow> resolver_run" where
  "add_service nw service r =
     (if rr_stop r then r
      else if 0 < nw_mdns_max_pending nw \<and> nw_mdns_max_pending nw \<le> int (length (rr_queue r)) then r
      else r\<lparr>rr_queue := rr_queue r @ [service]\<rparr>)"

text \<open>
  The steps.  A thread that waits for the queue takes what arrives even after it was told to end;
  that is looked at again once the service is resolved.
\<close>

datatype mdns_event =
    Start start_outcome
  | StopAll
  | Service nat string string
  | Fetch nat
  | Answered nat resolver "service_info option res"
  | AddFound nat resolver
  | Wake nat
  | Leave nat
  | Learned resolver "string list"

inductive mdns_step ::
    "network_settings \<Rightarrow> environment \<Rightarrow> string \<Rightarrow> mdns \<Rightarrow> mdns_event \<Rightarrow> mdns \<Rightarrow> bool" for nw env local where
  start: "mdns_step nw env local md (Start outcome) (start_mdns nw outcome md)"
| stop: "mdns_step nw env local md StopAll (stop_mdns md)"
| service:
    "i < length (md_runs md) \<Longrightarrow>
     mdns_step nw env local md (Service i ty name) (set_run i (add_service nw (ty, name) (md_runs md ! i)) md)"
| fetch:
    "i < length (md_runs md) \<Longrightarrow> md_runs md ! i = r \<Longrightarrow> rr_worker r = Fetching \<Longrightarrow> rr_queue r = (ty, name) # q \<Longrightarrow>
     mdns_step nw env local md (Fetch i) (set_run i (r\<lparr>rr_queue := q, rr_worker := Asking ty name\<rparr>) md)"
| answered:
    "i < length (md_runs md) \<Longrightarrow> md_runs md ! i = r \<Longrightarrow> rr_worker r = Asking ty name \<Longrightarrow>
     mdns_step nw env local md (Answered i gai answer)
       (set_run i (r\<lparr>rr_worker := (case checked_service gai nw env (rr_stop r) answer of
          None \<Rightarrow> Pausing | Some url \<Rightarrow> Adding url)\<rparr>) md)"
| add_found:
    "i < length (md_runs md) \<Longrightarrow> md_runs md ! i = r \<Longrightarrow> rr_worker r = Adding url \<Longrightarrow>
     add_peer (peer_ok gai nw env) local (pc_max_known_peers (nw_peer_connect nw)) url (md_known md) = (known, res) \<Longrightarrow>
     mdns_step nw env local md (AddFound i gai)
       (set_run i (r\<lparr>rr_worker := Pausing\<rparr>)
          (md\<lparr>md_known := known, md_found := md_found md @ (if res = Inr () then [url] else [])\<rparr>))"
| wake:
    "i < length (md_runs md) \<Longrightarrow> md_runs md ! i = r \<Longrightarrow> rr_worker r = Pausing \<Longrightarrow> \<not> rr_stop r \<Longrightarrow>
     mdns_step nw env local md (Wake i) (set_run i (r\<lparr>rr_worker := Fetching\<rparr>) md)"
| leave:
    "i < length (md_runs md) \<Longrightarrow> md_runs md ! i = r \<Longrightarrow> rr_worker r = Fetching \<or> rr_worker r = Pausing \<Longrightarrow> rr_stop r \<Longrightarrow>
     mdns_step nw env local md (Leave i) (set_run i (r\<lparr>rr_worker := Ended\<rparr>) md)"
| learned:
    "add_peers (peer_ok gai nw env) local (nw_peer_connect nw) urls (md_known md) = (known, res) \<Longrightarrow>
     mdns_step nw env local md (Learned gai urls) (md\<lparr>md_known := known\<rparr>)"

inductive_cases mdns_stepE: "mdns_step nw env local md e md'"

section \<open>What every interleaving keeps\<close>

text \<open>A thread that was told to end, or never began.\<close>

definition halted :: "resolver_run \<Rightarrow> bool" where
  "halted r \<longleftrightarrow> rr_stop r \<or> rr_worker r = NotStarted"

definition adding :: "resolver_run \<Rightarrow> bool" where
  "adding r \<longleftrightarrow> (case rr_worker r of Adding _ \<Rightarrow> True | _ \<Rightarrow> False)"

definition queue_ok :: "network_settings \<Rightarrow> resolver_run \<Rightarrow> bool" where
  "queue_ok nw r \<longleftrightarrow> (0 < nw_mdns_max_pending nw \<longrightarrow> int (length (rr_queue r)) \<le> nw_mdns_max_pending nw)"

definition well_formed :: "network_settings \<Rightarrow> environment \<Rightarrow> string \<Rightarrow> known_peers \<Rightarrow> bool" where
  "well_formed nw env local known \<longleftrightarrow>
     known_ok (\<lambda>u. parse_peer_url u nw env \<noteq> None) local (pc_max_known_peers (nw_peer_connect nw)) known"

definition mdns_ok :: "network_settings \<Rightarrow> environment \<Rightarrow> string \<Rightarrow> mdns \<Rightarrow> bool" where
  "mdns_ok nw env local md \<longleftrightarrow>
     well_formed nw env local (md_known md) \<and> list_all (queue_ok nw) (md_runs md) \<and>
     list_all halted (if md_open md then tl (md_runs md) else md_runs md)"

lemma peer_ok_parses: "peer_ok gai nw env u \<Longrightarrow> parse_peer_url u nw env \<noteq> None"
  by (auto simp: peer_ok_def validate_peer_url_def split: option.splits)

lemma known_ok_weaken: "known_ok ok local n known \<Longrightarrow> (\<And>u. ok u \<Longrightarrow> ok' u) \<Longrightarrow> known_ok ok' local n known"
  by (auto simp: known_ok_def list_all_iff)

text \<open>An addition keeps the list well-formed, whatever names resolve to at the time.\<close>

lemma add_peer_well_formed:
  assumes "well_formed nw env local known"
  shows "well_formed nw env local (fst (add_peer (peer_ok gai nw env) local (pc_max_known_peers (nw_peer_connect nw)) url known))"
proof (cases "peer_ok gai nw env url")
  case True
  then have "add_peer (peer_ok gai nw env) local n url known =
      add_peer (\<lambda>u. parse_peer_url u nw env \<noteq> None) local n url known" for n
    using peer_ok_parses [OF True] by (simp add: add_peer_def)
  with assms add_peer_known_ok show ?thesis by (auto simp: well_formed_def)
next
  case False
  with assms show ?thesis by (simp add: add_peer_def)
qed

lemma add_peers_well_formed:
  assumes "well_formed nw env local known"
  shows "well_formed nw env local (fst (add_peers (peer_ok gai nw env) local (nw_peer_connect nw) urls known))"
proof -
  have "well_formed nw env local (fst (add_each (peer_ok gai nw env) local (pc_max_known_peers (nw_peer_connect nw)) us known))" for us
    using assms
  proof (induction us arbitrary: known)
    case (Cons u us)
    from add_peer_well_formed [OF Cons.prems, of gai u] Cons.IH show ?case
      by (auto split: prod.splits sum.splits)
  qed simp
  then show ?thesis by (simp add: add_peers_def)
qed

lemma set_run_kept:
  assumes "mdns_ok nw env local md" "i < length (md_runs md)" "queue_ok nw (md_runs md ! i) \<Longrightarrow> queue_ok nw r"
    and "halted (md_runs md ! i) \<Longrightarrow> halted r"
  shows "mdns_ok nw env local (set_run i r md)"
proof -
  have update: "list_all P (xs[j := r])" if "list_all P xs" "j < length xs \<Longrightarrow> P (xs ! j) \<Longrightarrow> P r"
    for P :: "resolver_run \<Rightarrow> bool" and xs j
  proof (cases "j < length xs")
    case True
    with that have "P r" by (simp add: list_all_length)
    with that(1) set_update_subset_insert [of xs j r] show ?thesis by (auto simp: list_all_iff)
  next
    case False
    with that(1) show ?thesis by (simp add: list_update_beyond)
  qed
  have tl: "list_all halted (tl (xs[i := r]))" if "list_all halted (tl xs)" "i < length xs \<Longrightarrow> halted (xs ! i) \<Longrightarrow> halted r" for xs
    using that update [of halted "tl xs" "i - 1"] by (cases xs; cases i) simp_all
  show ?thesis
    using assms update [of "queue_ok nw" "md_runs md" i] update [of halted "md_runs md" i] tl [of "md_runs md"]
    by (simp add: mdns_ok_def set_run_def split: if_splits)
qed

lemma stop_kept: "mdns_ok nw env local md \<Longrightarrow> mdns_ok nw env local (stop_mdns md)"
  by (cases "md_runs md") (auto simp: mdns_ok_def stop_mdns_def queue_ok_def halted_def split: if_splits)

lemma start_kept: "mdns_ok nw env local md \<Longrightarrow> mdns_ok nw env local (start_mdns nw outcome md)"
  by (cases outcome) (auto simp: mdns_ok_def start_mdns_def stop_mdns_def new_run_def queue_ok_def halted_def)

lemma step_kept: "mdns_ok nw env local md \<Longrightarrow> mdns_step nw env local md e md' \<Longrightarrow> mdns_ok nw env local md'"
proof (erule mdns_stepE)
  fix i ty name
  assume "mdns_ok nw env local md" "i < length (md_runs md)" "md' = set_run i (add_service nw (ty, name) (md_runs md ! i)) md"
  then show "mdns_ok nw env local md'"
    by (auto intro!: set_run_kept simp: add_service_def queue_ok_def halted_def)
next
  fix i url gai known res
  assume ok: "mdns_ok nw env local md" and i: "i < length (md_runs md)" "rr_worker (md_runs md ! i) = Adding url"
    and add: "add_peer (peer_ok gai nw env) local (pc_max_known_peers (nw_peer_connect nw)) url (md_known md) = (known, res)"
    and md': "md' = set_run i ((md_runs md ! i)\<lparr>rr_worker := Pausing\<rparr>)
      (md\<lparr>md_known := known, md_found := md_found md @ (if res = Inr () then [url] else [])\<rparr>)"
  have "well_formed nw env local known"
    using add_peer_well_formed [of nw env local "md_known md" gai url] ok add by (simp add: mdns_ok_def)
  with ok have "mdns_ok nw env local (md\<lparr>md_known := known, md_found := md_found md @ (if res = Inr () then [url] else [])\<rparr>)"
    by (auto simp: mdns_ok_def)
  with i show "mdns_ok nw env local md'"
    unfolding md' by (auto intro!: set_run_kept simp: queue_ok_def halted_def)
next
  fix gai urls known res
  assume "mdns_ok nw env local md" "md' = md\<lparr>md_known := known\<rparr>"
    "add_peers (peer_ok gai nw env) local (nw_peer_connect nw) urls (md_known md) = (known, res)"
  with add_peers_well_formed [of nw env local "md_known md" gai urls] show "mdns_ok nw env local md'"
    by (auto simp: mdns_ok_def)
qed (auto intro!: set_run_kept stop_kept start_kept simp: queue_ok_def halted_def)

interpretation mdns_inv: inductive_invariant "mdns_step nw env local" "mdns_ok nw env local" for nw env local
  by unfold_locales (rule step_kept)

section \<open>After the stop\<close>

text \<open>Steps of the threads only: no start and nothing learned from messages.\<close>

definition thread_event :: "mdns_event \<Rightarrow> bool" where
  "thread_event e = (case e of Start _ \<Rightarrow> False | Learned _ _ \<Rightarrow> False | _ \<Rightarrow> True)"

definition thread_step :: "network_settings \<Rightarrow> environment \<Rightarrow> string \<Rightarrow> mdns \<Rightarrow> mdns_event \<Rightarrow> mdns \<Rightarrow> bool" where
  "thread_step nw env local md e md' \<longleftrightarrow> thread_event e \<and> mdns_step nw env local md e md'"

definition still :: "resolver_run \<Rightarrow> bool" where
  "still r \<longleftrightarrow> halted r \<and> \<not> adding r"

definition quiet :: "known_peers \<Rightarrow> string list \<Rightarrow> mdns \<Rightarrow> bool" where
  "quiet known found md \<longleftrightarrow> list_all still (md_runs md) \<and> md_known md = known \<and> md_found md = found"

lemma set_run_quiet:
  assumes "quiet known found md" "i < length (md_runs md)" "still (md_runs md ! i) \<Longrightarrow> still r"
  shows "quiet known found (set_run i r md)"
  using assms by (auto simp: quiet_def set_run_def list_all_iff dest: nth_mem set_update_subset_insert [THEN subsetD])

lemma stop_quiet: "quiet known found md \<Longrightarrow> quiet known found (stop_mdns md)"
  by (cases "md_runs md") (auto simp: quiet_def stop_mdns_def still_def halted_def adding_def)

lemma stopped_unchecked: "checked_service gai nw env True answer = None"
  by (auto simp: checked_service_def split: sum.split option.split)

lemma quiet_kept: "quiet known found md \<Longrightarrow> thread_step nw env local md e md' \<Longrightarrow> quiet known found md'"
  unfolding thread_step_def
proof (elim conjE, erule mdns_stepE)
  fix i url
  assume "quiet known found md" "i < length (md_runs md)" "rr_worker (md_runs md ! i) = Adding url"
  then have "still (md_runs md ! i)" "adding (md_runs md ! i)" by (auto simp: quiet_def list_all_length adding_def)
  then have False by (simp add: still_def)
  then show "quiet known found md'" ..
next
  fix i ty name gai answer
  assume q: "quiet known found md" "i < length (md_runs md)" "rr_worker (md_runs md ! i) = Asking ty name"
    and md': "md' = set_run i ((md_runs md ! i)\<lparr>rr_worker := (case checked_service gai nw env (rr_stop (md_runs md ! i)) answer of
          None \<Rightarrow> Pausing | Some url \<Rightarrow> Adding url)\<rparr>) md"
  have "still (md_runs md ! i)" using q by (simp add: quiet_def list_all_length)
  then have "rr_stop (md_runs md ! i)" using q(3) by (simp add: still_def halted_def)
  with q show "quiet known found md'"
    unfolding md' by (auto intro!: set_run_quiet simp: stopped_unchecked still_def halted_def adding_def)
qed (auto intro!: set_run_quiet stop_quiet simp: thread_event_def still_def halted_def adding_def add_service_def)

interpretation quiet_inv: inductive_invariant "thread_step nw env local" "quiet known found" for nw env local known found
  by unfold_locales (rule quiet_kept)


text \<open>A service is announced, resolved and added; then discovery stops.\<close>

definition sample_mdns_network :: network_settings where
  "sample_mdns_network = default_network\<lparr>nw_mdns_enabled := True\<rparr>"

definition sample_service :: service_info where
  "sample_service = \<lparr>si_addresses = [word_bytes 0x08080404], si_port = Some 8765, si_properties = None\<rparr>"

definition sample_mdns :: "bool \<Rightarrow> (string \<times> string) list \<Rightarrow> worker \<Rightarrow> string list \<Rightarrow> mdns" where
  "sample_mdns stopped q w found =
     \<lparr>md_open = \<not> stopped, md_runs = [\<lparr>rr_stop = stopped, rr_queue = q, rr_worker = w\<rparr>],
      md_known = found, md_found = found\<rparr>"

abbreviation "sample_peer \<equiv> ''ws://8.8.4.4:8765''"

lemma sample_address: "str_ip (V4 0x08080404) = ''8.8.4.4''"
  by (simp add: str_ip_def octets_of_def show_nat.simps digit_char_def) code_simp

lemma sample_service_url: "service_url sample_service = Inr sample_peer"
  by (simp add: service_url_def sample_service_def ntoa_address sample_address mdns_tls_enabled_def
      websocket_scheme_def default_port_text)

lemma sample_peer_valid: "validate_peer_url gai sample_peer sample_mdns_network Development = Some sample_peer"
proof -
  have "parse_peer_url sample_peer sample_mdns_network Development =
     Some \<lparr>ur_scheme = ''ws'', ur_netloc = ''8.8.4.4:8765'', ur_path = [], ur_query = [], ur_fragment = []\<rparr>"
    by (simp add: parse_peer_url_def url_eval ip_eval sample_mdns_network_def default_network_def default_tls_def)
  moreover have "resolve_peer_ips gai ''8.8.4.4'' = [V4 0x08080404]"
    by (simp add: resolve_peer_ips_def has_ambiguous_ipv4_notation_def str_isdigit_def ip_eval)
  moreover have "peer_ips_allowed [V4 0x08080404] sample_mdns_network"
    using sample_unrestricted by (simp add: peer_ips_allowed_def sample_mdns_network_def default_network_def default_peer_connect_def)
  moreover have "nw_peer_connect sample_mdns_network = default_peer_connect"
    by (simp add: sample_mdns_network_def default_network_def)
  ultimately show ?thesis
    by (simp add: validate_peer_url_def url_hostname_def host_info_def after_last_def
        partition_at_def py_lower_def resolve_peer_port_def url_port_def is_digit_def parse_nat_def digit_val_def
        default_peer_connect_def Let_def)
qed

lemma sample_mdns_run:
  "run (mdns_step sample_mdns_network Development ''ws://me'') \<lparr>md_open = False, md_runs = [], md_known = [], md_found = []\<rparr>
     [Start Started, Service 0 ''t'' ''n'', Fetch 0, Answered 0 gai (Inr (Some sample_service)), AddFound 0 gai]
     (sample_mdns False [] Pausing [sample_peer])"
proof -
  let ?step = "mdns_step sample_mdns_network Development ''ws://me''"
  let ?s0 = "\<lparr>md_open = False, md_runs = [], md_known = [], md_found = []\<rparr>"
  have enabled: "nw_mdns_enabled sample_mdns_network" "nw_mdns_max_pending sample_mdns_network = 100"
    "pc_max_known_peers (nw_peer_connect sample_mdns_network) = pc_max_known_peers default_peer_connect"
    by (simp_all add: sample_mdns_network_def default_network_def)
  have 1: "?step ?s0 (Start Started) (sample_mdns False [] Fetching [])"
    using mdns_step.start [of sample_mdns_network Development "''ws://me''" ?s0 Started] enabled
    by (simp add: start_mdns_def new_run_def sample_mdns_def)
  have 2: "?step (sample_mdns False [] Fetching []) (Service 0 ''t'' ''n'') (sample_mdns False [(''t'', ''n'')] Fetching [])"
    using mdns_step.service [of 0 "sample_mdns False [] Fetching []" sample_mdns_network Development "''ws://me''" "''t''" "''n''"] enabled
    by (simp add: set_run_def add_service_def sample_mdns_def)
  have 3: "?step (sample_mdns False [(''t'', ''n'')] Fetching []) (Fetch 0) (sample_mdns False [] (Asking ''t'' ''n'') [])"
    using mdns_step.fetch [of 0 "sample_mdns False [(''t'', ''n'')] Fetching []", OF _ refl]
    by (simp add: set_run_def sample_mdns_def)
  have "checked_service gai sample_mdns_network Development False (Inr (Some sample_service)) = Some sample_peer"
    using sample_peer_valid by (simp add: checked_service_def sample_service_url) (simp add: sample_service_def)
  then have 4: "?step (sample_mdns False [] (Asking ''t'' ''n'') []) (Answered 0 gai (Inr (Some sample_service)))
      (sample_mdns False [] (Adding sample_peer) [])"
    using mdns_step.answered [of 0 "sample_mdns False [] (Asking ''t'' ''n'') []", OF _ refl,
        of _ _ sample_mdns_network Development "''ws://me''" gai "Inr (Some sample_service)"]
    by (simp add: set_run_def sample_mdns_def)
  have "add_peer (peer_ok gai sample_mdns_network Development) ''ws://me''
      (pc_max_known_peers (nw_peer_connect sample_mdns_network)) sample_peer [] = ([sample_peer], Inr ())"
    using sample_peer_valid by (simp add: add_peer_def peer_ok_def evict_def enabled default_peer_connect_def)
  then have 5: "?step (sample_mdns False [] (Adding sample_peer) []) (AddFound 0 gai) (sample_mdns False [] Pausing [sample_peer])"
    using mdns_step.add_found [of 0 "sample_mdns False [] (Adding sample_peer) []", OF _ refl, of sample_peer gai sample_mdns_network
        Development "''ws://me''" "[sample_peer]" "Inr ()"]
    by (simp add: set_run_def sample_mdns_def)
  show ?thesis
    by (rule run_more [where step = ?step], rule run_more [where step = ?step], rule run_more [where step = ?step],
        rule run_more [where step = ?step], rule run_one [where step = ?step], rule 1, rule 2, rule refl,
        rule 3, rule refl, rule 4, rule refl, rule 5) simp
qed


end
