(* ===== verification/Cli.thy ===== *)
theory Cli
  imports Settings
begin

text \<open>
  \<open>cli.py\<close>: what the arguments of the command line change in the configuration.  The parsing of
  the arguments is \<open>argparse\<close>; its result is a record here.
\<close>

record cli_args =
  ca_config :: "string option"
  ca_consensus :: "string option"
  ca_port :: "int option"
  ca_bootstrap :: "string list"
  ca_log_level :: "string option"
  ca_add_block :: "(string \<times> string) option"

text \<open>\<open>overrides.setdefault(part, {})[key] = v\<close>, for an argument that was given.\<close>

definition set_override :: "string \<Rightarrow> string \<Rightarrow> pyval option \<Rightarrow> pydict \<Rightarrow> pydict" where
  "set_override part key given overrides =
     (case given of
        None \<Rightarrow> overrides
      | Some v \<Rightarrow>
          let d = (case map_of overrides part of Some (PDict d) \<Rightarrow> d | _ \<Rightarrow> [])
          in AList.update part (PDict (AList.update key v d)) overrides)"

text \<open>An argument counts as given when it is true in the sense of Python.\<close>

definition given_text :: "string option \<Rightarrow> pyval option" where
  "given_text t = (case t of Some (c # cs) \<Rightarrow> Some (PStr (c # cs)) | _ \<Rightarrow> None)"

definition given_int :: "int option \<Rightarrow> pyval option" where
  "given_int n = (case n of Some k \<Rightarrow> if k \<noteq> 0 then Some (PInt k) else None | None \<Rightarrow> None)"

definition given_texts :: "string list \<Rightarrow> pyval option" where
  "given_texts ts = (if ts \<noteq> [] then Some (PList (map PStr ts)) else None)"

definition build_overrides :: "cli_args \<Rightarrow> pydict" where
  "build_overrides args =
     set_override ''node'' ''log_level'' (given_text (ca_log_level args))
       (set_override ''network'' ''bootstrap_peers'' (given_texts (ca_bootstrap args))
         (set_override ''network'' ''port'' (given_int (ca_port args))
           (set_override ''consensus'' ''type'' (given_text (ca_consensus args)) [])))"

section \<open>The overrides win\<close>

lemma set_override_lookup:
  "map_of (set_override part key given ov) k =
     (case given of
        Some v \<Rightarrow> if k = part
          then Some (PDict (AList.update key v (case map_of ov part of Some (PDict d) \<Rightarrow> d | _ \<Rightarrow> [])))
          else map_of ov k
      | None \<Rightarrow> map_of ov k)"
  "distinct (map fst ov) \<Longrightarrow> distinct (map fst (set_override part key given ov))"
  by (simp_all add: set_override_def Let_def update_conv' distinct_update split: option.split)

lemma overrides_distinct: "distinct (map fst (build_overrides args))"
  by (simp add: build_overrides_def set_override_lookup(2))

lemma override_sections:
  "given_text (ca_consensus args) = Some v \<Longrightarrow>
   map_of (build_overrides args) ''consensus'' = Some (PDict [(''type'', v)])"
  "given_int (ca_port args) = Some v \<Longrightarrow>
   \<exists>d. map_of (build_overrides args) ''network'' = Some (PDict d) \<and> distinct (map fst d) \<and> map_of d ''port'' = Some v"
  "given_texts (ca_bootstrap args) = Some v \<Longrightarrow>
   \<exists>d. map_of (build_overrides args) ''network'' = Some (PDict d) \<and> distinct (map fst d) \<and>
     map_of d ''bootstrap_peers'' = Some v"
  by (cases "given_text (ca_consensus args)"; cases "given_int (ca_port args)"; cases "given_texts (ca_bootstrap args)";
      cases "given_text (ca_log_level args)"; simp add: build_overrides_def set_override_lookup)+

text \<open>A key of a section that is overridden has the new value, whatever stood there.\<close>

lemma overridden_section:
  assumes "distinct (map fst overrides)" "map_of overrides part = Some (PDict d)" "distinct (map fst d)" "map_of d key = Some v"
    and "\<And>w. v \<noteq> PDict w" "config_section (deep_merge raw overrides) part = Inr s"
  shows "map_of s key = Some v"
proof -
  have "map_of (deep_merge raw overrides) part = Some (merge_value (map_of raw part) (PDict d))"
    using deep_merge_lookup [OF assms(1)] assms(2) by simp
  with assms(6) have "s = (case map_of raw part of Some (PDict b) \<Rightarrow> deep_merge b d | _ \<Rightarrow> d)"
    by (simp add: config_section_def get_or_def merge_value_def split: option.splits pyval.splits)
  moreover have "merge_value w v = v" for w
    using assms(5) by (auto simp: merge_value_def split: option.split pyval.split)
  then have "map_of (deep_merge b d) key = Some v" for b using deep_merge_lookup [OF assms(3)] assms(4) by simp
  ultimately show ?thesis using assms(4) by (simp split: option.splits pyval.splits)
qed

lemma parse_network_read:
  "parse_network data = Inr nw \<Longrightarrow>
   int_at data ''port'' 8765 = Inr (nw_port nw) \<and> parse_bootstrap_peers data = Inr (nw_bootstrap_peers nw)"
  unfolding parse_network_def by (elim bindE_Inr_elim, drule Inr_inject, hypsubst) simp

lemma parse_consensus_read:
  "parse_consensus data = Inr cs \<Longrightarrow> map_of data ''type'' = Some (PStr t) \<Longrightarrow>
   cs_type cs = (if py_lower t = ''pow'' then Pow else Pos)"
  by (auto simp: parse_consensus_def text_at_def get_or_def bindE_eq_Inr py_str_def Let_def split: if_splits)

lemma overrides_win:
  assumes "load_settings_with_overrides resolve_path token_env is_there read_yaml packaged config_path env_path
      (build_overrides args) = Inr st"
  shows "ca_port args = Some p \<Longrightarrow> p \<noteq> 0 \<Longrightarrow> nw_port (ap_network st) = p"
    and "ca_bootstrap args \<noteq> [] \<Longrightarrow> nw_bootstrap_peers (ap_network st) = map PStr (ca_bootstrap args)"
    and "ca_consensus args = Some ''pow'' \<Longrightarrow> cs_type (ap_consensus st) = Pow"
    and "ca_consensus args = Some ''pos'' \<Longrightarrow> cs_type (ap_consensus st) = Pos"
proof -
  from assms obtain raw where "parse_settings resolve_path token_env (deep_merge raw (build_overrides args)) = Inr st"
    by (auto simp: load_settings_with_overrides_def Let_def bindE_eq_Inr)
  then obtain nd cd where
    nd: "config_section (deep_merge raw (build_overrides args)) ''network'' = Inr nd" "parse_network nd = Inr (ap_network st)" and
    cd: "config_section (deep_merge raw (build_overrides args)) ''consensus'' = Inr cd" "parse_consensus cd = Inr (ap_consensus st)"
    unfolding parse_settings_def bindE_eq_Inr by auto
  note net = overridden_section [OF overrides_distinct _ _ _ _ nd(1)]
  note con = overridden_section [OF overrides_distinct _ _ _ _ cd(1)]
  show "nw_port (ap_network st) = p" if "ca_port args = Some p" "p \<noteq> 0"
  proof -
    have "given_int (ca_port args) = Some (PInt p)" using that by (simp add: given_int_def)
    from override_sections(2) [OF this] net have "map_of nd ''port'' = Some (PInt p)" by blast
    with parse_network_read [OF nd(2)] show ?thesis by (simp add: int_at_def get_or_def py_int_def)
  qed
  show "nw_bootstrap_peers (ap_network st) = map PStr (ca_bootstrap args)" if "ca_bootstrap args \<noteq> []"
  proof -
    have "given_texts (ca_bootstrap args) = Some (PList (map PStr (ca_bootstrap args)))" using that by (simp add: given_texts_def)
    from override_sections(3) [OF this] net have "map_of nd ''bootstrap_peers'' = Some (PList (map PStr (ca_bootstrap args)))" by blast
    with parse_network_read [OF nd(2)] show ?thesis by (simp add: parse_bootstrap_peers_def get_or_def)
  qed
  have type: "map_of cd ''type'' = Some (PStr (c # cs))" if "ca_consensus args = Some (c # cs)" for c cs
  proof -
    have "given_text (ca_consensus args) = Some (PStr (c # cs))" using that by (simp add: given_text_def)
    from con [OF override_sections(1) [OF this]] show ?thesis by simp
  qed
  show "cs_type (ap_consensus st) = Pow" if "ca_consensus args = Some ''pow''"
    using parse_consensus_read [OF cd(2) type [OF that]] by (simp add: py_lower_def)
  show "cs_type (ap_consensus st) = Pos" if "ca_consensus args = Some ''pos''"
    using parse_consensus_read [OF cd(2) type [OF that]] by (simp add: py_lower_def)
qed

text \<open>Port \<open>0\<close>, any free port, cannot be asked for: the argument counts as absent.\<close>

lemma port_zero_ignored: "build_overrides (args\<lparr>ca_port := Some 0\<rparr>) = build_overrides (args\<lparr>ca_port := None\<rparr>)"
  by (simp add: build_overrides_def given_int_def)

end
