(* ===== verification/Node_Durability.thy ===== *)
theory Node_Durability
  imports Node_Restart
begin

text \<open>
  The saving of the chain while the node works: \<open>_schedule_persist\<close> and \<open>_persist_worker\<close> as a task
  beside the others, over the files.  A change of the chain is saved in the end, or its saving has
  failed: whenever nothing is scheduled and the last worker ended well, the files hold the chain.
\<close>

section \<open>The worker\<close>

datatype persist_worker = NoWorker | Created | Sleeping | Finished | Failed exn

definition at_work :: "persist_worker \<Rightarrow> bool" where
  "at_work w \<longleftrightarrow> w = Created \<or> w = Sleeping"

text \<open>
  \<open>_schedule_persist\<close> sets a flag and makes a worker unless one is at work.  To see whether a step
  calls it, the step starts with the flag cleared; no handler reads it.
\<close>

definition with_flag :: "bool \<Rightarrow> node \<Rightarrow> node" where
  "with_flag b n = n\<lparr>no_persist_pending := b\<rparr>"

definition with_worker :: "bool \<Rightarrow> persist_worker \<Rightarrow> persist_worker" where
  "with_worker scheduled w = (if scheduled \<and> \<not> at_work w then Created else w)"

text \<open>The loop of the worker is at its head: another round, or the end.\<close>

definition next_round :: "node \<Rightarrow> node \<times> persist_worker" where
  "next_round n = (case begin_round n of None \<Rightarrow> (n, Finished) | Some n' \<Rightarrow> (n', Sleeping))"

datatype durable_event = Loop event | Begin | Wakes "fs_op \<Rightarrow> bool"

type_synonym durable = "system \<times> persist_worker \<times> files"

inductive durable_step :: "(file_path \<Rightarrow> bool) \<Rightarrow> rsa_library \<Rightarrow> durable \<Rightarrow> durable_event \<Rightarrow> durable \<Rightarrow> bool"
  for inside L where
  loop:
    "sys_step L (with_flag False n, ts) e (n', ts') \<Longrightarrow> scheduled = no_persist_pending n' \<Longrightarrow>
     durable_step inside L ((n, ts), w, fs) (Loop e)
       ((with_flag (no_persist_pending n \<or> scheduled) n', ts'), with_worker scheduled w, fs)"
| begins:
    "next_round n = (n', w) \<Longrightarrow> durable_step inside L ((n, ts), Created, fs) Begin ((n', ts), w, fs)"
| saves:
    "persist_state inside broken L n fs = (fs', Inr ()) \<Longrightarrow> next_round n = (n', w) \<Longrightarrow>
     durable_step inside L ((n, ts), Sleeping, fs) (Wakes broken) ((n', ts), w, fs')"
| fails:
    "persist_state inside broken L n fs = (fs', Inl e) \<Longrightarrow>
     durable_step inside L ((n, ts), Sleeping, fs) (Wakes broken) ((n, ts), Failed e, fs')"

inductive_cases durable_stepE: "durable_step inside L s e s'"

section \<open>What was saved\<close>

text \<open>A save that returns has done all its operations but the synchronisation of directories.\<close>

lemma run_ops_success:
  "run_ops inside broken ops fs = (fs', Inr ()) \<Longrightarrow> run_ops inside (\<lambda>_. False) ops fs = (fs', Inr ())"
proof (induction ops arbitrary: fs)
  case (Cons p ops)
  show ?case
  proof (cases "broken p \<or> (\<exists>path. p = Resolve path \<and> \<not> inside path)")
    case True
    with Cons.prems have "\<exists>dir. p = SyncDir dir" by (cases p) (simp_all add: fail_op_def)
    with Cons True show ?thesis by (auto simp: fail_op_def apply_op_def)
  next
    case False
    with Cons show ?thesis by auto
  qed
qed simp

lemma save_success: "save inside broken st s fs = (fs', Inr ()) \<Longrightarrow> save inside (\<lambda>_. False) st s fs = (fs', Inr ())"
  by (auto simp: save_def dest: run_ops_success split: if_splits sum.splits)

definition holds :: "(file_path \<Rightarrow> bool) \<Rightarrow> node \<Rightarrow> files \<Rightarrow> bool" where
  "holds inside n fs \<longleftrightarrow>
     (\<exists>t. load inside (ap_persistence (no_settings n)) fs = Inr (Some t) \<and> pe_chain t = bc_chain (no_bc n))"

lemma holds_cong: "core n' = core n \<Longrightarrow> bc_chain (no_bc n') = bc_chain (no_bc n) \<Longrightarrow> holds inside n' fs = holds inside n fs"
  by (drule core_parts) (simp add: holds_def)

definition storable :: "(file_path \<Rightarrow> bool) \<Rightarrow> node \<Rightarrow> bool" where
  "storable inside n \<longleftrightarrow> paths_ok (ap_persistence (no_settings n)) \<and> all_inside inside (ap_persistence (no_settings n))"

lemma saved_holds:
  assumes "keys_chosen L vpem ipem n" "storable inside n" "savable (ap_persistence (no_settings n)) (kept_state L n)"
    and "persist_state inside broken L n fs = (fs', Inr ())"
  shows "holds inside n fs'"
proof -
  from assms(4) built_state [OF assms(1)]
  have "save inside (\<lambda>_. False) (ap_persistence (no_settings n)) (kept_state L n) fs = (fs', Inr ())"
    by (simp add: persist_state_def save_success)
  from saved_loads [OF _ _ assms(3) this] assms(2) show ?thesis
    by (simp add: holds_def storable_def kept_state_def Let_def)
qed

section \<open>The invariant\<close>

text \<open>The events of a run: a node makes blocks only when ready, and what it saves can be read back.\<close>

definition sound_event :: "rsa_library \<Rightarrow> durable \<Rightarrow> durable_event \<Rightarrow> bool" where
  "sound_event L s e \<longleftrightarrow>
     (case e of
        Loop e' \<Rightarrow> ready_event (with_flag False (fst (fst s))) e'
      | Begin \<Rightarrow> True
      | Wakes _ \<Rightarrow> savable (ap_persistence (no_settings (fst (fst s)))) (kept_state L (fst (fst s))))"

definition sound_step :: "(file_path \<Rightarrow> bool) \<Rightarrow> rsa_library \<Rightarrow> durable \<Rightarrow> durable_event \<Rightarrow> durable \<Rightarrow> bool" where
  "sound_step inside L s e s' \<longleftrightarrow> durable_step inside L s e s' \<and> sound_event L s e"

definition durable :: "(file_path \<Rightarrow> bool) \<Rightarrow> rsa_library \<Rightarrow> bytes option \<Rightarrow> bytes option \<Rightarrow> durable \<Rightarrow> bool" where
  "durable inside L vpem ipem s \<longleftrightarrow>
     (case s of ((n, ts), w, fs) \<Rightarrow>
        chain_good L n \<and> keys_chosen L vpem ipem n \<and> storable inside n \<and>
        (w = Created \<longrightarrow> no_persist_pending n) \<and>
        (w = NoWorker \<or> w = Finished \<longrightarrow> \<not> no_persist_pending n \<and> holds inside n fs))"

lemma begin_round_same:
  assumes "next_round n = (n', w)"
  shows "core n' = core n" "no_bc n' = no_bc n" "\<not> no_persist_pending n'" "w = (if no_persist_pending n then Sleeping else Finished)"
  using assms by (auto simp: next_round_def begin_round_def core_def split: if_splits)

lemma durable_core:
  "core n' = core n \<Longrightarrow> no_bc n' = no_bc n \<Longrightarrow>
   chain_good L n' = chain_good L n \<and> keys_chosen L vpem ipem n' = keys_chosen L vpem ipem n \<and>
   storable inside n' = storable inside n \<and> holds inside n' fs = holds inside n fs"
  using chain_good_core [of n' n L] keys_chosen_core [of n' n L vpem ipem] holds_cong [of n' n inside fs] core_parts [of n' n]
  by (simp add: storable_def)

lemma with_flag_same [simp]:
  "core (with_flag b n) = core n" "no_bc (with_flag b n) = no_bc n" "no_persist_pending (with_flag b n) = b"
  by (simp_all add: with_flag_def core_def)

lemma loop_durable:
  assumes "durable inside L vpem ipem ((n, ts), w, fs)" "sys_step L (with_flag False n, ts) e (n', ts')"
    and "ready_event (with_flag False n) e"
  shows "durable inside L vpem ipem
    ((with_flag (no_persist_pending n \<or> no_persist_pending n') n', ts'), with_worker (no_persist_pending n') w, fs)"
proof -
  let ?n = "with_flag False n" and ?n' = "with_flag (no_persist_pending n \<or> no_persist_pending n') n'"
  have same: "chain_good L ?n = chain_good L n" "keys_chosen L vpem ipem ?n = keys_chosen L vpem ipem n"
    "storable inside ?n = storable inside n" "holds inside ?n fs = holds inside n fs"
    "chain_good L ?n' = chain_good L n'" "keys_chosen L vpem ipem ?n' = keys_chosen L vpem ipem n'"
    "storable inside ?n' = storable inside n'" "holds inside ?n' fs = holds inside n' fs"
    using durable_core [of ?n n L vpem ipem inside fs] durable_core [of ?n' n' L vpem ipem inside fs] by simp_all
  have core: "core n' = core n" using step_core [OF assms(2)] by simp
  from step_progress [OF assms(2,3)] assms(1) have good: "chain_good L n'" "settles ?n n'"
    by (simp_all add: progress_def durable_def same)
  have "keys_chosen L vpem ipem n'" "storable inside n'"
    using assms(1) keys_chosen_core [OF core] core_parts [OF core] by (simp_all add: durable_def storable_def)
  moreover have "holds inside n' fs" if "\<not> no_persist_pending n'" "holds inside n fs"
    using that good(2) holds_cong [OF core] by (simp add: settles_def)
  ultimately show ?thesis using assms(1) good(1) by (auto simp: durable_def with_worker_def at_work_def same)
qed

lemma round_durable:
  assumes "chain_good L n" "keys_chosen L vpem ipem n" "storable inside n" "next_round n = (n', w)"
    and "\<not> no_persist_pending n \<Longrightarrow> holds inside n fs"
  shows "durable inside L vpem ipem ((n', ts), w, fs)"
  using begin_round_same [OF assms(4)] durable_core [of n' n L vpem ipem inside fs] assms
  by (auto simp: durable_def at_work_def)

lemma step_durable:
  assumes "durable inside L vpem ipem s" "sound_step inside L s e s'"
  shows "durable inside L vpem ipem s'"
proof -
  from assms(2) have "durable_step inside L s e s'" and sound: "sound_event L s e" by (simp_all add: sound_step_def)
  then show ?thesis
  proof (cases rule: durable_step.cases)
    case (loop n ts e' n' ts' scheduled w fs)
    with assms(1) sound loop_durable [of inside L vpem ipem n ts w fs e' n' ts'] show ?thesis
      by (simp add: sound_event_def)
  next
    case (begins n n' w ts fs)
    with assms(1) round_durable [of L n vpem ipem inside n' w fs ts] show ?thesis by (simp add: durable_def)
  next
    case (saves broken n fs fs' n' w ts)
    with assms(1) sound have parts: "chain_good L n" "keys_chosen L vpem ipem n" "storable inside n"
      "savable (ap_persistence (no_settings n)) (kept_state L n)" by (simp_all add: durable_def sound_event_def)
    from saved_holds [OF parts(2,3,4) saves(4)] round_durable [OF parts(1-3) saves(5)] show ?thesis
      unfolding saves(3) by blast
  next
    case (fails broken n fs fs' x ts)
    with assms(1) show ?thesis by (simp add: durable_def)
  qed
qed

interpretation durable_inv: inductive_invariant "sound_step inside L" "durable inside L vpem ipem"
  for inside L vpem ipem
  by unfold_locales (rule step_durable)



end
