(* ===== verification/Spec2Isabelle.thy ===== *)
theory Spec2Isabelle
  imports
    Prelude
    Py_Float
    Py_Value
    Py_Text
    Sha256
    Py_Time
    Ebc_Types
    Hash_Utils
    Consensus_Base
    Signature
    Samples
    Proof_Of_Work
    Proof_Of_Stake
    Consensus
    Chain_Validator
    Block_Chain
    Peer_Auth
    Py_Json
    Messages
    Float_Order
    Rate_Limit
    Peer
    Tls
    P2P_Server
    Discovery
    Transitions
    Node_Sync
    Chain_Exchange
    Settings
    Py_Net
    Peer_Url
    Reconnect
    Store
    Node
    Node_Facts
    Node_System
    Node_Runs
    Node_Behaviour
    Node_Restart
    Health
    Local_Url
    Mdns
    Cli
    Node_Durability
begin

text \<open>
  Verification of the Python package \<open>useful_blockchain\<close> (directory \<open>src/useful_blockchain\<close>): a
  block chain sealed by proof of work or proof of stake, and the node that keeps it, stores it and
  exchanges it with peers over web sockets.

  The parts of the program and how they interact.  A block is a dictionary (\<open>types.py\<close>); hashes
  are SHA-256 over its JSON text (\<open>hash_utils.py\<close>).  A consensus (\<open>consensus/\<close>) prepares and
  validates blocks and chooses between chains; \<open>chain_validator.py\<close> checks a whole chain under it;
  \<open>blockchain.py\<close> holds the chain and changes it only through these checks.  The node
  (\<open>network/node.py\<close>) owns the chain, the keys (\<open>signature.py\<close>), the files
  (\<open>persistence/store.py\<close>), the server of connections (\<open>network/server.py\<close>, \<open>network/peer.py\<close>),
  the known peers (\<open>network/discovery.py\<close>) and the schedule of reconnections
  (\<open>network/reconnect.py\<close>).  Messages (\<open>network/messages.py\<close>) are rate limited
  (\<open>network/rate_limit.py\<close>) and, once a signed HELLO was accepted (\<open>network/peer_auth.py\<close>), handled
  by the node: blocks, requests for chains and their answers, lists of peers.  URLs of peers are
  checked before they are kept or dialled (\<open>network/peer_url.py\<close>, \<open>network/tls.py\<close>).
  \<open>settings.py\<close> reads the configuration, \<open>cli.py\<close> overrides parts of it, \<open>observability/\<close> counts
  and reports.

  The theories, from the ground up.
  \<^item> \<open>Prelude\<close>: exceptions as values, results \<open>exn + 'a\<close> with their sequencing \<open>bindE\<close>, slices, and
    the collections of simplification rules all others use.
  \<^item> The language and its standard library: \<open>Py_Float\<close> (binary64 with rounding), \<open>Py_Value\<close>
    (dynamically typed values, equality, truth), \<open>Py_Text\<close> (UTF-8, \<open>repr\<close>, \<open>json.dumps\<close>),
    \<open>Py_Json\<close> (\<open>json.loads\<close>, layouts), \<open>Py_Time\<close> (\<open>strptime\<close>, \<open>strftime\<close>), \<open>Sha256\<close>, \<open>Py_Net\<close>
    (\<open>urlparse\<close>, \<open>ipaddress\<close>), \<open>Float_Order\<close> (comparison of floats).
  \<^item> Data: \<open>Ebc_Types\<close> (\<open>types.py\<close>: settings and results as records), \<open>Hash_Utils\<close>, \<open>Samples\<close>
    (data of the worked examples).
  \<^item> Consensus: \<open>Consensus_Base\<close> (\<open>base.py\<close>), \<open>Proof_Of_Work\<close> (\<open>pow.py\<close>), \<open>Proof_Of_Stake\<close>
    (\<open>pos.py\<close>), \<open>Consensus\<close> (\<open>factory.py\<close> and the dispatch of methods), \<open>Signature\<close>.
  \<^item> Chain: \<open>Chain_Validator\<close>, \<open>Block_Chain\<close>.
  \<^item> Network: \<open>Messages\<close>, \<open>Peer_Auth\<close>, \<open>Rate_Limit\<close>, \<open>Peer\<close>, \<open>Tls\<close>, \<open>P2P_Server\<close>, \<open>Local_Url\<close> (the
    advertised URL and the arguments of a dial), \<open>Peer_Url\<close>, \<open>Discovery\<close>, \<open>Mdns\<close>, \<open>Reconnect\<close>.
  \<^item> Files and configuration: \<open>Store\<close>, \<open>Settings\<close>, \<open>Cli\<close>, \<open>Health\<close> (\<open>observability/metrics.py\<close>
    and \<open>health_server.py\<close>).
  \<^item> The node: \<open>Node_Sync\<close> (requests, answers and sessions of chain synchronisation),
    \<open>Chain_Exchange\<close> (two nodes that exchange a chain), \<open>Node\<close> (the object and its handlers),
    \<open>Node_Facts\<close> (what each handler keeps), \<open>Transitions\<close> and \<open>Node_System\<close> (the tasks of the event
    loop as a step relation), \<open>Node_Runs\<close>, \<open>Node_Behaviour\<close> and \<open>Node_Restart\<close> (properties of all
    runs, and of a stop with the start after it), \<open>Node_Durability\<close> (the worker that saves the chain
    beside the other tasks).

  Correspondence.  An object is a record of its attributes and a method a function that returns the
  changed record, with its result or exception; a dict is an association list in insertion order.
  What comes from outside at the time of a call is an argument: clocks, randomness, name resolution,
  the RSA operations (\<open>rsa_library\<close>, with the laws \<open>rsa_laws\<close> and \<open>private_pem_law\<close>, which hold of
  \<open>sample_rsa\<close>), PyYAML, the operations of the file system that may fail, \<open>math.log\<close>.  A handler
  of the node runs up to the point where it waits; then a task stands for it in \<open>sys_step\<close>, and the
  other steps may come in between.  Threads of mDNS are steps of \<open>mdns_step\<close> in the same way.

  The contracts.  \<open>sealing_protocol\<close> (in \<open>Consensus_Base\<close>) states what a consensus owes the chain:
  what it accepts is linked and hashed; it is interpreted for proof of work and proof of stake, and
  the facts about chains rest on it.  \<open>inductive_invariant\<close> (in \<open>Transitions\<close>) states that every
  step keeps a predicate; it is interpreted for the block chain of a node, its well-formedness, its
  waiting tasks, its configuration, what its files hold, and for the threads of mDNS.
  \<open>fixed_length_hash\<close> (in \<open>Hash_Utils\<close>) and \<open>sha_hom\<close> (in \<open>Sha256\<close>) state what the proofs use of
  SHA-256: digests of one length, and the agreement of its words with bit lists.

  What the lemmas show.  Chains: every reachable chain verifies and is sealed back to the genesis
  hash, the incremental check and the check of the whole chain agree, tampering needs a collision of
  SHA-256, stakes are conserved.  Consensus: what a node prepares, others accept; the choice between
  chains, of proposers and of difficulties.  Network: only signed peers are heard, transferred
  chains arrive, forks are resolved to better chains only, limits hold in every run.  Files: what is
  saved is loaded, a crash never mixes two states, keys stay private, a restarted node resumes,
  and an idle node has its chain on disk.
  Configuration and addresses: what a loaded configuration guarantees, which addresses are dialled.
  Some theorems state where the code does not do what it means to; the findings name them.

  Bounds.  Recursion is structural or has a measure.  The search for a nonce is bounded by
  \<open>max_mining_iterations\<close>, as in the code, and fails as the code does when it is used up; the
  exchange of a chain takes its number of rounds as an argument and is shown to need at most one
  round for each missing block.  There is no other fuel.

  Assumptions of the model.  Text is Latin-1: characters above U+00FF are refused by the model where
  the program would accept them.  A step of the event loop takes no time, sends do not suspend, and
  identifiers from \<open>uuid4\<close> are fresh.  The standard library is that of CPython 3.11 on Linux.

  Not modelled.  Sockets and the web socket library (what they report are events), time limits of
  sends, \<open>asyncio\<close> itself and the package \<open>zeroconf\<close>; \<open>argparse\<close>, signals and the start and stop
  of the program in \<open>cli.py\<close>; the format of log lines (\<open>logging_config.py\<close>); \<open>src/scripts\<close>,
  \<open>src/examples\<close> and \<open>setup.py\<close>, which orchestrate processes, edit version numbers or package the
  program.  These parts keep no state of the chain or the node.
\<close>

end
